(* ===== verification/Kernel_Prelude.thy ===== *)
theory Kernel_Prelude
  imports Main "HOL-Library.Word"
begin

text \<open>
  Shared vocabulary of the development: the machine integers of the i386 target, the
  result type of kernel code, the combinators in which the bodies of the C functions are
  written, the counting loops, and a weakest-precondition calculus for all of these.

  A kernel function that reads or writes global state is a value of type
  \<open>('s, 'a) kprog\<close>: it takes the state and either stops or returns a value and the new
  state. Stopping is a value of type \<open>kstop\<close>:
  \<^item> \<open>Panic\<close>: \<^verbatim>\<open>KERN_PANIC\<close> or a failed \<^verbatim>\<open>KERN_ASSERT\<close> (lib/debug.h), which halts the machine;
  \<^item> \<open>Fault\<close>: an access outside a C array, a wild pointer, a division by zero;
  \<^item> \<open>Deadlock\<close>: a spin loop nobody on this CPU can ever leave;
  \<^item> \<open>Asleep\<close>: the running thread gave the CPU away in \<^verbatim>\<open>thread_sleep\<close> and has not been
    resumed (the string names the channel).
  Arrays of the C program are functions on \<open>u32\<close> whose accesses are guarded by
  \<open>kassert\<close> with the declared length.
\<close>

unbundle bit_operations_syntax

section \<open>Machine integers\<close>

type_synonym u8 = "8 word"
type_synonym u16 = "16 word"
type_synonym u32 = "32 word"
type_synonym u64 = "64 word"

lemma unat_u32_less: "unat (a :: u32) < 4294967296"
  using unsigned_less [of a, where ?'a = nat] by simp

lemma u32_le_max [simp]: "(a :: u32) \<le> 0xffffffff"
  using unat_u32_less [of a] by (simp add: word_le_nat_alt)

lemma unat_of_nat_u32: "n < 4294967296 \<Longrightarrow> unat (of_nat n :: u32) = n"
  by (simp add: unat_of_nat)

lemma u32_mod_less: "(a :: u32) < b \<Longrightarrow> a mod b = a"
  by (simp add: word_less_nat_alt unat_arith_simps(7) word_unat_eq_iff unat_mod)

section \<open>Kernel programs\<close>

datatype kstop = Panic string | Fault string | Deadlock | Asleep string

type_synonym ('s, 'a) kres = "kstop + ('a \<times> 's)"
type_synonym ('s, 'a) kprog = "'s \<Rightarrow> ('s, 'a) kres"

definition kreturn :: "'a \<Rightarrow> ('s, 'a) kprog" where
  "kreturn x s = Inr (x, s)"

definition kbind :: "('s, 'a) kprog \<Rightarrow> ('a \<Rightarrow> ('s, 'b) kprog) \<Rightarrow> ('s, 'b) kprog" where
  "kbind m f s = (case m s of Inl e \<Rightarrow> Inl e | Inr (x, s') \<Rightarrow> f x s')"

definition kthen :: "('s, 'a) kprog \<Rightarrow> ('s, 'b) kprog \<Rightarrow> ('s, 'b) kprog" where
  "kthen m n = kbind m (\<lambda>_. n)"

definition kfail :: "kstop \<Rightarrow> ('s, 'a) kprog" where
  "kfail e s = Inl e"

definition kassert :: "bool \<Rightarrow> kstop \<Rightarrow> ('s, unit) kprog" where
  "kassert b e s = (if b then Inr ((), s) else Inl e)"

definition kgets :: "('s \<Rightarrow> 'a) \<Rightarrow> ('s, 'a) kprog" where
  "kgets f s = Inr (f s, s)"

definition kmodify :: "('s \<Rightarrow> 's) \<Rightarrow> ('s, unit) kprog" where
  "kmodify f s = Inr ((), f s)"

definition kwhen :: "bool \<Rightarrow> ('s, unit) kprog \<Rightarrow> ('s, unit) kprog" where
  "kwhen b m = (if b then m else kreturn ())"

text \<open>Computations on a part of the state that may stop: used for lock operations.\<close>

definition klift :: "(kstop + 's) \<Rightarrow> ('s, unit) kres" where
  "klift r = (case r of Inl e \<Rightarrow> Inl e | Inr s \<Rightarrow> Inr ((), s))"

text \<open>The same call made \<open>n\<close> times, its results in order.\<close>

primrec krepeat :: "nat \<Rightarrow> ('s, 'a) kprog \<Rightarrow> ('s, 'a list) kprog" where
  "krepeat 0 m = kreturn []"
| "krepeat (Suc n) m = kbind m (\<lambda>r. kbind (krepeat n m) (\<lambda>rs. kreturn (r # rs)))"

named_theorems krun "equations that run the combinators on a state"

lemma kreturn_run [krun]: "kreturn x s = Inr (x, s)"
  by (simp add: kreturn_def)

lemma kbind_Inr [krun]: "m s = Inr (x, s') \<Longrightarrow> kbind m f s = f x s'"
  by (simp add: kbind_def)

lemma kbind_Inl [krun]: "m s = Inl e \<Longrightarrow> kbind m f s = Inl e"
  by (simp add: kbind_def)

lemma kthen_Inr [krun]: "m s = Inr (x, s') \<Longrightarrow> kthen m n s = n s'"
  by (simp add: kthen_def kbind_def)

lemma kthen_Inl [krun]: "m s = Inl e \<Longrightarrow> kthen m n s = Inl e"
  by (simp add: kthen_def kbind_def)

lemma kfail_run [krun]: "kfail e s = Inl e"
  by (simp add: kfail_def)

lemma kassert_run [krun]: "kassert b e s = (if b then Inr ((), s) else Inl e)"
  by (simp add: kassert_def)

lemma kgets_run [krun]: "kgets f s = Inr (f s, s)"
  by (simp add: kgets_def)

lemma kmodify_run [krun]: "kmodify f s = Inr ((), f s)"
  by (simp add: kmodify_def)

lemma kwhen_run [krun]: "kwhen b m s = (if b then m s else Inr ((), s))"
  by (simp add: kwhen_def kreturn_def)

lemma kbind_eq_Inr [simp]:
  "kbind m f s = Inr r \<longleftrightarrow> (\<exists>x s'. m s = Inr (x, s') \<and> f x s' = Inr r)"
  by (auto simp: kbind_def split: sum.splits)

lemma kthen_eq_Inr [simp]:
  "kthen m n s = Inr r \<longleftrightarrow> (\<exists>x s'. m s = Inr (x, s') \<and> n s' = Inr r)"
  by (auto simp: kthen_def)

lemma kbind_assoc: "kbind (kbind m f) g = kbind m (\<lambda>x. kbind (f x) g)"
  by (auto simp: kbind_def fun_eq_iff split: sum.splits)

lemma kbind_cong [fundef_cong]:
  assumes "m s = m' s'" and "s = s'"
    and "\<And>x t. m' s' = Inr (x, t) \<Longrightarrow> f x t = f' x t"
  shows "kbind m f s = kbind m' f' s'"
  using assms by (auto simp: kbind_def split: sum.splits)

lemma kthen_cong [fundef_cong]:
  assumes "m s = m' s'" and "s = s'"
    and "\<And>x t. m' s' = Inr (x, t) \<Longrightarrow> n t = n' t"
  shows "kthen m n s = kthen m' n' s'"
  using assms by (auto simp: kthen_def kbind_def split: sum.splits)

section \<open>Weakest preconditions\<close>

text \<open>
  \<open>kwp m Q s\<close>: running \<open>m\<close> from \<open>s\<close> returns (it neither panics, faults nor blocks), and
  its value and final state satisfy \<open>Q\<close>. This is total correctness.
\<close>

definition kwp :: "('s, 'a) kprog \<Rightarrow> ('a \<Rightarrow> 's \<Rightarrow> bool) \<Rightarrow> 's \<Rightarrow> bool" where
  "kwp m Q s = (case m s of Inl _ \<Rightarrow> False | Inr (x, s') \<Rightarrow> Q x s')"

named_theorems wp "weakest preconditions of the combinators and of kernel functions"

lemma kwpI: "m s = Inr (x, s') \<Longrightarrow> Q x s' \<Longrightarrow> kwp m Q s"
  by (simp add: kwp_def)

lemma kwpE:
  assumes "kwp m Q s"
  obtains x s' where "m s = Inr (x, s')" and "Q x s'"
  using assms by (auto simp: kwp_def split: sum.splits)

lemma kwpD: "kwp m Q s \<Longrightarrow> m s = Inr (x, s') \<Longrightarrow> Q x s'"
  by (simp add: kwp_def)

lemma kwp_mono: "kwp m Q s \<Longrightarrow> (\<And>x s'. Q x s' \<Longrightarrow> R x s') \<Longrightarrow> kwp m R s"
  by (auto simp: kwp_def split: sum.splits)

lemma kwp_mono_run:
  "kwp m Q s \<Longrightarrow> (\<And>x s'. m s = Inr (x, s') \<Longrightarrow> Q x s' \<Longrightarrow> R x s') \<Longrightarrow> kwp m R s"
  by (auto simp: kwp_def split: sum.splits)

lemma kwp_conj: "kwp m Q s \<Longrightarrow> kwp m R s \<Longrightarrow> kwp m (\<lambda>x s'. Q x s' \<and> R x s') s"
  by (auto simp: kwp_def split: sum.splits)

lemma kwp_Inr: "m s = Inr (x, s') \<Longrightarrow> kwp m Q s = Q x s'"
  by (simp add: kwp_def)

lemma kwp_kreturn [wp]: "kwp (kreturn x) Q s = Q x s"
  by (simp add: kwp_def kreturn_def)

lemma kwp_kbind [wp]: "kwp (kbind m f) Q s = kwp m (\<lambda>x s'. kwp (f x) Q s') s"
  by (auto simp: kwp_def kbind_def split: sum.splits)

lemma kwp_kthen [wp]: "kwp (kthen m n) Q s = kwp m (\<lambda>_ s'. kwp n Q s') s"
  by (simp add: kthen_def kwp_kbind)

lemma kwp_kfail [wp]: "kwp (kfail e) Q s = False"
  by (simp add: kwp_def kfail_def)

lemma kwp_kassert [wp]: "kwp (kassert b e) Q s = (b \<and> Q () s)"
  by (simp add: kwp_def kassert_def)

lemma kwp_kgets [wp]: "kwp (kgets f) Q s = Q (f s) s"
  by (simp add: kwp_def kgets_def)

lemma kwp_kmodify [wp]: "kwp (kmodify f) Q s = Q () (f s)"
  by (simp add: kwp_def kmodify_def)

lemma kwp_kwhen [wp]: "kwp (kwhen b m) Q s = (if b then kwp m Q s else Q () s)"
  by (simp add: kwhen_def kwp_kreturn)

lemma kwp_if [wp]: "kwp (if b then m else n) Q s = (if b then kwp m Q s else kwp n Q s)"
  by simp

lemma kwp_Let [wp]: "kwp (let x = v in m x) Q s = (let x = v in kwp (m x) Q s)"
  by simp

text \<open>Sequential composition through an intermediate assertion.\<close>

lemma kwp_kthenI: "kwp m R s \<Longrightarrow> (\<And>x t. R x t \<Longrightarrow> kwp n Q t) \<Longrightarrow> kwp (kthen m n) Q s"
  unfolding kwp_kthen by (erule kwp_mono)

lemma kwp_kbindI: "kwp m R s \<Longrightarrow> (\<And>x t. R x t \<Longrightarrow> kwp (f x) Q t) \<Longrightarrow> kwp (kbind m f) Q s"
  unfolding kwp_kbind by (erule kwp_mono)

section \<open>Counting loops\<close>

lemma unat_inc: "(i :: u32) < n \<Longrightarrow> unat (i + 1) = Suc (unat i)"
proof -
  assume "i < n"
  then have "Suc (unat i) < 2 ^ LENGTH(32)"
    using unsigned_less [of n, where ?'a = nat] by (simp add: word_less_nat_alt)
  then show ?thesis by (simp add: unat_word_ariths)
qed

lemma inc_leD: "(i :: u32) < n \<Longrightarrow> i + 1 \<le> j \<Longrightarrow> i \<le> j"
  by (simp add: word_le_nat_alt unat_inc)

lemma less_inc_iff: "(j :: u32) < n \<Longrightarrow> i < j + 1 \<longleftrightarrow> i \<le> j"
  by (simp add: word_less_nat_alt word_le_nat_alt unat_inc less_Suc_eq_le)

lemma less_inc_cases: "(j :: u32) < n \<Longrightarrow> i < j + 1 \<longleftrightarrow> i < j \<or> i = j"
  by (auto simp: less_inc_iff)

text \<open>\<^verbatim>\<open>for (; i < n; i++) body(i);\<close>\<close>

function kfor :: "u32 \<Rightarrow> u32 \<Rightarrow> (u32 \<Rightarrow> ('s, unit) kprog) \<Rightarrow> ('s, unit) kprog" where
  "kfor i n body s =
     (if i < n then kthen (body i) (\<lambda>s'. kfor (i + 1) n body s') s else Inr ((), s))"
  by pat_completeness auto
termination
  by (relation "measure (\<lambda>(i, n, _, _). unat n - unat i)")
     (auto simp: unat_inc word_less_nat_alt)

declare kfor.simps [simp del]

text \<open>
  The same loop with an early exit: a body that yields \<open>Some r\<close> leaves the loop with \<open>r\<close>
  (a \<^verbatim>\<open>return\<close> or \<^verbatim>\<open>break\<close> inside the C loop), \<open>None\<close> goes on to the next index.
\<close>

function kfor_ret :: "u32 \<Rightarrow> u32 \<Rightarrow> (u32 \<Rightarrow> ('s, 'r option) kprog) \<Rightarrow> ('s, 'r option) kprog" where
  "kfor_ret i n body s =
     (if i < n
      then kbind (body i)
             (\<lambda>r s'. case r of Some v \<Rightarrow> Inr (Some v, s') | None \<Rightarrow> kfor_ret (i + 1) n body s') s
      else Inr (None, s))"
  by pat_completeness auto
termination
  by (relation "measure (\<lambda>(i, n, _, _). unat n - unat i)")
     (auto simp: unat_inc word_less_nat_alt)

declare kfor_ret.simps [simp del]

lemma kfor_done [krun]: "\<not> i < n \<Longrightarrow> kfor i n body s = Inr ((), s)"
  by (simp add: kfor.simps)

lemma kfor_step: "i < n \<Longrightarrow> kfor i n body s = kthen (body i) (kfor (i + 1) n body) s"
  by (simp add: kfor.simps)

lemma kfor_ret_done [krun]: "\<not> i < n \<Longrightarrow> kfor_ret i n body s = Inr (None, s)"
  by (simp add: kfor_ret.simps)

text \<open>The invariant rule: \<open>I j s\<close> holds whenever the loop is about to test \<open>j < n\<close>.\<close>

lemma kwp_kfor:
  assumes "i \<le> n" and "I i s"
    and step: "\<And>j t. i \<le> j \<Longrightarrow> j < n \<Longrightarrow> I j t \<Longrightarrow> kwp (body j) (\<lambda>_ t'. I (j + 1) t') t"
    and post: "\<And>t. I n t \<Longrightarrow> Q () t"
  shows "kwp (kfor i n body) Q s"
  using assms(1,2) step post
proof (induction i n body s rule: kfor.induct)
  case (1 i n body s)
  show ?case
  proof (cases "i < n")
    case True
    have b: "kwp (body i) (\<lambda>_ t'. I (i + 1) t') s"
      using "1.prems" True by blast
    then obtain u t where bi: "body i s = Inr (u, t)" and It: "I (i + 1) t"
      by (auto elim: kwpE)
    have "kwp (kfor (i + 1) n body) Q t"
    proof (rule "1.IH"[OF True bi _ It])
      show "i + 1 \<le> n" using True by (rule inc_le)
      show "\<And>t. I n t \<Longrightarrow> Q () t" by (rule "1.prems"(4))
      fix j t'
      assume "i + 1 \<le> j" "j < n" "I j t'"
      moreover have "i \<le> j"
        using True \<open>i + 1 \<le> j\<close> by (rule inc_leD)
      ultimately show "kwp (body j) (\<lambda>_ t'. I (j + 1) t') t'"
        using "1.prems"(3) by blast
    qed
    then show ?thesis
      using True bi by (simp add: kwp_def kfor.simps [of i n body s] krun)
  next
    case False
    then have "i = n" using "1.prems"(1) by simp
    then have "Q () s" using "1.prems"(2,4) by blast
    then show ?thesis
      using False by (simp add: kwp_def kfor.simps)
  qed
qed

lemma kwp_kfor_ret:
  assumes "i \<le> n" and "I i s"
    and step: "\<And>j t. i \<le> j \<Longrightarrow> j < n \<Longrightarrow> I j t \<Longrightarrow>
       kwp (body j) (\<lambda>r t'. case r of None \<Rightarrow> I (j + 1) t' | Some v \<Rightarrow> Q (Some v) t') t"
    and post: "\<And>t. I n t \<Longrightarrow> Q None t"
  shows "kwp (kfor_ret i n body) Q s"
  using assms(1,2) step post
proof (induction i n body s rule: kfor_ret.induct)
  case (1 i n body s)
  show ?case
  proof (cases "i < n")
    case True
    have "kwp (body i) (\<lambda>r t'. case r of None \<Rightarrow> I (i + 1) t' | Some v \<Rightarrow> Q (Some v) t') s"
      using "1.prems" True by blast
    then obtain r t where bi: "body i s = Inr (r, t)"
      and It: "case r of None \<Rightarrow> I (i + 1) t | Some v \<Rightarrow> Q (Some v) t"
      by (auto elim: kwpE)
    show ?thesis
    proof (cases r)
      case None
      with It have It': "I (i + 1) t" by simp
      have "kwp (kfor_ret (i + 1) n body) Q t"
      proof (rule "1.IH"[OF True bi None _ It'])
        show "i + 1 \<le> n" using True by (rule inc_le)
        show "\<And>t. I n t \<Longrightarrow> Q None t" by (rule "1.prems"(4))
        fix j t'
        assume "i + 1 \<le> j" "j < n" "I j t'"
        moreover have "i \<le> j"
          using True \<open>i + 1 \<le> j\<close> by (rule inc_leD)
        ultimately show "kwp (body j) (\<lambda>r t'. case r of None \<Rightarrow> I (j + 1) t' | Some v \<Rightarrow> Q (Some v) t') t'"
          using "1.prems"(3) by blast
      qed
      then show ?thesis
        using True bi None by (simp add: kwp_def kfor_ret.simps [of i n body s] krun)
    next
      case (Some v)
      then show ?thesis
        using True bi It by (simp add: kwp_def kfor_ret.simps [of i n body s] krun)
    qed
  next
    case False
    then have "i = n" using "1.prems"(1) by simp
    then have "Q None s" using "1.prems"(2,4) by blast
    then show ?thesis
      using False by (simp add: kwp_def kfor_ret.simps)
  qed
qed

text \<open>A counting loop that carries local variables of the C function in an accumulator.\<close>

function kfold :: "u32 \<Rightarrow> u32 \<Rightarrow> (u32 \<Rightarrow> 'x \<Rightarrow> ('s, 'x) kprog) \<Rightarrow> 'x \<Rightarrow> ('s, 'x) kprog" where
  "kfold i n body x s =
     (if i < n then kbind (body i x) (\<lambda>y t. kfold (i + 1) n body y t) s else Inr (x, s))"
  by pat_completeness auto
termination
  by (relation "measure (\<lambda>(i, n, _, _, _). unat n - unat i)")
     (auto simp: unat_inc word_less_nat_alt)

declare kfold.simps [simp del]

lemma kwp_kfold:
  assumes "i \<le> n" and "I i x s"
    and step: "\<And>j y t. i \<le> j \<Longrightarrow> j < n \<Longrightarrow> I j y t \<Longrightarrow> kwp (body j y) (\<lambda>z t'. I (j + 1) z t') t"
    and post: "\<And>y t. I n y t \<Longrightarrow> Q y t"
  shows "kwp (kfold i n body x) Q s"
  using assms(1,2) step post
proof (induction i n body x s rule: kfold.induct)
  case (1 i n body x s)
  show ?case
  proof (cases "i < n")
    case True
    have "kwp (body i x) (\<lambda>z t'. I (i + 1) z t') s"
      using "1.prems" True by blast
    then obtain y t where bi: "body i x s = Inr (y, t)" and It: "I (i + 1) y t"
      by (auto elim: kwpE)
    have "kwp (kfold (i + 1) n body y) Q t"
    proof (rule "1.IH"[OF True bi _ It])
      show "i + 1 \<le> n" using True by (rule inc_le)
      show "\<And>y t. I n y t \<Longrightarrow> Q y t" by (rule "1.prems"(4))
      fix j y' t'
      assume "i + 1 \<le> j" "j < n" "I j y' t'"
      moreover have "i \<le> j"
        using True \<open>i + 1 \<le> j\<close> by (rule inc_leD)
      ultimately show "kwp (body j y') (\<lambda>z t'. I (j + 1) z t') t'"
        using "1.prems"(3) by blast
    qed
    then show ?thesis
      using True bi by (simp add: kwp_def kfold.simps [of i n body x s] krun)
  next
    case False
    then have "i = n" using "1.prems"(1) by simp
    then have "Q x s" using "1.prems"(2,4) by blast
    then show ?thesis
      using False by (simp add: kwp_def kfold.simps)
  qed
qed

lemma unat_small_ucast: "unat d < 2 ^ LENGTH('b) \<Longrightarrow> unat (ucast (d :: 'a :: len word) :: 'b :: len word) = unat d"
  by (simp add: unsigned_ucast_eq take_bit_eq_mod)

lemma sint_small:
  assumes "unat (x :: u32) < 0x80000000"
  shows "sint x = int (unat x)"
proof -
  have "signed_take_bit 31 (int (unat x)) = int (unat x)"
  proof (rule signed_take_bit_int_eq_self)
    show "- (2 ^ 31) \<le> int (unat x)" by (rule order.trans [of _ 0]) simp_all
    have "int (unat x) < int 0x80000000" using assms by (simp only: of_nat_less_iff)
    then show "int (unat x) < 2 ^ 31" by simp
  qed
  then show ?thesis by (simp add: sint_uint)
qed

end
