(* ===== verification/PCPU.thy ===== *)
theory PCPU
  imports Kernel_Prelude
begin

text \<open>
  Per-CPU data (kern/pcpu/PCPUIntro, kern/pcpu/PCPUInit), the kernel stack the running code
  sits on (kern/lib/kstack.c), and the rounding helpers of kern/lib/types.c.

  \<^verbatim>\<open>get_kstack_pointer\<close> rounds the stack pointer down to the \<^verbatim>\<open>struct kstack\<close> it lies in.
  The fields of that structure which the kernel reads are the first three fields of the
  state record: its address, its \<^verbatim>\<open>cpu_idx\<close> and its \<^verbatim>\<open>magic\<close>. Of \<^verbatim>\<open>struct pcpuinfo\<close> only the
  vendor is kept; nothing outside the multiprocessor probe (kern/dev/pcpu_mp.c) reads the rest.
\<close>

abbreviation (input) NUM_CPUS :: u32 where "NUM_CPUS \<equiv> 8"
abbreviation (input) NUM_IDS :: u32 where "NUM_IDS \<equiv> 64"
abbreviation (input) PAGESIZE :: u32 where "PAGESIZE \<equiv> 4096"
abbreviation (input) KSTACK_SIZE :: u32 where "KSTACK_SIZE \<equiv> 4096"
abbreviation (input) KSTACK_MAGIC :: u32 where "KSTACK_MAGIC \<equiv> 0x98765432"

section \<open>Helpers of lib/types.c\<close>

definition max_u32 :: "u32 \<Rightarrow> u32 \<Rightarrow> u32" where
  "max_u32 a b = (if a > b then a else b)"

definition min_u32 :: "u32 \<Rightarrow> u32 \<Rightarrow> u32" where
  "min_u32 a b = (if a < b then a else b)"

definition rounddown :: "u32 \<Rightarrow> u32 \<Rightarrow> u32" where
  "rounddown a n = a - a mod n"

definition roundup :: "u32 \<Rightarrow> u32 \<Rightarrow> u32" where
  "roundup a n = rounddown (a + n - 1) n"

section \<open>State\<close>

datatype cpu_vendor = UNKNOWN_CPU | INTEL | AMD

record pcpu_t =
  inited :: bool
  booted :: bool
  kstack :: u32
  vendor :: cpu_vendor
  cpu_idx :: u32

record cpu_state =
  ks_addr :: u32
  ks_cpu_idx :: u32
  ks_magic :: u32
  pcpu :: "u32 \<Rightarrow> pcpu_t"
  pcpu_inited :: bool

section \<open>Operations\<close>

definition get_kstack_pointer :: "('a cpu_state_scheme, u32) kprog" where
  "get_kstack_pointer = kgets ks_addr"

definition get_kstack_cpu_idx :: "('a cpu_state_scheme, u32) kprog" where
  "get_kstack_cpu_idx = kgets ks_cpu_idx"

definition pcpu_set_zero :: "('a cpu_state_scheme, unit) kprog" where
  "pcpu_set_zero =
     kmodify (\<lambda>s. s\<lparr>pcpu := (\<lambda>i. if i < NUM_CPUS
       then \<lparr>inited = False, booted = False, kstack = 0, vendor = UNKNOWN_CPU, cpu_idx = 0\<rparr>
       else pcpu s i)\<rparr>)"

definition pcpu_slot :: "u32 \<Rightarrow> ('a cpu_state_scheme, pcpu_t) kprog" where
  "pcpu_slot i = kthen (kassert (i < NUM_CPUS) (Fault ''pcpu'')) (kgets (\<lambda>s. pcpu s i))"

definition pcpu_upd :: "u32 \<Rightarrow> (pcpu_t \<Rightarrow> pcpu_t) \<Rightarrow> ('a cpu_state_scheme, unit) kprog" where
  "pcpu_upd i f =
     kthen (kassert (i < NUM_CPUS) (Fault ''pcpu'')) (kmodify (\<lambda>s. s\<lparr>pcpu := (pcpu s)(i := f (pcpu s i))\<rparr>))"

definition pcpu_fields_init :: "u32 \<Rightarrow> ('a cpu_state_scheme, unit) kprog" where
  "pcpu_fields_init i =
     kthen (pcpu_upd i (\<lambda>p. p\<lparr>inited := True\<rparr>)) (pcpu_upd i (\<lambda>p. p\<lparr>cpu_idx := i\<rparr>))"

definition pcpu_cur :: "('a cpu_state_scheme, pcpu_t) kprog" where
  "pcpu_cur = kbind get_kstack_cpu_idx pcpu_slot"

definition get_pcpu_idx :: "('a cpu_state_scheme, u32) kprog" where
  "get_pcpu_idx = kbind pcpu_cur (\<lambda>p. kreturn (cpu_idx p))"

definition set_pcpu_idx :: "u32 \<Rightarrow> u32 \<Rightarrow> ('a cpu_state_scheme, unit) kprog" where
  "set_pcpu_idx index i = pcpu_upd index (\<lambda>p. p\<lparr>cpu_idx := i\<rparr>)"

definition get_pcpu_kstack_pointer :: "u32 \<Rightarrow> ('a cpu_state_scheme, u32) kprog" where
  "get_pcpu_kstack_pointer i = kbind (pcpu_slot i) (\<lambda>p. kreturn (kstack p))"

definition set_pcpu_kstack_pointer :: "u32 \<Rightarrow> u32 \<Rightarrow> ('a cpu_state_scheme, unit) kprog" where
  "set_pcpu_kstack_pointer i ks = pcpu_upd i (\<lambda>p. p\<lparr>kstack := ks\<rparr>)"

definition get_pcpu_boot_info :: "u32 \<Rightarrow> ('a cpu_state_scheme, bool) kprog" where
  "get_pcpu_boot_info i = kbind (pcpu_slot i) (\<lambda>p. kreturn (booted p))"

definition set_pcpu_boot_info :: "u32 \<Rightarrow> bool \<Rightarrow> ('a cpu_state_scheme, unit) kprog" where
  "set_pcpu_boot_info i b = pcpu_upd i (\<lambda>p. p\<lparr>booted := b\<rparr>)"

definition get_pcpu_cpu_vendor :: "u32 \<Rightarrow> ('a cpu_state_scheme, cpu_vendor) kprog" where
  "get_pcpu_cpu_vendor i = kbind (pcpu_slot i) (\<lambda>p. kreturn (vendor p))"

definition get_pcpu_inited_info :: "u32 \<Rightarrow> ('a cpu_state_scheme, bool) kprog" where
  "get_pcpu_inited_info i = kbind (pcpu_slot i) (\<lambda>p. kreturn (inited p))"

text \<open>
  \<^verbatim>\<open>pcpu_init\<close>. The two calls into the multiprocessor probe, \<^verbatim>\<open>pcpu_mp_init\<close> (ACPI and MP
  table scan) and \<^verbatim>\<open>pcpu_init_cpu\<close> (CPUID), are arguments: they talk to hardware.
\<close>

definition pcpu_init ::
  "('a cpu_state_scheme, unit) kprog \<Rightarrow> ('a cpu_state_scheme, unit) kprog \<Rightarrow>
   ('a cpu_state_scheme, unit) kprog" where
  "pcpu_init pcpu_mp_init pcpu_init_cpu =
     kbind (kgets ks_addr) (\<lambda>ks.
     kbind (kgets ks_cpu_idx) (\<lambda>i.
     kbind (kgets pcpu_inited) (\<lambda>done.
     if i = 0 \<and> done then kreturn ()
     else
       kthen (kwhen (i = 0)
         (kthen pcpu_set_zero
         (kthen pcpu_mp_init
         (kthen (kfor 0 NUM_CPUS pcpu_fields_init)
                (kmodify (\<lambda>s. s\<lparr>pcpu_inited := True\<rparr>))))))
       (kthen (set_pcpu_idx i i)
       (kthen (set_pcpu_kstack_pointer i ks)
       (kthen (set_pcpu_boot_info i True)
              pcpu_init_cpu))))))"

section \<open>The running CPU is set up\<close>

text \<open>
  What every later layer relies on: the stack carries the magic number and names a CPU
  whose per-CPU slot agrees.
\<close>

definition cpu_ok :: "'a cpu_state_scheme \<Rightarrow> bool" where
  "cpu_ok s \<longleftrightarrow> ks_magic s = KSTACK_MAGIC \<and> ks_cpu_idx s < NUM_CPUS \<and>
     cpu_idx (pcpu s (ks_cpu_idx s)) = ks_cpu_idx s"

lemma cpu_okD:
  assumes "cpu_ok s"
  shows "ks_magic s = KSTACK_MAGIC" and "ks_cpu_idx s < NUM_CPUS"
    and "cpu_idx (pcpu s (ks_cpu_idx s)) = ks_cpu_idx s"
  using assms by (simp_all add: cpu_ok_def)

lemma kwp_pcpu_slot [wp]: "kwp (pcpu_slot i) Q s = (i < NUM_CPUS \<and> Q (pcpu s i) s)"
  by (simp add: pcpu_slot_def wp)

lemma kwp_pcpu_upd [wp]:
  "kwp (pcpu_upd i f) Q s = (i < NUM_CPUS \<and> Q () (s\<lparr>pcpu := (pcpu s)(i := f (pcpu s i))\<rparr>))"
  by (simp add: pcpu_upd_def wp)

lemma kwp_get_pcpu_idx [wp]:
  "kwp get_pcpu_idx Q s =
     (ks_cpu_idx s < NUM_CPUS \<and> Q (cpu_idx (pcpu s (ks_cpu_idx s))) s)"
  by (simp add: get_pcpu_idx_def pcpu_cur_def get_kstack_cpu_idx_def wp)

lemma get_pcpu_idx_run [krun]: "cpu_ok s \<Longrightarrow> get_pcpu_idx s = Inr (ks_cpu_idx s, s)"
  by (simp add: get_pcpu_idx_def pcpu_cur_def get_kstack_cpu_idx_def pcpu_slot_def
      kbind_def kthen_def kgets_def kassert_def kreturn_def cpu_ok_def)

section \<open>Properties\<close>

lemma rounddown_le: "rounddown a n \<le> a"
proof -
  have "a mod n \<le> a" by (simp add: word_le_nat_alt unat_mod mod_less_eq_dividend)
  then show ?thesis by (simp add: rounddown_def word_le_nat_alt unat_sub)
qed

lemma unat_rounddown: "unat (rounddown a n) = unat a - unat a mod unat n"
proof -
  have "a mod n \<le> a" by (simp add: word_le_nat_alt unat_mod mod_less_eq_dividend)
  then show ?thesis by (simp add: rounddown_def unat_sub unat_mod)
qed

lemma pcpu_fields_loop:
  fixes s :: "'a cpu_state_scheme"
  assumes "s = t\<lparr>pcpu := p\<rparr>"
  shows "kwp (kfor 0 NUM_CPUS pcpu_fields_init)
    (\<lambda>_ s'. \<exists>p'. s' = t\<lparr>pcpu := p'\<rparr> \<and> (\<forall>i < NUM_CPUS. cpu_idx (p' i) = i \<and> inited (p' i))) s"
  by (rule kwp_kfor [where I = "\<lambda>j s'. \<exists>p'. s' = t\<lparr>pcpu := p'\<rparr> \<and>
        (\<forall>i < j. cpu_idx (p' i) = i \<and> inited (p' i))"])
     (use assms in \<open>auto simp: pcpu_fields_init_def wp less_inc_cases\<close>)

end
