(* ===== verification/SpinLock.thy ===== *)
theory SpinLock
  imports PCPU
begin

text \<open>
  Spinlocks (kern/lib/spinlock.c), in two views.

  Sequential view: \<open>spinlock_acquire\<close> and friends as the rest of the kernel calls them on
  one CPU. Interrupts are off inside the kernel, so a lock that is found taken is never
  released while this CPU spins: the outcome is \<open>Deadlock\<close>. A lock lives in some field of
  the state; the operations take the field's selector and its update function, and the
  locale \<open>lock_field\<close> states what such a pair has to satisfy.

  Interleaved view: \<open>spin_step\<close> lets every CPU execute the instructions of
  \<^verbatim>\<open>spinlock_acquire_A\<close> and \<^verbatim>\<open>spinlock_release_A\<close> one at a time, in any order, with
  \<^verbatim>\<open>xchg\<close> as the only atomic read-modify-write. Mutual exclusion and the correctness of
  \<^verbatim>\<open>spinlock_holding\<close> are invariants of it.
\<close>

section \<open>Sequential view\<close>

record spinlock_t =
  lock_holder :: u32
  lock :: u32

definition spinlock_init :: "spinlock_t" where
  "spinlock_init = \<lparr>lock_holder = NUM_CPUS + 1, lock = 0\<rparr>"

definition xchg :: "u32 \<Rightarrow> spinlock_t \<Rightarrow> u32 \<times> spinlock_t" where
  "xchg v l = (lock l, l\<lparr>lock := v\<rparr>)"

definition spinlock_holding ::
  "('a cpu_state_scheme \<Rightarrow> spinlock_t) \<Rightarrow> ('a cpu_state_scheme, bool) kprog" where
  "spinlock_holding get =
     kbind (kgets get) (\<lambda>l.
     if lock l = 0 then kreturn False
     else
       kbind (kgets ks_magic) (\<lambda>m.
       kthen (kassert (m = KSTACK_MAGIC) (Panic ''kstack->magic == KSTACK_MAGIC''))
       (kbind (kgets ks_cpu_idx) (\<lambda>c.
       kreturn (lock_holder l = c)))))"

definition spinlock_acquire ::
  "('a cpu_state_scheme \<Rightarrow> spinlock_t) \<Rightarrow>
   ((spinlock_t \<Rightarrow> spinlock_t) \<Rightarrow> 'a cpu_state_scheme \<Rightarrow> 'a cpu_state_scheme) \<Rightarrow>
   ('a cpu_state_scheme, unit) kprog" where
  "spinlock_acquire get upd =
     kbind (kgets get) (\<lambda>l.
     let (old, l1) = xchg 1 l in
     kthen (kmodify (upd (\<lambda>_. l1)))
     (kthen (kassert (old = 0) Deadlock)
     (kbind (kgets ks_magic) (\<lambda>m.
     kthen (kassert (m = KSTACK_MAGIC) (Panic ''kstack->magic == KSTACK_MAGIC''))
     (kbind (kgets ks_cpu_idx) (\<lambda>c.
     kmodify (upd (\<lambda>l. l\<lparr>lock_holder := c\<rparr>))))))))"

definition spinlock_try_acquire ::
  "('a cpu_state_scheme \<Rightarrow> spinlock_t) \<Rightarrow>
   ((spinlock_t \<Rightarrow> spinlock_t) \<Rightarrow> 'a cpu_state_scheme \<Rightarrow> 'a cpu_state_scheme) \<Rightarrow>
   ('a cpu_state_scheme, u32) kprog" where
  "spinlock_try_acquire get upd =
     kbind (kgets get) (\<lambda>l.
     let (old, l1) = xchg 1 l in
     kthen (kmodify (upd (\<lambda>_. l1)))
     (kthen (kwhen (old = 0)
       (kbind (kgets ks_magic) (\<lambda>m.
        kthen (kassert (m = KSTACK_MAGIC) (Panic ''kstack->magic == KSTACK_MAGIC''))
        (kbind (kgets ks_cpu_idx) (\<lambda>c.
        kmodify (upd (\<lambda>l. l\<lparr>lock_holder := c\<rparr>)))))))
     (kreturn old)))"

definition spinlock_release ::
  "('a cpu_state_scheme \<Rightarrow> spinlock_t) \<Rightarrow>
   ((spinlock_t \<Rightarrow> spinlock_t) \<Rightarrow> 'a cpu_state_scheme \<Rightarrow> 'a cpu_state_scheme) \<Rightarrow>
   ('a cpu_state_scheme, unit) kprog" where
  "spinlock_release get upd =
     kthen (kmodify (upd (\<lambda>l. l\<lparr>lock_holder := NUM_CPUS + 1\<rparr>)))
           (kmodify (upd (\<lambda>l. snd (xchg 0 l))))"

text \<open>A free lock, and the value of a lock taken by CPU \<open>c\<close>.\<close>

abbreviation lock_free :: "spinlock_t \<Rightarrow> bool" where
  "lock_free l \<equiv> l = spinlock_init"

definition lock_by :: "u32 \<Rightarrow> spinlock_t" where
  "lock_by c = \<lparr>lock_holder = c, lock = 1\<rparr>"

lemma lock_spinlock_init [simp]: "lock spinlock_init = 0"
  by (simp add: spinlock_init_def)

lemma lock_lock_by [simp]: "lock (lock_by c) = 1" "lock_holder (lock_by c) = c"
  by (simp_all add: lock_by_def)

lemma taken_lock [simp]: "(l :: spinlock_t)\<lparr>lock := 1, lock_holder := c\<rparr> = lock_by c"
  by (cases l) (simp add: lock_by_def)

lemma released_lock [simp]: "(l :: spinlock_t)\<lparr>lock_holder := 9, lock := 0\<rparr> = spinlock_init"
  by (cases l) (simp add: spinlock_init_def)

lemma lock_init_neq_by [simp]: "spinlock_init \<noteq> lock_by c" "lock_by c \<noteq> spinlock_init"
  by (simp_all add: spinlock_init_def lock_by_def)

locale lock_field =
  fixes get :: "'a cpu_state_scheme \<Rightarrow> spinlock_t"
    and upd :: "(spinlock_t \<Rightarrow> spinlock_t) \<Rightarrow> 'a cpu_state_scheme \<Rightarrow> 'a cpu_state_scheme"
  assumes get_upd: "get (upd f s) = f (get s)"
    and upd_upd: "upd f (upd g s) = upd (\<lambda>l. f (g l)) s"
    and upd_get: "upd (\<lambda>_. get s) s = s"
    and magic_upd: "ks_magic (upd f s) = ks_magic s"
    and cpu_upd: "ks_cpu_idx (upd f s) = ks_cpu_idx s"
begin

lemma acquire_wp:
  "kwp (spinlock_acquire get upd) Q s =
     (lock (get s) = 0 \<and> ks_magic s = KSTACK_MAGIC \<and> Q () (upd (\<lambda>_. lock_by (ks_cpu_idx s)) s))"
  by (simp add: spinlock_acquire_def xchg_def wp get_upd magic_upd cpu_upd upd_upd)

lemma try_acquire_wp:
  "kwp (spinlock_try_acquire get upd) Q s =
     (if lock (get s) = 0
      then ks_magic s = KSTACK_MAGIC \<and> Q 0 (upd (\<lambda>_. lock_by (ks_cpu_idx s)) s)
      else Q (lock (get s)) (upd (\<lambda>_. (get s)\<lparr>lock := 1\<rparr>) s))"
  by (simp add: spinlock_try_acquire_def xchg_def wp get_upd magic_upd cpu_upd upd_upd)

lemma release_wp: "kwp (spinlock_release get upd) Q s = Q () (upd (\<lambda>_. spinlock_init) s)"
  by (simp add: spinlock_release_def xchg_def wp upd_upd)

text \<open>A lock that is taken is never acquired again on the same CPU.\<close>

lemma acquire_held: "lock (get s) \<noteq> 0 \<Longrightarrow> spinlock_acquire get upd s = Inl Deadlock"
  by (simp add: spinlock_acquire_def xchg_def kbind_def kgets_def kthen_def kmodify_def kassert_def)

text \<open>Acquire, work on other fields and release: the bracket every kernel operation uses.\<close>

lemma bracket_wp:
  "kwp (kthen (spinlock_acquire get upd) (kbind m (\<lambda>x. kthen (spinlock_release get upd) (kreturn x)))) Q s =
     (lock (get s) = 0 \<and> ks_magic s = KSTACK_MAGIC \<and>
      kwp m (\<lambda>x t. Q x (upd (\<lambda>_. spinlock_init) t)) (upd (\<lambda>_. lock_by (ks_cpu_idx s)) s))"
  by (simp add: wp acquire_wp release_wp)

lemma acquire_release_id:
  assumes "lock_free (get s)" and "ks_magic s = KSTACK_MAGIC"
  shows "kwp (kthen (spinlock_acquire get upd) (spinlock_release get upd)) (\<lambda>_ t. t = s) s"
proof -
  have "upd (\<lambda>_. spinlock_init) s = s"
    using upd_get [of s] assms(1) by simp
  then show ?thesis
    using assms by (simp add: wp acquire_wp release_wp upd_upd)
qed

end

section \<open>Interleaved view\<close>

text \<open>
  Where a CPU is with respect to one lock: \<open>Out\<close> of it, at the \<^verbatim>\<open>xchg\<close> of the acquire loop
  (\<open>Want\<close>), past it but before the store to \<^verbatim>\<open>lock_holder\<close> (\<open>Won\<close>), in the critical section
  (\<open>Crit\<close>), or past the store of \<^verbatim>\<open>spinlock_release_A\<close> but before its \<^verbatim>\<open>xchg\<close> (\<open>Leaving\<close>).
\<close>

datatype spin_pc = Out | Want | Won | Crit | Leaving

record spin_sys =
  lk :: spinlock_t
  pcs :: "u32 \<Rightarrow> spin_pc"

definition spin_start :: spin_sys where
  "spin_start = \<lparr>lk = spinlock_init, pcs = (\<lambda>_. Out)\<rparr>"

inductive spin_step :: "u32 \<Rightarrow> spin_sys \<Rightarrow> spin_sys \<Rightarrow> bool" where
  call: "c < NUM_CPUS \<Longrightarrow> pcs s c = Out \<Longrightarrow> spin_step c s (s\<lparr>pcs := (pcs s)(c := Want)\<rparr>)"
| spin: "pcs s c = Want \<Longrightarrow> xchg 1 (lk s) = (old, l) \<Longrightarrow> old \<noteq> 0 \<Longrightarrow> spin_step c s (s\<lparr>lk := l\<rparr>)"
| win: "pcs s c = Want \<Longrightarrow> xchg 1 (lk s) = (0, l) \<Longrightarrow>
     spin_step c s (s\<lparr>lk := l, pcs := (pcs s)(c := Won)\<rparr>)"
| mark: "pcs s c = Won \<Longrightarrow>
     spin_step c s (s\<lparr>lk := (lk s)\<lparr>lock_holder := c\<rparr>, pcs := (pcs s)(c := Crit)\<rparr>)"
| unmark: "pcs s c = Crit \<Longrightarrow>
     spin_step c s (s\<lparr>lk := (lk s)\<lparr>lock_holder := NUM_CPUS + 1\<rparr>, pcs := (pcs s)(c := Leaving)\<rparr>)"
| free: "pcs s c = Leaving \<Longrightarrow> xchg 0 (lk s) = (old, l) \<Longrightarrow>
     spin_step c s (s\<lparr>lk := l, pcs := (pcs s)(c := Out)\<rparr>)"
| try_fail: "c < NUM_CPUS \<Longrightarrow> pcs s c = Out \<Longrightarrow> xchg 1 (lk s) = (old, l) \<Longrightarrow> old \<noteq> 0 \<Longrightarrow>
     spin_step c s (s\<lparr>lk := l\<rparr>)"
| try_win: "c < NUM_CPUS \<Longrightarrow> pcs s c = Out \<Longrightarrow> xchg 1 (lk s) = (0, l) \<Longrightarrow>
     spin_step c s (s\<lparr>lk := l, pcs := (pcs s)(c := Won)\<rparr>)"

inductive spin_reachable :: "spin_sys \<Rightarrow> bool" where
  start: "spin_reachable spin_start"
| step: "spin_reachable s \<Longrightarrow> spin_step c s t \<Longrightarrow> spin_reachable t"

definition inside :: "spin_pc \<Rightarrow> bool" where
  "inside p \<longleftrightarrow> p = Won \<or> p = Crit \<or> p = Leaving"

text \<open>What \<^verbatim>\<open>spinlock_holding\<close> computes on CPU \<open>c\<close> from the lock word and the holder field.\<close>

definition holding_value :: "u32 \<Rightarrow> spinlock_t \<Rightarrow> bool" where
  "holding_value c l \<longleftrightarrow> lock l \<noteq> 0 \<and> lock_holder l = c"

lemma spinlock_holding_value:
  "ks_magic s = KSTACK_MAGIC \<Longrightarrow>
     spinlock_holding get s = Inr (holding_value (ks_cpu_idx s) (get s), s)"
  by (simp add: spinlock_holding_def holding_value_def kbind_def kthen_def kgets_def kassert_def kreturn_def)

text \<open>
  The invariant names the CPU inside the lock, if there is one: the lock word is clear
  exactly when there is none, and the holder field is that CPU while it is in its
  critical section and the idle value otherwise.
\<close>

definition spin_inv_by :: "u32 option \<Rightarrow> spin_sys \<Rightarrow> bool" where
  "spin_inv_by w s \<longleftrightarrow>
     (\<forall>c. pcs s c \<noteq> Out \<longrightarrow> c < NUM_CPUS) \<and>
     (\<forall>c. inside (pcs s c) \<longleftrightarrow> w = Some c) \<and>
     (lock (lk s) = 0 \<longleftrightarrow> w = None) \<and>
     lock_holder (lk s) = (case w of None \<Rightarrow> NUM_CPUS + 1 | Some c \<Rightarrow> if pcs s c = Crit then c else NUM_CPUS + 1)"

definition spin_inv :: "spin_sys \<Rightarrow> bool" where
  "spin_inv s \<longleftrightarrow> (\<exists>w. spin_inv_by w s)"

lemma inside_simps [simp]:
  "\<not> inside Out" "\<not> inside Want" "inside Won" "inside Crit" "inside Leaving"
  by (simp_all add: inside_def)

lemma spin_inv_start: "spin_inv_by None spin_start"
  by (simp add: spin_inv_by_def spin_start_def spinlock_init_def)

text \<open>How the CPU inside changes: entered by the \<^verbatim>\<open>xchg\<close> that finds 0, left by the one that stores 0.\<close>

lemma spin_inv_step:
  assumes "spin_step c s t" and "spin_inv_by w s"
  shows "\<exists>w'. spin_inv_by w' t"
  using assms
proof (induction rule: spin_step.induct)
  case (call c s)
  then have "w \<noteq> Some c" by (metis inside_simps(1) spin_inv_by_def)
  with call show ?case by (intro exI [of _ w]) (auto simp: spin_inv_by_def split: option.splits)
next
  case (spin s c old l)
  then show ?case by (intro exI [of _ w]) (auto simp: spin_inv_by_def xchg_def)
next
  case (win s c l)
  then show ?case by (intro exI [of _ "Some c"]) (auto simp: spin_inv_by_def xchg_def split: option.splits)
next
  case (mark s c)
  then have "w = Some c" by (metis inside_simps(3) spin_inv_by_def)
  with mark show ?case by (intro exI [of _ w]) (auto simp: spin_inv_by_def)
next
  case (unmark s c)
  then have "w = Some c" by (metis inside_simps(4) spin_inv_by_def)
  with unmark show ?case by (intro exI [of _ w]) (auto simp: spin_inv_by_def)
next
  case (free s c old l)
  then have "w = Some c" by (metis inside_simps(5) spin_inv_by_def)
  with free show ?case by (intro exI [of _ None]) (auto simp: spin_inv_by_def xchg_def)
next
  case (try_fail c s old l)
  then show ?case by (intro exI [of _ w]) (auto simp: spin_inv_by_def xchg_def)
next
  case (try_win c s l)
  then show ?case by (intro exI [of _ "Some c"]) (auto simp: spin_inv_by_def xchg_def split: option.splits)
qed

lemma spin_inv_reachable: "spin_reachable s \<Longrightarrow> spin_inv s"
  by (induction rule: spin_reachable.induct)
     (auto simp: spin_inv_def intro: spin_inv_start dest: spin_inv_step)

text \<open>
  C4: Mutual exclusion of spinlock_acquire_A / spinlock_release_A: however the instructions of
  all CPUs interleave, two CPUs are never both between the winning xchg of the acquire loop
  and the xchg of the release.
\<close>

theorem spin_mutual_exclusion:
  assumes "spin_reachable s" and "inside (pcs s c)" and "inside (pcs s d)"
  shows "c = d"
proof -
  from assms(1) obtain w where "spin_inv_by w s"
    using spin_inv_reachable spin_inv_def by blast
  with assms(2,3) show ?thesis by (auto simp: spin_inv_by_def)
qed

definition spin_demo :: spin_sys where
  "spin_demo = \<lparr>lk = lock_by 3, pcs = (\<lambda>_. Out)(3 := Crit, 5 := Want)\<rparr>"

lemma spin_demo_reachable: "spin_reachable spin_demo"
proof -
  let ?s1 = "\<lparr>lk = spinlock_init, pcs = (\<lambda>_. Out)(3 := Want)\<rparr>"
  let ?s2 = "\<lparr>lk = spinlock_init, pcs = (\<lambda>_. Out)(3 := Want, 5 := Want)\<rparr>"
  let ?s3 = "\<lparr>lk = spinlock_init\<lparr>lock := 1\<rparr>, pcs = (\<lambda>_. Out)(3 := Won, 5 := Want)\<rparr>"
  have "spin_step 3 spin_start ?s1"
    using spin_step.call [of 3 spin_start] by (simp add: spin_start_def)
  then have 1: "spin_reachable ?s1" by (rule spin_reachable.step [OF spin_reachable.start])
  have "spin_step 5 ?s1 ?s2"
    using spin_step.call [of 5 ?s1] by simp
  with 1 have 2: "spin_reachable ?s2" by (rule spin_reachable.step)
  have "spin_step 3 ?s2 ?s3"
    using spin_step.win [of ?s2 3 "spinlock_init\<lparr>lock := 1\<rparr>"] by (simp add: xchg_def fun_upd_twist)
  with 2 have 3: "spin_reachable ?s3" by (rule spin_reachable.step)
  have "spin_step 3 ?s3 spin_demo"
    using spin_step.mark [of ?s3 3] by (simp add: spin_demo_def fun_upd_twist)
  with 3 show ?thesis by (rule spin_reachable.step)
qed

theorem spin_mutual_exclusion_witness:
  "spin_reachable spin_demo \<and> inside (pcs spin_demo 3) \<and> \<not> inside (pcs spin_demo 5) \<and> (3 :: u32) = 3"
  using spin_demo_reachable spin_mutual_exclusion [OF spin_demo_reachable, of 3 3]
  by (simp add: spin_demo_def)

text \<open>
  C25: spinlock_holding is right in every reachable interleaving: the value it computes on CPU c
  is true exactly when c is in its critical section.
\<close>

theorem spin_holding_correct:
  assumes "spin_reachable s" and "ks_magic t = KSTACK_MAGIC" and "ks_cpu_idx t < NUM_CPUS"
  shows "spinlock_holding (\<lambda>_. lk s) t = Inr (pcs s (ks_cpu_idx t) = Crit, t)"
proof -
  let ?c = "ks_cpu_idx t"
  from assms(1) obtain w where w: "spin_inv_by w s"
    using spin_inv_reachable spin_inv_def by blast
  have "?c \<noteq> NUM_CPUS + 1" using assms(3) by auto
  moreover have "pcs s ?c = Crit \<Longrightarrow> w = Some ?c"
    using w by (metis inside_simps(4) spin_inv_by_def)
  ultimately have "holding_value ?c (lk s) \<longleftrightarrow> pcs s ?c = Crit"
    using w by (cases w) (auto simp: spin_inv_by_def holding_value_def split: if_splits)
  then show ?thesis
    using spinlock_holding_value [OF assms(2)] by simp
qed

definition cpu_demo :: "u32 \<Rightarrow> cpu_state" where
  "cpu_demo c = \<lparr>ks_addr = 0x100000, ks_cpu_idx = c, ks_magic = KSTACK_MAGIC,
     pcpu = (\<lambda>i. \<lparr>inited = True, booted = True, kstack = 0x100000, vendor = INTEL, cpu_idx = i\<rparr>),
     pcpu_inited = True\<rparr>"

theorem spin_holding_correct_witness:
  "spinlock_holding (\<lambda>_. lk spin_demo) (cpu_demo 3) = Inr (True, cpu_demo 3) \<and>
   spinlock_holding (\<lambda>_. lk spin_demo) (cpu_demo 5) = Inr (False, cpu_demo 5)"
  using spin_holding_correct [OF spin_demo_reachable, of "cpu_demo 3"]
    spin_holding_correct [OF spin_demo_reachable, of "cpu_demo 5"]
  by (simp add: spin_demo_def cpu_demo_def)

end
