(* ===== verification/MBoot.thy ===== *)
theory MBoot
  imports SpinLock
begin

text \<open>
  The physical memory map (kern/dev/mboot.c): the E820 rows handed over by the boot loader
  are inserted into a list sorted by start address, neighbours of the same type are merged,
  and the allocator later asks for the rows by index. The singly linked list of
  kern/lib/queue.h is a HOL list (its macros insert after an element, remove the element after
  one, and walk forward); the 128 slots it draws from are counted by \<open>pmmap_slots_next_free\<close>.
\<close>

abbreviation (input) MEM_RAM :: u32 where "MEM_RAM \<equiv> 1"
abbreviation (input) MEM_RESERVED :: u32 where "MEM_RESERVED \<equiv> 2"
abbreviation (input) MEM_ACPI :: u32 where "MEM_ACPI \<equiv> 3"
abbreviation (input) MEM_NVS :: u32 where "MEM_NVS \<equiv> 4"

record mboot_mmap =
  base_addr_low :: u32
  base_addr_high :: u32
  length_low :: u32
  length_high :: u32
  mm_type :: u32

record pmmap =
  pm_start :: u32
  pm_end :: u32
  pm_type :: u32

record mboot_state = cpu_state +
  pmmap_slots_next_free :: nat
  pmmap_list :: "pmmap list"
  pmmap_sublist :: "nat \<Rightarrow> pmmap list"
  max_usable_memory :: u32
  mem_npages :: u32
  pmmap_nentries :: u32

section \<open>Operations\<close>

definition PMMAP_SUBLIST_NR :: "u32 \<Rightarrow> nat option" where
  "PMMAP_SUBLIST_NR ty =
     (if ty = MEM_RAM then Some 0 else if ty = MEM_RESERVED then Some 1
      else if ty = MEM_ACPI then Some 2 else if ty = MEM_NVS then Some 3 else None)"

definition pmmap_alloc_slot :: "('a mboot_state_scheme, bool) kprog" where
  "pmmap_alloc_slot =
     kbind (kgets pmmap_slots_next_free) (\<lambda>n.
     if n = 128 then kreturn False
     else kthen (kmodify (\<lambda>s. s\<lparr>pmmap_slots_next_free := n + 1\<rparr>)) (kreturn True))"

text \<open>The walk stops at the first row that starts after the new one; the new row goes in front of it.\<close>

fun insert_by_start :: "pmmap \<Rightarrow> pmmap list \<Rightarrow> pmmap list" where
  "insert_by_start p [] = [p]"
| "insert_by_start p (q # qs) =
     (if pm_start p < pm_start q then p # q # qs else q # insert_by_start p qs)"

definition pmmap_insert :: "u32 \<Rightarrow> u32 \<Rightarrow> u32 \<Rightarrow> ('a mboot_state_scheme, unit) kprog" where
  "pmmap_insert start e ty =
     kbind pmmap_alloc_slot (\<lambda>ok.
     kthen (kassert ok (Panic ''More than 128 E820 entries.''))
     (kmodify (\<lambda>s. s\<lparr>pmmap_list :=
        insert_by_start \<lparr>pm_start = start, pm_end = e, pm_type = ty\<rparr> (pmmap_list s)\<rparr>)))"

text \<open>
  Step 1 of \<^verbatim>\<open>pmmap_merge\<close>. After the row behind \<open>p\<close> has been absorbed the loop goes on with
  the row behind that one, so \<open>p\<close> absorbs at most one neighbour.
\<close>

definition mergeable :: "pmmap \<Rightarrow> pmmap \<Rightarrow> bool" where
  "mergeable p q \<longleftrightarrow> pm_start p \<le> pm_start q \<and> pm_start q \<le> pm_end p \<and> pm_type p = pm_type q"

fun merge_neighbours :: "pmmap list \<Rightarrow> pmmap list" where
  "merge_neighbours (p # q # qs) =
     (if mergeable p q
      then p\<lparr>pm_end := max_u32 (pm_end p) (pm_end q)\<rparr> # merge_neighbours qs
      else p # merge_neighbours (q # qs))"
| "merge_neighbours ps = ps"

definition pmmap_merge :: "('a mboot_state_scheme, unit) kprog" where
  "pmmap_merge =
     kthen (kmodify (\<lambda>s. s\<lparr>pmmap_list := merge_neighbours (pmmap_list s)\<rparr>))
     (kbind (kgets pmmap_list) (\<lambda>ps.
     kthen (kassert (\<forall>p \<in> set ps. PMMAP_SUBLIST_NR (pm_type p) \<noteq> None) (Panic ''sublist_nr != -1''))
     (kthen (kmodify (\<lambda>s. s\<lparr>pmmap_sublist :=
        (\<lambda>k. filter (\<lambda>p. PMMAP_SUBLIST_NR (pm_type p) = Some k) ps)\<rparr>))
     (kbind (kgets (\<lambda>s. pmmap_sublist s 0)) (\<lambda>usable.
     kwhen (usable \<noteq> []) (kmodify (\<lambda>s. s\<lparr>max_usable_memory := pm_end (last usable)\<rparr>)))))))"

text \<open>One row of the multiboot table: rows above 4 GB are skipped, ends are clipped to 4 GB - 1.\<close>

definition pmmap_row :: "mboot_mmap \<Rightarrow> ('a mboot_state_scheme, unit) kprog" where
  "pmmap_row p =
     (if base_addr_high p \<noteq> 0 then kreturn ()
      else
        let start = base_addr_low p;
            e = (if length_high p \<noteq> 0 \<or> length_low p \<ge> 0xffffffff - start
                 then 0xffffffff else start + length_low p)
        in pmmap_insert start e (mm_type p))"

fun pmmap_rows :: "mboot_mmap list \<Rightarrow> ('a mboot_state_scheme, unit) kprog" where
  "pmmap_rows [] = kreturn ()"
| "pmmap_rows (p # ps) = kthen (pmmap_row p) (pmmap_rows ps)"

text \<open>
  \<^verbatim>\<open>pmmap_init\<close>: the argument is the array of rows at \<^verbatim>\<open>mbi->mmap_addr\<close> that the loop visits
  (one every \<^verbatim>\<open>sizeof(mboot_mmap_t)\<close> bytes while the offset is below \<^verbatim>\<open>mbi->mmap_length\<close>).
\<close>

definition pmmap_init :: "mboot_mmap list \<Rightarrow> ('a mboot_state_scheme, unit) kprog" where
  "pmmap_init mmap =
     kthen (kmodify (\<lambda>s. s\<lparr>pmmap_list := [],
        pmmap_sublist := (\<lambda>k. if k < 4 then [] else pmmap_sublist s k)\<rparr>))
     (kthen (pmmap_rows mmap)
     (kthen pmmap_merge
     (kthen (kmodify (\<lambda>s. s\<lparr>pmmap_nentries :=
        pmmap_nentries s + of_nat (length (pmmap_list s))\<rparr>))
     (kmodify (\<lambda>s. s\<lparr>mem_npages := rounddown (max_usable_memory s) PAGESIZE div PAGESIZE\<rparr>)))))"

definition get_size :: "('a mboot_state_scheme, u32) kprog" where
  "get_size = kgets pmmap_nentries"

text \<open>The row with a given index, or none: the walk common to the three getters.\<close>

definition pmmap_nth :: "u32 \<Rightarrow> 'a mboot_state_scheme \<Rightarrow> pmmap option" where
  "pmmap_nth i s =
     (if unat i < length (pmmap_list s) \<and> i \<noteq> pmmap_nentries s then Some (pmmap_list s ! unat i) else None)"

definition get_mms :: "u32 \<Rightarrow> ('a mboot_state_scheme, u32) kprog" where
  "get_mms i = kgets (\<lambda>s. case pmmap_nth i s of None \<Rightarrow> 0 | Some p \<Rightarrow> pm_start p)"

definition get_mml :: "u32 \<Rightarrow> ('a mboot_state_scheme, u32) kprog" where
  "get_mml i = kgets (\<lambda>s. case pmmap_nth i s of None \<Rightarrow> 0 | Some p \<Rightarrow> pm_end p - pm_start p)"

definition is_usable :: "u32 \<Rightarrow> ('a mboot_state_scheme, u32) kprog" where
  "is_usable i =
     kgets (\<lambda>s. case pmmap_nth i s of None \<Rightarrow> 0 | Some p \<Rightarrow> if pm_type p = MEM_RAM then 1 else 0)"

section \<open>The table is sorted and covers the same addresses\<close>

definition starts_sorted :: "pmmap list \<Rightarrow> bool" where
  "starts_sorted ps \<longleftrightarrow> sorted (map pm_start ps)"

definition rows_proper :: "pmmap list \<Rightarrow> bool" where
  "rows_proper ps \<longleftrightarrow> (\<forall>p \<in> set ps. pm_start p \<le> pm_end p)"

text \<open>The addresses that rows of type \<open>ty\<close> cover.\<close>

definition covered :: "u32 \<Rightarrow> pmmap list \<Rightarrow> u32 set" where
  "covered ty ps = (\<Union>p \<in> {p \<in> set ps. pm_type p = ty}. {pm_start p ..< pm_end p})"

lemma set_insert_by_start [simp]: "set (insert_by_start p ps) = insert p (set ps)"
  by (induction ps) auto


lemma insert_by_start_sorted: "starts_sorted ps \<Longrightarrow> starts_sorted (insert_by_start p ps)"
  by (induction ps) (auto simp: starts_sorted_def)

lemma covered_Cons: "covered ty (p # ps) =
    (if pm_type p = ty then {pm_start p ..< pm_end p} else {}) \<union> covered ty ps"
  by (auto simp: covered_def)

lemma join_intervals:
  "(a :: u32) \<le> c \<Longrightarrow> c \<le> b \<Longrightarrow> {a ..< max_u32 b d} = {a ..< b} \<union> {c ..< d}"
  by (auto simp: max_u32_def)

lemma covered_absorb:
  "mergeable p q \<Longrightarrow>
     covered ty (p\<lparr>pm_end := max_u32 (pm_end p) (pm_end q)\<rparr> # ps) = covered ty (p # q # ps)"
  by (auto simp: mergeable_def covered_Cons join_intervals)

lemma merge_neighbours_covered: "covered ty (merge_neighbours ps) = covered ty ps"
proof (induction ps rule: merge_neighbours.induct)
  case (1 p q qs)
  show ?case
  proof (cases "mergeable p q")
    case True
    then show ?thesis
      using "1.IH"(1) covered_absorb [OF True, of ty qs]
      by (simp add: covered_Cons del: merge_neighbours.simps(2,3))
  next
    case False
    then have "covered ty (merge_neighbours (q # qs)) = covered ty (q # qs)"
      by (rule "1.IH"(2))
    with False show ?thesis
      by (simp add: covered_Cons [of ty p])
  qed
qed simp_all

lemma merge_neighbours_lower:
  "\<forall>p \<in> set ps. a \<le> pm_start p \<Longrightarrow> \<forall>p \<in> set (merge_neighbours ps). a \<le> pm_start p"
  by (induction ps rule: merge_neighbours.induct) simp_all

lemma merge_neighbours_sorted: "starts_sorted ps \<Longrightarrow> starts_sorted (merge_neighbours ps)"
proof (induction ps rule: merge_neighbours.induct)
  case (1 p q qs)
  then have le: "\<forall>r \<in> set (q # qs). pm_start p \<le> pm_start r"
    by (simp add: starts_sorted_def)
  then have "\<forall>r \<in> set (merge_neighbours qs). pm_start p \<le> pm_start r"
    by (intro merge_neighbours_lower) simp
  moreover have "\<forall>r \<in> set (merge_neighbours (q # qs)). pm_start p \<le> pm_start r"
    using le by (rule merge_neighbours_lower)
  ultimately show ?case using "1" by (simp add: starts_sorted_def)
qed (simp_all add: starts_sorted_def)

lemma merge_neighbours_proper: "rows_proper ps \<Longrightarrow> rows_proper (merge_neighbours ps)"
  by (induction ps rule: merge_neighbours.induct) (auto simp: rows_proper_def max_u32_def mergeable_def)

lemma merge_neighbours_types: "p \<in> set (merge_neighbours ps) \<Longrightarrow> pm_type p \<in> pm_type ` set ps"
  by (induction ps rule: merge_neighbours.induct) (auto split: if_splits)

lemma length_merge_neighbours: "length (merge_neighbours ps) \<le> length ps"
  by (induction ps rule: merge_neighbours.induct) auto

section \<open>What pmmap_init leaves behind\<close>

text \<open>The addresses below 4 GB - 1 that a row of the boot loader describes, in 64-bit arithmetic.\<close>

definition row_addrs :: "mboot_mmap \<Rightarrow> u32 set" where
  "row_addrs p =
     (let base = unat (base_addr_high p) * 2 ^ 32 + unat (base_addr_low p);
          len = unat (length_high p) * 2 ^ 32 + unat (length_low p)
      in {a. base \<le> unat a \<and> unat a < base + len \<and> a < 0xffffffff})"

definition represents :: "pmmap list \<Rightarrow> mboot_mmap set \<Rightarrow> bool" where
  "represents ps R \<longleftrightarrow> starts_sorted ps \<and> rows_proper ps \<and>
     (\<forall>ty. covered ty ps = (\<Union>r \<in> {r \<in> R. mm_type r = ty}. row_addrs r)) \<and>
     pm_type ` set ps \<subseteq> mm_type ` R"

lemma covered_insert_by_start: "covered ty (insert_by_start p ps) = covered ty (p # ps)"
  by (auto simp: covered_def)

lemma row_addrs_high:
  assumes "base_addr_high p \<noteq> 0"
  shows "row_addrs p = {}"
proof -
  have "unat (base_addr_high p) \<noteq> 0" using assms by (simp add: unat_eq_0)
  then have "4294967296 \<le> unat (base_addr_high p) * 4294967296" by simp
  then have "\<not> unat (base_addr_high p) * 4294967296 + b \<le> unat a" for a :: u32 and b
    using unat_u32_less [of a] by linarith
  then show ?thesis by (simp add: row_addrs_def)
qed

definition row_end :: "mboot_mmap \<Rightarrow> u32" where
  "row_end p = (if length_high p \<noteq> 0 \<or> length_low p \<ge> 0xffffffff - base_addr_low p
     then 0xffffffff else base_addr_low p + length_low p)"

lemma row_end_sum:
  assumes "length_low p < 0xffffffff - base_addr_low p"
  shows "unat (base_addr_low p + length_low p) = unat (base_addr_low p) + unat (length_low p)"
    and "unat (base_addr_low p) + unat (length_low p) < 0xffffffff"
proof -
  have "unat (0xffffffff - base_addr_low p) = 0xffffffff - unat (base_addr_low p)"
    using u32_le_max by (simp add: unat_sub)
  with assms show "unat (base_addr_low p) + unat (length_low p) < 0xffffffff"
    by (simp add: word_less_nat_alt)
  then show "unat (base_addr_low p + length_low p) = unat (base_addr_low p) + unat (length_low p)"
    by (simp add: unat_word_ariths)
qed

lemma row_addrs_low:
  assumes "base_addr_high p = 0"
  shows "{base_addr_low p ..< row_end p} = row_addrs p"
proof (cases "length_high p \<noteq> 0 \<or> length_low p \<ge> 0xffffffff - base_addr_low p")
  case True
  have "unat a < unat (base_addr_low p) + (unat (length_high p) * 4294967296 + unat (length_low p))"
    if "unat a < 4294967295" for a :: u32
  proof (cases "length_high p = 0")
    case False
    then have "unat (length_high p) \<noteq> 0" by (simp add: unat_eq_0)
    then have "4294967296 \<le> unat (length_high p) * 4294967296" by simp
    with that show ?thesis by linarith
  next
    case len: True
    with True have "unat (0xffffffff - base_addr_low p) \<le> unat (length_low p)"
      by (simp add: word_le_nat_alt)
    then have "4294967295 - unat (base_addr_low p) \<le> unat (length_low p)"
      using u32_le_max by (simp add: unat_sub)
    with that len show ?thesis by simp
  qed
  with True assms show ?thesis
    by (auto simp: row_addrs_def row_end_def Let_def word_le_nat_alt word_less_nat_alt)
next
  case False
  then show ?thesis
    using assms row_end_sum [of p]
    by (auto simp: row_addrs_def row_end_def Let_def word_le_nat_alt word_less_nat_alt not_le)
qed

lemma row_end_ge: "base_addr_low p \<le> row_end p"
proof (cases "length_high p \<noteq> 0 \<or> length_low p \<ge> 0xffffffff - base_addr_low p")
  case False
  then show ?thesis
    using row_end_sum(1) [of p] by (simp add: row_end_def not_le word_le_nat_alt [of "base_addr_low p" "base_addr_low p + length_low p"])
qed (simp add: row_end_def)

lemma represents_insert:
  assumes "represents ps R" and "base_addr_high p = 0"
  shows "represents (insert_by_start \<lparr>pm_start = base_addr_low p, pm_end = row_end p, pm_type = mm_type p\<rparr> ps)
           (insert p R)"
  using assms row_addrs_low [OF assms(2)] row_end_ge [of p]
  by (auto simp: represents_def insert_by_start_sorted covered_insert_by_start covered_Cons rows_proper_def)

lemma represents_skip:
  "represents ps R \<Longrightarrow> base_addr_high p \<noteq> 0 \<Longrightarrow> represents ps (insert p R)"
  by (auto simp: represents_def row_addrs_high)

lemma represents_merge: "represents ps R \<Longrightarrow> represents (merge_neighbours ps) R"
  using merge_neighbours_types [of _ ps]
  by (fastforce simp: represents_def merge_neighbours_covered merge_neighbours_sorted merge_neighbours_proper)

text \<open>The rows loop only touches the slot counter and the list.\<close>

definition mboot_frame :: "'a mboot_state_scheme \<Rightarrow> 'a mboot_state_scheme \<Rightarrow> bool" where
  "mboot_frame s t \<longleftrightarrow> t = s\<lparr>pmmap_slots_next_free := pmmap_slots_next_free t, pmmap_list := pmmap_list t\<rparr>"

text \<open>The fields of this component; nothing else changes in \<^verbatim>\<open>pmmap_init\<close>.\<close>

definition mboot_only :: "'a mboot_state_scheme \<Rightarrow> 'a mboot_state_scheme \<Rightarrow> bool" where
  "mboot_only s t \<longleftrightarrow> t = s\<lparr>pmmap_slots_next_free := pmmap_slots_next_free t, pmmap_list := pmmap_list t,
     pmmap_sublist := pmmap_sublist t, max_usable_memory := max_usable_memory t,
     mem_npages := mem_npages t, pmmap_nentries := pmmap_nentries t\<rparr>"

lemma mboot_only_upd:
  "mboot_only s (s\<lparr>pmmap_slots_next_free := a, pmmap_list := b, pmmap_sublist := c,
     max_usable_memory := d, mem_npages := e, pmmap_nentries := f\<rparr>)"
  by (simp add: mboot_only_def)

lemma mboot_only_trans: "mboot_only s t \<Longrightarrow> mboot_only t u \<Longrightarrow> mboot_only s u"
  unfolding mboot_only_def by (erule ssubst, erule ssubst) simp

lemma mboot_frame_only: "mboot_frame s t \<Longrightarrow> mboot_only s t"
  unfolding mboot_frame_def mboot_only_def by (erule ssubst) simp

lemma mboot_frame_refl [simp]: "mboot_frame s s"
  by (simp add: mboot_frame_def)

lemma mboot_frame_upd [simp]: "mboot_frame s (s\<lparr>pmmap_slots_next_free := k, pmmap_list := ps\<rparr>)"
  by (simp add: mboot_frame_def)

lemma mboot_frame_trans: "mboot_frame s t \<Longrightarrow> mboot_frame t u \<Longrightarrow> mboot_frame s u"
  unfolding mboot_frame_def by (erule ssubst, erule ssubst) simp

lemma length_insert_by_start [simp]: "length (insert_by_start p ps) = Suc (length ps)"
  by (induction ps) auto

lemma pmmap_row_wp:
  assumes "pmmap_slots_next_free s < 128" and "represents (pmmap_list s) R"
  shows "kwp (pmmap_row p) (\<lambda>_ t. mboot_frame s t \<and>
           pmmap_slots_next_free t \<le> Suc (pmmap_slots_next_free s) \<and>
           length (pmmap_list t) \<le> Suc (length (pmmap_list s)) \<and>
           represents (pmmap_list t) (insert p R)) s"
  using assms represents_insert [OF assms(2), of p] represents_skip [OF assms(2), of p]
  by (auto simp: pmmap_row_def pmmap_insert_def pmmap_alloc_slot_def wp Let_def row_end_def)

lemma pmmap_rows_wp:
  assumes "pmmap_slots_next_free s + length rows \<le> 128" and "represents (pmmap_list s) R"
  shows "kwp (pmmap_rows rows) (\<lambda>_ t. mboot_frame s t \<and>
           length (pmmap_list t) \<le> length (pmmap_list s) + length rows \<and>
           represents (pmmap_list t) (R \<union> set rows)) s"
  using assms
proof (induction rows arbitrary: s R)
  case Nil
  then show ?case by (simp add: wp)
next
  case (Cons p rows)
  then have "pmmap_slots_next_free s < 128" by simp
  note row = pmmap_row_wp [OF this Cons.prems(2), of p]
  show ?case
    using Cons.prems
    by (auto simp: wp intro!: kwp_mono [OF row] kwp_mono [OF Cons.IH] intro: mboot_frame_trans)
qed

lemma pmmap_merge_wp:
  assumes "represents (pmmap_list s) R" and "mm_type ` R \<subseteq> {MEM_RAM, MEM_RESERVED, MEM_ACPI, MEM_NVS}"
  shows "kwp pmmap_merge (\<lambda>_ t. mboot_only s t \<and> pmmap_list t = merge_neighbours (pmmap_list s) \<and>
      pmmap_nentries t = pmmap_nentries s \<and>
      max_usable_memory t = (let u = filter (\<lambda>p. pm_type p = MEM_RAM) (pmmap_list t)
        in if u = [] then max_usable_memory s else pm_end (last u))) s"
proof -
  have "PMMAP_SUBLIST_NR (pm_type p) \<noteq> None" if "p \<in> set (merge_neighbours (pmmap_list s))" for p
  proof -
    have "pm_type p \<in> mm_type ` R"
      using represents_merge [OF assms(1)] that unfolding represents_def by blast
    with assms(2) have "pm_type p \<in> {MEM_RAM, MEM_RESERVED, MEM_ACPI, MEM_NVS}" by blast
    then show ?thesis by (auto simp: PMMAP_SUBLIST_NR_def)
  qed
  moreover have "PMMAP_SUBLIST_NR ty = Some 0 \<longleftrightarrow> ty = MEM_RAM" for ty
    by (simp add: PMMAP_SUBLIST_NR_def)
  ultimately show ?thesis
    by (auto simp: pmmap_merge_def wp Let_def mboot_only_def)
qed

lemma pmmap_init_wp:
  assumes "pmmap_slots_next_free s = 0" and "length rows \<le> 128"
    and "mm_type ` set rows \<subseteq> {MEM_RAM, MEM_RESERVED, MEM_ACPI, MEM_NVS}"
  shows "kwp (pmmap_init rows) (\<lambda>_ t. mboot_only s t \<and> represents (pmmap_list t) (set rows) \<and> length (pmmap_list t) \<le> 128 \<and>
           pmmap_nentries t = pmmap_nentries s + of_nat (length (pmmap_list t))) s"
proof -
  let ?s = "s\<lparr>pmmap_list := [], pmmap_sublist := (\<lambda>k. if k < 4 then [] else pmmap_sublist s k)\<rparr>"
  have "represents (pmmap_list ?s) {}"
    by (simp add: represents_def starts_sorted_def rows_proper_def covered_def)
  then have rows: "kwp (pmmap_rows rows) (\<lambda>_ t. mboot_frame ?s t \<and> length (pmmap_list t) \<le> length rows \<and>
      represents (pmmap_list t) (set rows)) ?s"
    using pmmap_rows_wp [of ?s rows "{}"] assms(1,2) by simp
  have "pmmap_nentries t = pmmap_nentries s" if "mboot_frame ?s t" for t
    using that unfolding mboot_frame_def by (rule ssubst) simp
  moreover have "mboot_only s (u\<lparr>pmmap_nentries := a, mem_npages := b\<rparr>)"
    if "mboot_frame ?s t" "mboot_only t u" for t u a b
  proof -
    have "mboot_only s ?s" by (simp add: mboot_only_def)
    then have "mboot_only s u"
      using mboot_frame_only [OF that(1)] that(2) by (blast intro: mboot_only_trans)
    moreover have "mboot_only u (u\<lparr>pmmap_nentries := a, mem_npages := b\<rparr>)"
      by (simp add: mboot_only_def)
    ultimately show ?thesis by (rule mboot_only_trans)
  qed
  ultimately show ?thesis
    using assms(2,3)
    by (auto simp: pmmap_init_def wp intro!: kwp_mono [OF rows] kwp_mono [OF pmmap_merge_wp] represents_merge
        order_trans [OF length_merge_neighbours])
qed

text \<open>
  C14: pmmap_init builds a faithful memory map from any boot-loader table of at most 128 rows of
  known types: it returns (no panic), the rows are sorted by start address and no row ends
  before it starts, and for every type the addresses covered are exactly those below 4 GB - 1
  that the rows of the table describe in 64-bit arithmetic.
\<close>

theorem pmmap_init_represents:
  assumes "pmmap_slots_next_free s = 0" and "length rows \<le> 128"
    and "mm_type ` set rows \<subseteq> {MEM_RAM, MEM_RESERVED, MEM_ACPI, MEM_NVS}"
  shows "kwp (pmmap_init rows) (\<lambda>_ t. represents (pmmap_list t) (set rows) \<and>
           pmmap_nentries t = pmmap_nentries s + of_nat (length (pmmap_list t))) s"
  by (rule kwp_mono [OF pmmap_init_wp [OF assms]]) simp

text \<open>A small PC: 640 KB of RAM, the BIOS hole, 127 MB of RAM in two adjacent rows, one row above 4 GB.\<close>

definition mmap_demo :: "mboot_mmap list" where
  "mmap_demo =
     [\<lparr>base_addr_low = 0x100000, base_addr_high = 0, length_low = 0x3f00000, length_high = 0, mm_type = MEM_RAM\<rparr>,
      \<lparr>base_addr_low = 0, base_addr_high = 0, length_low = 0x9fc00, length_high = 0, mm_type = MEM_RAM\<rparr>,
      \<lparr>base_addr_low = 0xf0000, base_addr_high = 0, length_low = 0x10000, length_high = 0, mm_type = MEM_RESERVED\<rparr>,
      \<lparr>base_addr_low = 0x4000000, base_addr_high = 0, length_low = 0x4000000, length_high = 0, mm_type = MEM_RAM\<rparr>,
      \<lparr>base_addr_low = 0, base_addr_high = 1, length_low = 0, length_high = 1, mm_type = MEM_RAM\<rparr>]"

definition mboot_demo :: mboot_state where
  "mboot_demo = cpu_state.extend (cpu_demo 0)
     \<lparr>pmmap_slots_next_free = 0, pmmap_list = [], pmmap_sublist = (\<lambda>_. []),
      max_usable_memory = 0, mem_npages = 0, pmmap_nentries = 0\<rparr>"

theorem pmmap_init_represents_witness:
  "kwp (pmmap_init mmap_demo) (\<lambda>_ t. represents (pmmap_list t) (set mmap_demo) \<and>
      pmmap_nentries t = pmmap_nentries mboot_demo + of_nat (length (pmmap_list t))) mboot_demo \<and>
   kwp (pmmap_init mmap_demo) (\<lambda>_ t. map pm_start (pmmap_list t) = [0, 0xf0000, 0x100000] \<and>
      mem_npages t = 0x8000) mboot_demo"
proof
  show "kwp (pmmap_init mmap_demo) (\<lambda>_ t. represents (pmmap_list t) (set mmap_demo) \<and>
      pmmap_nentries t = pmmap_nentries mboot_demo + of_nat (length (pmmap_list t))) mboot_demo"
    by (rule pmmap_init_represents) (simp_all add: mboot_demo_def mmap_demo_def cpu_demo_def cpu_state.defs)
  show "kwp (pmmap_init mmap_demo) (\<lambda>_ t. map pm_start (pmmap_list t) = [0, 0xf0000, 0x100000] \<and>
      mem_npages t = 0x8000) mboot_demo"
    by (simp add: pmmap_init_def pmmap_row_def pmmap_insert_def pmmap_alloc_slot_def pmmap_merge_def
        mergeable_def max_u32_def rounddown_def PMMAP_SUBLIST_NR_def Let_def wp
        mboot_demo_def mmap_demo_def cpu_demo_def cpu_state.defs)
qed

end
