(* ===== verification/MAT.thy ===== *)
theory MAT
  imports MBoot
begin

text \<open>
  Physical memory (kern/pmm): the allocation table AT with its accessors (MATIntro), its
  initialisation from the memory map (MATInit), and the page allocator (MATOp).
  \<^verbatim>\<open>pmem_init\<close> takes the device initialisation it calls first as an argument.
\<close>

abbreviation (input) VM_USERLO :: u32 where "VM_USERLO \<equiv> 0x40000000"
abbreviation (input) VM_USERHI :: u32 where "VM_USERHI \<equiv> 0xF0000000"
abbreviation (input) VM_USERLO_PI :: u32 where "VM_USERLO_PI \<equiv> 0x40000"
abbreviation (input) VM_USERHI_PI :: u32 where "VM_USERHI_PI \<equiv> 0xF0000"
abbreviation (input) AT_SIZE :: u32 where "AT_SIZE \<equiv> 0x100000"

record ATStruct =
  perm :: u32
  allocated :: u32

record mat = mboot_state +
  mem_lk :: spinlock_t
  NUM_PAGES :: u32
  AT :: "u32 \<Rightarrow> ATStruct"
  last_palloc_index :: u32

section \<open>Operations\<close>

definition mem_spinlock_init :: "('a mat_scheme, unit) kprog" where
  "mem_spinlock_init = kmodify (\<lambda>s. s\<lparr>mem_lk := spinlock_init\<rparr>)"

definition mem_lock :: "('a mat_scheme, unit) kprog" where
  "mem_lock = spinlock_acquire mem_lk mem_lk_update"

definition mem_unlock :: "('a mat_scheme, unit) kprog" where
  "mem_unlock = spinlock_release mem_lk mem_lk_update"

definition get_nps :: "('a mat_scheme, u32) kprog" where
  "get_nps = kgets NUM_PAGES"

definition set_nps :: "u32 \<Rightarrow> ('a mat_scheme, unit) kprog" where
  "set_nps nps = kmodify (\<lambda>s. s\<lparr>NUM_PAGES := nps\<rparr>)"

definition at_get :: "u32 \<Rightarrow> ('a mat_scheme, ATStruct) kprog" where
  "at_get i = kthen (kassert (i < AT_SIZE) (Fault ''AT'')) (kgets (\<lambda>s. AT s i))"

definition at_upd :: "u32 \<Rightarrow> (ATStruct \<Rightarrow> ATStruct) \<Rightarrow> ('a mat_scheme, unit) kprog" where
  "at_upd i f =
     kthen (kassert (i < AT_SIZE) (Fault ''AT'')) (kmodify (\<lambda>s. s\<lparr>AT := (AT s)(i := f (AT s i))\<rparr>))"

definition at_is_norm :: "u32 \<Rightarrow> ('a mat_scheme, u32) kprog" where
  "at_is_norm page_index =
     kbind (at_get page_index) (\<lambda>a.
     kreturn (if perm a = 0 then 0 else if perm a = 1 then 0 else 1))"

definition at_set_perm :: "u32 \<Rightarrow> u32 \<Rightarrow> ('a mat_scheme, unit) kprog" where
  "at_set_perm page_index norm_val =
     kthen (at_upd page_index (\<lambda>a. a\<lparr>perm := norm_val\<rparr>))
           (at_upd page_index (\<lambda>a. a\<lparr>allocated := 0\<rparr>))"

definition at_is_allocated :: "u32 \<Rightarrow> ('a mat_scheme, u32) kprog" where
  "at_is_allocated page_index =
     kbind (at_get page_index) (\<lambda>a. kreturn (if allocated a = 0 then 0 else 1))"

definition at_set_allocated :: "u32 \<Rightarrow> u32 \<Rightarrow> ('a mat_scheme, unit) kprog" where
  "at_set_allocated page_index v = at_upd page_index (\<lambda>a. a\<lparr>allocated := v\<rparr>)"

text \<open>The two loops of \<^verbatim>\<open>pmem_init\<close>: the number of pages, then the permission of each page.\<close>

definition count_pages :: "u32 \<Rightarrow> ('a mat_scheme, u32) kprog" where
  "count_pages sz =
     kfold 0 sz (\<lambda>i nps.
       kbind (get_mms i) (\<lambda>s.
       kbind (get_mml i) (\<lambda>l.
       let maxs = (s + l) div PAGESIZE + 1 in
       kreturn (if maxs > nps then maxs else nps)))) 0"

definition page_row :: "u32 \<Rightarrow> u32 \<Rightarrow> ('a mat_scheme, u32 option) kprog" where
  "page_row sz i =
     kfor_ret 0 sz (\<lambda>j.
       kbind (get_mms j) (\<lambda>s.
       kbind (get_mml j) (\<lambda>l.
       kbind (is_usable j) (\<lambda>isnorm.
       kreturn (if s \<le> i * PAGESIZE \<and> l + s \<ge> (i + 1) * PAGESIZE then Some isnorm else None)))))"

definition init_page :: "u32 \<Rightarrow> u32 \<Rightarrow> ('a mat_scheme, unit) kprog" where
  "init_page sz i =
     (if i < VM_USERLO_PI \<or> i \<ge> VM_USERHI_PI then at_set_perm i 1
      else kbind (page_row sz i) (\<lambda>r.
        if r = Some 1 then at_set_perm i 2 else at_set_perm i 0))"

definition pmem_init :: "('a mat_scheme, unit) kprog \<Rightarrow> ('a mat_scheme, unit) kprog" where
  "pmem_init devinit =
     kthen devinit
     (kthen mem_spinlock_init
     (kbind get_size (\<lambda>sz.
     kbind (count_pages sz) (\<lambda>nps.
     kthen (set_nps nps)
           (kfor 0 nps (init_page sz))))))"

text \<open>
  \<^verbatim>\<open>palloc\<close>: the scan leaves its loop as soon as \<^verbatim>\<open>palloc_free_index\<close> differs from \<^verbatim>\<open>tnps\<close>,
  that is with the first page that is normal and not allocated.
\<close>

definition palloc_scan :: "u32 \<Rightarrow> u32 \<Rightarrow> ('a mat_scheme, u32 option) kprog" where
  "palloc_scan palloc_index tnps =
     kfor_ret palloc_index tnps (\<lambda>i.
       kbind (at_is_norm i) (\<lambda>palloc_is_norm.
       if palloc_is_norm = 1
       then kbind (at_is_allocated i) (\<lambda>palloc_cur_at.
              kreturn (if palloc_cur_at = 0 then Some i else None))
       else kreturn None))"

definition palloc :: "('a mat_scheme, u32) kprog" where
  "palloc =
     kthen mem_lock
     (kbind get_nps (\<lambda>tnps.
     kbind (kgets last_palloc_index) (\<lambda>last_index.
     kbind (palloc_scan (last_index + 1) tnps) (\<lambda>r.
     let found = (case r of None \<Rightarrow> tnps | Some i \<Rightarrow> i);
         free_index = (if found = tnps then 0 else found)
     in
       kthen (kwhen (found \<noteq> tnps) (at_set_allocated free_index 1))
       (kthen (kassert (tnps \<noteq> 0) (Fault ''division by zero''))
       (kthen (kmodify (\<lambda>s. s\<lparr>last_palloc_index := free_index mod tnps\<rparr>))
       (kthen mem_unlock (kreturn free_index))))))))"

definition pfree :: "u32 \<Rightarrow> ('a mat_scheme, unit) kprog" where
  "pfree pfree_index = kthen mem_lock (kthen (at_set_allocated pfree_index 0) mem_unlock)"

section \<open>The allocator\<close>

interpretation mem_lk: lock_field mem_lk mem_lk_update
  by unfold_locales simp_all

lemma mem_lk_same [simp]: "mem_lk t = l \<Longrightarrow> t\<lparr>mem_lk := l\<rparr> = t"
  by auto

lemma kwp_mem_lock [wp]:
  "kwp mem_lock Q s = (lock (mem_lk s) = 0 \<and> ks_magic s = KSTACK_MAGIC \<and>
     Q () (s\<lparr>mem_lk := lock_by (ks_cpu_idx s)\<rparr>))"
  unfolding mem_lock_def by (rule mem_lk.acquire_wp)

lemma kwp_mem_unlock [wp]: "kwp mem_unlock Q s = Q () (s\<lparr>mem_lk := spinlock_init\<rparr>)"
  unfolding mem_unlock_def by (rule mem_lk.release_wp)

lemma kwp_at_get [wp]: "kwp (at_get i) Q s = (i < AT_SIZE \<and> Q (AT s i) s)"
  by (simp add: at_get_def wp)

lemma kwp_at_upd [wp]:
  "kwp (at_upd i f) Q s = (i < AT_SIZE \<and> Q () (s\<lparr>AT := (AT s)(i := f (AT s i))\<rparr>))"
  by (simp add: at_upd_def wp)

lemmas at_wp = at_is_norm_def at_is_allocated_def at_set_perm_def at_set_allocated_def
  get_nps_def set_nps_def mem_spinlock_init_def wp

text \<open>A page the allocator may hand out.\<close>

definition free_page :: "'a mat_scheme \<Rightarrow> u32 \<Rightarrow> bool" where
  "free_page s i \<longleftrightarrow> i < NUM_PAGES s \<and> 1 < perm (AT s i) \<and> allocated (AT s i) = 0"

definition mat_ok :: "'a mat_scheme \<Rightarrow> bool" where
  "mat_ok s \<longleftrightarrow> ks_magic s = KSTACK_MAGIC \<and> lock_free (mem_lk s) \<and>
     0 < NUM_PAGES s \<and> NUM_PAGES s \<le> AT_SIZE \<and> last_palloc_index s \<le> AT_SIZE \<and>
     perm (AT s 0) = 1"

definition palloc_result :: "'a mat_scheme \<Rightarrow> u32 \<Rightarrow> 'a mat_scheme" where
  "palloc_result s r =
     (if r = 0 then s\<lparr>last_palloc_index := 0\<rparr>
      else s\<lparr>AT := (AT s)(r := (AT s r)\<lparr>allocated := 1\<rparr>), last_palloc_index := r\<rparr>)"

text \<open>The page the scan from \<open>last_palloc_index + 1\<close> stops at.\<close>

definition next_free :: "'a mat_scheme \<Rightarrow> u32 \<Rightarrow> bool" where
  "next_free s r \<longleftrightarrow>
     (if r = 0 then \<forall>i > last_palloc_index s. \<not> free_page s i
      else last_palloc_index s < r \<and> free_page s r \<and>
           (\<forall>i. last_palloc_index s < i \<longrightarrow> i < r \<longrightarrow> \<not> free_page s i))"

lemma free_page_mem_lk [simp]: "free_page (s\<lparr>mem_lk := l\<rparr>) i = free_page s i"
  by (simp add: free_page_def)

lemma norm_perm: "perm a \<noteq> 0 \<Longrightarrow> perm a \<noteq> 1 \<Longrightarrow> 1 < perm (a :: ATStruct)"
  by (metis word_gt_0 inc_le le_neq_trans add_0)

lemma palloc_step_wp:
  assumes "j < NUM_PAGES s" and "NUM_PAGES s \<le> AT_SIZE"
  shows "kwp (kbind (at_is_norm j) (\<lambda>palloc_is_norm.
       if palloc_is_norm = 1
       then kbind (at_is_allocated j) (\<lambda>palloc_cur_at. kreturn (if palloc_cur_at = 0 then Some j else None))
       else kreturn None)) Q s = Q (if free_page s j then Some j else None) s"
proof -
  have "j < AT_SIZE" using assms by simp
  then show ?thesis
    using assms norm_perm [of "AT s j"] by (auto simp: at_wp free_page_def)
qed

lemma palloc_scan_wp:
  assumes n: "n = NUM_PAGES s" and "n \<le> AT_SIZE"
  shows "kwp (palloc_scan i n) (\<lambda>r t. t = s \<and>
    (case r of None \<Rightarrow> \<forall>j \<ge> i. \<not> free_page s j
     | Some k \<Rightarrow> i \<le> k \<and> free_page s k \<and> (\<forall>j. i \<le> j \<longrightarrow> j < k \<longrightarrow> \<not> free_page s j))) s"
proof (cases "i < n")
  case True
  show ?thesis unfolding palloc_scan_def
    by (rule kwp_kfor_ret [where I = "\<lambda>j t. t = s \<and> (\<forall>k. i \<le> k \<longrightarrow> k < j \<longrightarrow> \<not> free_page s k)"])
       (use assms True in \<open>auto simp: palloc_step_wp less_inc_cases free_page_def not_less\<close>)
next
  case False
  then show ?thesis
    using n by (auto simp: palloc_scan_def kwp_def krun free_page_def)
qed

lemma free_page_pos: "mat_ok s \<Longrightarrow> free_page s i \<Longrightarrow> 0 < i"
  by (metis free_page_def mat_ok_def word_gt_0 less_irrefl)

lemma last_inc: "mat_ok s \<Longrightarrow> last_palloc_index s + 1 \<le> j \<longleftrightarrow> last_palloc_index s < j"
proof -
  assume "mat_ok s"
  then have "last_palloc_index s < AT_SIZE + 1"
    unfolding mat_ok_def by (auto simp: word_less_nat_alt word_le_nat_alt)
  note unat_inc [OF this]
  then show ?thesis
    by (simp add: word_le_nat_alt word_less_nat_alt Suc_le_eq)
qed

lemma palloc_wp:
  assumes ok: "mat_ok s"
    and post: "\<And>r. next_free s r \<Longrightarrow> Q r (palloc_result s r)"
  shows "kwp palloc Q s"
proof -
  let ?s = "s\<lparr>mem_lk := lock_by (ks_cpu_idx s)\<rparr>"
  let ?i = "last_palloc_index s + 1"
  have scan: "kwp (palloc_scan ?i (NUM_PAGES s)) (\<lambda>r t. t = ?s \<and>
    (case r of None \<Rightarrow> \<forall>j \<ge> ?i. \<not> free_page s j
     | Some k \<Rightarrow> ?i \<le> k \<and> free_page s k \<and> (\<forall>j. ?i \<le> j \<longrightarrow> j < k \<longrightarrow> \<not> free_page s j))) ?s"
    using ok palloc_scan_wp [of "NUM_PAGES s" ?s ?i] by (simp add: mat_ok_def cong: option.case_cong)
  then obtain r where run: "palloc_scan ?i (NUM_PAGES s) ?s = Inr (r, ?s)"
    and r: "case r of None \<Rightarrow> \<forall>j \<ge> ?i. \<not> free_page s j
     | Some k \<Rightarrow> ?i \<le> k \<and> free_page s k \<and> (\<forall>j. ?i \<le> j \<longrightarrow> j < k \<longrightarrow> \<not> free_page s j)"
    by (auto elim: kwpE)
  note unf = palloc_def at_wp kwp_Inr [of "palloc_scan ?i (NUM_PAGES s)", OF run] Let_def palloc_result_def
  show ?thesis
  proof (cases r)
    case None
    with r have "next_free s 0" by (simp add: next_free_def last_inc [OF ok])
    with post have "Q 0 (palloc_result s 0)" by blast
    with ok None show ?thesis by (auto simp: mat_ok_def unf)
  next
    case (Some k)
    with r free_page_pos [OF ok, of k] have k: "0 < k" "next_free s k" "k < NUM_PAGES s"
      by (auto simp: next_free_def last_inc [OF ok] free_page_def)
    from k(2) post have "Q k (palloc_result s k)" by blast
    moreover have "k \<noteq> 0" using k(1) by auto
    ultimately show ?thesis using ok Some k(3) by (auto simp: mat_ok_def unf u32_mod_less)
  qed
qed

lemma pfree_wp:
  assumes "mat_ok s" and "i < AT_SIZE" and "Q () (s\<lparr>AT := (AT s)(i := (AT s i)\<lparr>allocated := 0\<rparr>)\<rparr>)"
  shows "kwp (pfree i) Q s"
  using assms by (simp add: pfree_def at_wp mat_ok_def)

lemma palloc_result_ok: "mat_ok s \<Longrightarrow> next_free s r \<Longrightarrow> mat_ok (palloc_result s r)"
  by (auto simp: mat_ok_def palloc_result_def next_free_def free_page_def split: if_splits)

lemma free_page_palloc_result:
  "next_free s r \<Longrightarrow> free_page (palloc_result s r) i \<longleftrightarrow> free_page s i \<and> (r = 0 \<or> i \<noteq> r)"
  by (auto simp: palloc_result_def free_page_def)

definition owned_pages :: "'a mat_scheme \<Rightarrow> u32 set" where
  "owned_pages s = {i. i < NUM_PAGES s \<and> 1 < perm (AT s i) \<and> allocated (AT s i) \<noteq> 0}"

lemma owned_palloc_result:
  "next_free s r \<Longrightarrow> owned_pages (palloc_result s r) = (if r = 0 then owned_pages s else insert r (owned_pages s))"
  by (auto simp: palloc_result_def owned_pages_def next_free_def free_page_def split: if_splits)

subsection \<open>The allocator as an interface\<close>

text \<open>
  What the clients of the allocator rely on: \<open>alloc\<close> returns 0 and leaves the free pages as
  they were, or takes one page out of them; \<open>free\<close> of a page that is not free puts it back.
\<close>

locale page_allocator =
  fixes ok :: "'s \<Rightarrow> bool"
    and avail :: "'s \<Rightarrow> u32 set"
    and alloc :: "('s, u32) kprog"
    and free :: "u32 \<Rightarrow> ('s, unit) kprog"
    and owned :: "'s \<Rightarrow> u32 set"
  assumes alloc_law: "ok s \<Longrightarrow> kwp alloc (\<lambda>r t. ok t \<and>
      (if r = 0 then avail t = avail s \<and> owned t = owned s
       else r \<in> avail s \<and> avail t = avail s - {r} \<and> owned t = insert r (owned s))) s"
    and free_law: "ok s \<Longrightarrow> r \<in> owned s \<Longrightarrow>
      kwp (free r) (\<lambda>_ t. ok t \<and> avail t = insert r (avail s) \<and> owned t = owned s - {r}) s"
    and zero_law: "ok s \<Longrightarrow> 0 \<notin> avail s"
    and apart_law: "ok s \<Longrightarrow> avail s \<inter> owned s = {}"
begin

lemma allocs_distinct:
  assumes "ok s"
  shows "kwp (krepeat n alloc) (\<lambda>rs t. ok t \<and> distinct (filter (\<lambda>r. r \<noteq> 0) rs) \<and>
     {r \<in> set rs. r \<noteq> 0} \<subseteq> avail s \<and> owned t = owned s \<union> {r \<in> set rs. r \<noteq> 0} \<and>
     avail t = avail s - {r \<in> set rs. r \<noteq> 0}) s"
  using assms
proof (induction n arbitrary: s)
  case 0
  then show ?case by (simp add: wp)
next
  case (Suc n)
  show ?case
    using Suc.prems
    by (auto simp: wp split: if_splits intro!: kwp_mono [OF alloc_law] kwp_mono [OF Suc.IH])
qed

text \<open>A page that is freed right after it was allocated is available again.\<close>

lemma alloc_free:
  assumes "ok s"
  shows "kwp (kbind alloc (\<lambda>r. kwhen (r \<noteq> 0) (free r))) (\<lambda>_ t. ok t \<and> avail t = avail s \<and> owned t = owned s) s"
  using assms apart_law [OF assms]
  by (auto simp: wp split: if_splits intro!: kwp_mono [OF alloc_law] kwp_mono [OF free_law])

end

interpretation pages: page_allocator mat_ok "\<lambda>s. Collect (free_page s)" palloc pfree owned_pages
proof
  fix s :: "'a mat_scheme" and r :: u32
  assume ok: "mat_ok s"
  show "kwp palloc (\<lambda>r t. mat_ok t \<and>
      (if r = 0 then Collect (free_page t) = Collect (free_page s) \<and> owned_pages t = owned_pages s
       else r \<in> Collect (free_page s) \<and> Collect (free_page t) = Collect (free_page s) - {r} \<and>
         owned_pages t = insert r (owned_pages s))) s"
    using ok
    by (intro palloc_wp)
       (auto simp: palloc_result_ok free_page_palloc_result owned_palloc_result next_free_def split: if_splits)
  show "0 \<notin> Collect (free_page s)"
    using free_page_pos [OF ok] by fastforce
  show "Collect (free_page s) \<inter> owned_pages s = {}"
    by (auto simp: free_page_def owned_pages_def)
  assume r: "r \<in> owned_pages s"
  show "kwp (pfree r) (\<lambda>_ t. mat_ok t \<and> Collect (free_page t) = insert r (Collect (free_page s)) \<and>
      owned_pages t = owned_pages s - {r}) s"
    using ok r
    by (intro pfree_wp) (auto simp: mat_ok_def free_page_def owned_pages_def)
qed

section \<open>Initialisation\<close>

text \<open>The memory map as the allocator reads it: a table of known length.\<close>

definition table_ok :: "'a mboot_state_scheme \<Rightarrow> bool" where
  "table_ok s \<longleftrightarrow> length (pmmap_list s) < 4294967296 \<and> pmmap_nentries s = of_nat (length (pmmap_list s))"

definition holds_page :: "u32 \<Rightarrow> pmmap \<Rightarrow> bool" where
  "holds_page i p \<longleftrightarrow> pm_start p \<le> i * PAGESIZE \<and> (i + 1) * PAGESIZE \<le> pm_end p"

text \<open>The permission a page ought to get: that of the first row holding all of it.\<close>

definition page_perm :: "pmmap list \<Rightarrow> u32 \<Rightarrow> u32" where
  "page_perm ps i =
     (if i < VM_USERLO_PI \<or> i \<ge> VM_USERHI_PI then 1
      else case find (holds_page i) ps of None \<Rightarrow> 0 | Some p \<Rightarrow> if pm_type p = MEM_RAM then 2 else 0)"

lemma table_index: "table_ok s \<Longrightarrow> j < pmmap_nentries s \<longleftrightarrow> unat j < length (pmmap_list s)"
  by (simp add: table_ok_def word_less_nat_alt unat_of_nat_u32)

lemma pmmap_nth_table:
  "table_ok s \<Longrightarrow> unat j < length (pmmap_list s) \<Longrightarrow> pmmap_nth j s = Some (pmmap_list s ! unat j)"
  using table_index [of s j] by (auto simp: pmmap_nth_def)

lemmas table_wp = get_mms_def get_mml_def is_usable_def get_size_def pmmap_nth_table wp

lemma count_pages_wp:
  assumes "table_ok s"
  shows "kwp (count_pages (pmmap_nentries s)) (\<lambda>nps t. t = s \<and> nps \<le> AT_SIZE \<and>
    (\<forall>p \<in> set (pmmap_list s). pm_end p div PAGESIZE < nps)) s"
proof -
  have top: "e div PAGESIZE + 1 \<le> AT_SIZE" "e div PAGESIZE < e div PAGESIZE + 1" for e :: u32
  proof -
    have *: "unat (e div PAGESIZE) < 0x100000"
      using unat_u32_less [of e] by (simp add: unat_div)
    then show "e div PAGESIZE < e div PAGESIZE + 1" "e div PAGESIZE + 1 \<le> AT_SIZE"
      by (simp_all add: word_less_nat_alt word_le_nat_alt unat_word_ariths)
  qed
  show ?thesis unfolding count_pages_def
  proof (rule kwp_kfold [where I = "\<lambda>j nps t. t = s \<and> nps \<le> AT_SIZE \<and>
      (\<forall>k < j. pm_end (pmmap_list s ! unat k) div PAGESIZE < nps)"])
    fix nps t
    assume *: "t = s \<and> nps \<le> AT_SIZE \<and>
      (\<forall>k < pmmap_nentries s. pm_end (pmmap_list s ! unat k) div PAGESIZE < nps)"
    have "pm_end p div PAGESIZE < nps" if "p \<in> set (pmmap_list s)" for p
    proof -
      from that obtain n where n: "n < length (pmmap_list s)" "p = pmmap_list s ! n"
        by (auto simp: in_set_conv_nth)
      then have "unat (of_nat n :: u32) = n"
        using assms by (simp add: table_ok_def unat_of_nat_u32)
      then show ?thesis using * n table_index [OF assms, of "of_nat n"] by fastforce
    qed
    with * show "t = s \<and> nps \<le> AT_SIZE \<and> (\<forall>p \<in> set (pmmap_list s). pm_end p div PAGESIZE < nps)"
      by blast
  next
    fix j y t
    assume j: "j < pmmap_nentries s"
      and I: "t = s \<and> y \<le> AT_SIZE \<and> (\<forall>k < j. pm_end (pmmap_list s ! unat k) div PAGESIZE < y)"
    show "kwp (kbind (get_mms j) (\<lambda>st. kbind (get_mml j) (\<lambda>l. let maxs = (st + l) div PAGESIZE + 1 in
        kreturn (if maxs > y then maxs else y)))) (\<lambda>z t'. t' = s \<and> z \<le> AT_SIZE \<and>
          (\<forall>k < j + 1. pm_end (pmmap_list s ! unat k) div PAGESIZE < z)) t"
      using I assms top j less_trans
      by (auto simp: table_wp Let_def less_inc_cases [OF j] table_index not_less intro: less_le_trans)
  qed (simp_all)
qed

lemma page_row_wp:
  assumes "table_ok s"
  shows "kwp (page_row (pmmap_nentries s) i) (\<lambda>r t. t = s \<and>
    r = map_option (\<lambda>p. if pm_type p = MEM_RAM then 1 else 0) (find (holds_page i) (pmmap_list s))) s"
  unfolding page_row_def
proof (rule kwp_kfor_ret [where I = "\<lambda>j t. t = s \<and> (\<forall>k < unat j. \<not> holds_page i (pmmap_list s ! k))"])
  fix j t
  assume j: "j < pmmap_nentries s"
    and I: "t = s \<and> (\<forall>k < unat j. \<not> holds_page i (pmmap_list s ! k))"
  let ?p = "pmmap_list s ! unat j"
  have len: "unat j < length (pmmap_list s)" using j table_index [OF assms] by simp
  have found: "find (holds_page i) (pmmap_list s) = Some ?p" if "holds_page i ?p"
    using I len that by (auto simp: find_Some_iff)
  show "kwp (kbind (get_mms j) (\<lambda>st. kbind (get_mml j) (\<lambda>l. kbind (is_usable j) (\<lambda>isnorm.
       kreturn (if st \<le> i * PAGESIZE \<and> l + st \<ge> (i + 1) * PAGESIZE then Some isnorm else None)))))
     (\<lambda>r t'. case r of None \<Rightarrow> t' = s \<and> (\<forall>k < unat (j + 1). \<not> holds_page i (pmmap_list s ! k))
       | Some v \<Rightarrow> t' = s \<and> Some v = map_option (\<lambda>p. if pm_type p = MEM_RAM then 1 else 0)
           (find (holds_page i) (pmmap_list s))) t"
    using I assms len found
    by (auto simp: table_wp holds_page_def unat_inc [OF j] less_Suc_eq)
next
  fix t
  assume "t = s \<and> (\<forall>k < unat (pmmap_nentries s). \<not> holds_page i (pmmap_list s ! k))"
  moreover have "unat (pmmap_nentries s) = length (pmmap_list s)"
    using assms by (simp add: table_ok_def unat_of_nat_u32)
  ultimately show "t = s \<and> None = map_option (\<lambda>p. if pm_type p = MEM_RAM then 1 else 0)
      (find (holds_page i) (pmmap_list s))"
    by (auto simp: find_None_iff in_set_conv_nth)
qed simp_all

lemma ATStruct_fresh [simp]: "(a :: ATStruct)\<lparr>perm := x, allocated := y\<rparr> = \<lparr>perm = x, allocated = y\<rparr>"
  by (cases a) simp

lemma init_page_wp:
  assumes "table_ok s" and "i < AT_SIZE"
  shows "kwp (init_page (pmmap_nentries s) i)
    (\<lambda>_ t. t = s\<lparr>AT := (AT s)(i := \<lparr>perm = page_perm (pmmap_list s) i, allocated = 0\<rparr>)\<rparr>) s"
proof (cases "i < VM_USERLO_PI \<or> i \<ge> VM_USERHI_PI")
  case True
  then show ?thesis
    using assms by (auto simp: init_page_def page_perm_def at_wp)
next
  case False
  then show ?thesis
    using assms
    by (auto simp: init_page_def page_perm_def at_wp not_le intro!: kwp_mono [OF page_row_wp] split: option.splits)
qed

lemma init_pages_wp:
  assumes "table_ok s" and "nps \<le> AT_SIZE"
  shows "kwp (kfor 0 nps (init_page (pmmap_nentries s)))
    (\<lambda>_ t. t = s\<lparr>AT := (\<lambda>i. if i < nps then \<lparr>perm = page_perm (pmmap_list s) i, allocated = 0\<rparr> else AT s i)\<rparr>) s"
proof (rule kwp_kfor [where I = "\<lambda>j t. t =
    s\<lparr>AT := (\<lambda>i. if i < j then \<lparr>perm = page_perm (pmmap_list s) i, allocated = 0\<rparr> else AT s i)\<rparr>"])
  fix j t
  let ?at = "\<lambda>j i. if i < j then \<lparr>perm = page_perm (pmmap_list s) i, allocated = 0\<rparr> else AT s i"
  assume j: "j < nps" and t: "t = s\<lparr>AT := ?at j\<rparr>"
  have "table_ok t" using assms(1) t by (simp add: table_ok_def)
  moreover have "j < AT_SIZE" using j assms(2) by simp
  moreover have "(?at j)(j := \<lparr>perm = page_perm (pmmap_list s) j, allocated = 0\<rparr>) = ?at (j + 1)"
    by (auto simp: fun_eq_iff less_inc_cases [OF j])
  ultimately show "kwp (init_page (pmmap_nentries s) j) (\<lambda>_ t'. t' = s\<lparr>AT := ?at (j + 1)\<rparr>) t"
    using init_page_wp [of t j] t by simp
qed simp_all

lemma pmem_init_wp:
  assumes dev: "kwp devinit (\<lambda>_ t. table_ok t \<and> P t) s"
    and post: "\<And>t nps. table_ok t \<Longrightarrow> P t \<Longrightarrow> nps \<le> AT_SIZE \<Longrightarrow>
      (\<forall>p \<in> set (pmmap_list t). pm_end p div PAGESIZE < nps) \<Longrightarrow>
      Q () (t\<lparr>mem_lk := spinlock_init, NUM_PAGES := nps,
        AT := (\<lambda>i. if i < nps then \<lparr>perm = page_perm (pmmap_list t) i, allocated = 0\<rparr> else AT t i)\<rparr>)"
  shows "kwp (pmem_init devinit) Q s"
proof -
  have "kwp (kthen mem_spinlock_init (kbind get_size (\<lambda>sz. kbind (count_pages sz) (\<lambda>nps.
      kthen (set_nps nps) (kfor 0 nps (init_page sz)))))) Q t" if t: "table_ok t \<and> P t" for t
  proof -
    have ok: "table_ok (t\<lparr>mem_lk := spinlock_init, NUM_PAGES := nps\<rparr>)" "table_ok (t\<lparr>mem_lk := spinlock_init\<rparr>)" for nps
      using t by (simp_all add: table_ok_def)
    show ?thesis
      using t post
      by (auto simp: at_wp get_size_def intro!: kwp_mono [OF count_pages_wp [OF ok(2), simplified]]
        kwp_mono [OF init_pages_wp [OF ok(1), simplified]] cong: if_cong)
  qed
  then show ?thesis
    unfolding pmem_init_def by (subst kwp_kthen) (rule kwp_mono [OF dev], simp)
qed

section \<open>Properties\<close>

text \<open>
  C23: palloc is first fit from the page after the last one handed out: in every good state it
  returns, with the least free page above last_palloc_index, which it marks allocated and
  remembers, or with 0 when there is none, and then nothing but the remembered index changes.
  The state stays good and the lock is free again.
\<close>

theorem palloc_first_fit:
  assumes "mat_ok s"
  shows "\<exists>r. palloc s = Inr (r, palloc_result s r) \<and> next_free s r \<and> mat_ok (palloc_result s r)"
proof -
  have "kwp palloc (\<lambda>r t. t = palloc_result s r \<and> next_free s r \<and> mat_ok (palloc_result s r)) s"
    using assms by (intro palloc_wp) (auto simp: palloc_result_ok)
  then show ?thesis by (auto elim: kwpE)
qed

definition mat_demo :: mat where
  "mat_demo = mboot_state.extend mboot_demo
     \<lparr>mem_lk = spinlock_init, NUM_PAGES = 0x40010,
      AT = (\<lambda>i. if i < 0x40000 then \<lparr>perm = 1, allocated = 0\<rparr>
                else if i < 0x40008 then \<lparr>perm = 2, allocated = if i = 0x40001 then 1 else 0\<rparr>
                else \<lparr>perm = 0, allocated = 0\<rparr>),
      last_palloc_index = 0x40000\<rparr>"

lemma mat_demo_ok: "mat_ok mat_demo"
  by (simp add: mat_ok_def mat_demo_def mboot_demo_def cpu_demo_def mboot_state.defs cpu_state.defs)

theorem palloc_first_fit_witness:
  "mat_ok mat_demo \<and>
   (\<exists>r. palloc mat_demo = Inr (r, palloc_result mat_demo r) \<and> next_free mat_demo r \<and> mat_ok (palloc_result mat_demo r))"
  using palloc_first_fit [OF mat_demo_ok] mat_demo_ok by blast

text \<open>
  C24: No page is lost behind the remembered index: if some page is free, then palloc succeeds
  at once, or the call after the failing one does (the failure resets the index to 0).
\<close>

theorem palloc_second_try:
  assumes "mat_ok s" and "free_page s i"
  shows "kwp (kbind palloc (\<lambda>r. if r \<noteq> 0 then kreturn r else palloc))
    (\<lambda>r t. r \<noteq> 0 \<and> free_page s r \<and> \<not> free_page t r \<and> mat_ok t) s"
proof -
  have first: "kwp palloc (\<lambda>r t. t = palloc_result s r \<and> next_free s r) s"
    using assms(1) by (intro palloc_wp) auto
  have ok: "mat_ok (palloc_result s r)" if "next_free s r" for r
    using palloc_result_ok [OF assms(1) that] .
  have hit: "r \<noteq> 0 \<and> free_page s r" if "next_free s 0" "next_free (palloc_result s 0) r" for r
    using that assms(2) free_page_pos [OF assms(1,2)]
    by (auto simp: next_free_def palloc_result_def free_page_def split: if_splits)
  have "kwp palloc (\<lambda>r t. r \<noteq> 0 \<and> free_page s r \<and> \<not> free_page t r \<and> mat_ok t) (palloc_result s 0)"
    if "next_free s 0"
    using ok [OF that] hit [OF that]
    by (intro palloc_wp) (auto simp: palloc_result_ok free_page_palloc_result)
  then show ?thesis
    using ok
    by (auto simp: wp free_page_palloc_result next_free_def [of s] intro!: kwp_mono [OF first] split: if_splits)
qed

theorem palloc_second_try_witness:
  "kwp (kbind palloc (\<lambda>r. if r \<noteq> 0 then kreturn r else palloc))
    (\<lambda>r t. r \<noteq> 0 \<and> free_page (mat_demo\<lparr>last_palloc_index := 0x40007\<rparr>) r \<and> \<not> free_page t r \<and> mat_ok t)
    (mat_demo\<lparr>last_palloc_index := 0x40007\<rparr>)"
  by (rule palloc_second_try [where i = "0x40002"])
     (simp_all add: mat_ok_def free_page_def mat_demo_def mboot_demo_def cpu_demo_def
        mboot_state.defs cpu_state.defs)

lemma page_addr_bounds:
  assumes "a div PAGESIZE = i" and "i < VM_USERHI_PI"
  shows "i * PAGESIZE \<le> a" and "a < (i + 1) * PAGESIZE"
proof -
  have ia: "unat i = unat a div 4096" using assms(1) by (auto simp: unat_div)
  have "unat i < 0xF0000" using assms(2) by (simp add: word_less_nat_alt)
  then have "unat (i * PAGESIZE) = unat i * 4096" "unat ((i + 1) * PAGESIZE) = (unat i + 1) * 4096"
    by (simp_all add: unat_word_ariths)
  then show "i * PAGESIZE \<le> a" "a < (i + 1) * PAGESIZE"
    using ia by (simp_all add: word_le_nat_alt word_less_nat_alt)
qed

lemma page_perm_usable:
  assumes "1 < page_perm ps i" and "a div PAGESIZE = i"
  shows "a \<in> covered MEM_RAM ps"
proof -
  from assms(1) obtain p where p: "find (holds_page i) ps = Some p" "pm_type p = MEM_RAM" "i < VM_USERHI_PI"
    by (auto simp: page_perm_def not_le split: if_splits option.splits)
  then have "p \<in> set ps" "holds_page i p"
    by (auto simp: find_Some_iff in_set_conv_nth)
  with p page_addr_bounds [OF assms(2) p(3)] show ?thesis
    by (auto simp: covered_def holds_page_def intro: order_trans less_le_trans)
qed

text \<open>
  C7: pmem_init on top of pmmap_init classifies memory soundly. For every boot-loader table it
  returns, NUM_PAGES fits the allocation table, no page is marked allocated, the pages outside
  the user range are kernel pages, and every page the allocator may hand out consists only of
  addresses that a usable row of the table describes.
\<close>

theorem pmem_init_sound:
  assumes "pmmap_slots_next_free s = 0" and "pmmap_nentries s = 0" and "length rows \<le> 128"
    and "mm_type ` set rows \<subseteq> {MEM_RAM, MEM_RESERVED, MEM_ACPI, MEM_NVS}"
  shows "kwp (pmem_init (pmmap_init rows)) (\<lambda>_ t. lock_free (mem_lk t) \<and> NUM_PAGES t \<le> AT_SIZE \<and>
     (\<forall>i < NUM_PAGES t. allocated (AT t i) = 0 \<and>
        (i < VM_USERLO_PI \<or> i \<ge> VM_USERHI_PI \<longrightarrow> perm (AT t i) = 1)) \<and>
     (\<forall>i a. free_page t i \<longrightarrow> a div PAGESIZE = i \<longrightarrow>
        (\<exists>r \<in> set rows. mm_type r = MEM_RAM \<and> a \<in> row_addrs r))) s"
proof -
  have dev: "kwp (pmmap_init rows) (\<lambda>_ t. table_ok t \<and> represents (pmmap_list t) (set rows)) s"
    using assms(2) by (intro kwp_mono [OF pmmap_init_wp [OF assms(1,3,4)]]) (auto simp: table_ok_def)
  have "\<exists>r \<in> set rows. mm_type r = MEM_RAM \<and> a \<in> row_addrs r"
    if "represents ps (set rows)" "1 < page_perm ps (a div PAGESIZE)" for ps a
    using page_perm_usable [OF that(2) refl] that(1) by (auto simp: represents_def)
  then show ?thesis
    by (intro pmem_init_wp [OF dev]) (auto simp: free_page_def page_perm_def)
qed

theorem pmem_init_sound_witness:
  "kwp (pmem_init (pmmap_init mmap_demo)) (\<lambda>_ t. lock_free (mem_lk t) \<and> NUM_PAGES t \<le> AT_SIZE \<and>
     (\<forall>i < NUM_PAGES t. allocated (AT t i) = 0 \<and>
        (i < VM_USERLO_PI \<or> i \<ge> VM_USERHI_PI \<longrightarrow> perm (AT t i) = 1)) \<and>
     (\<forall>i a. free_page t i \<longrightarrow> a div PAGESIZE = i \<longrightarrow>
        (\<exists>r \<in> set mmap_demo. mm_type r = MEM_RAM \<and> a \<in> row_addrs r))) mat_demo"
  by (rule pmem_init_sound)
     (simp_all add: mat_demo_def mboot_demo_def mmap_demo_def cpu_demo_def mboot_state.defs cpu_state.defs)

text \<open>
  C13: Pages handed out by any number of consecutive calls of palloc are pairwise different, were
  free before, and are all marked allocated afterwards; the other pages keep their status.
\<close>

theorem palloc_distinct:
  assumes "mat_ok s"
  shows "kwp (krepeat n palloc) (\<lambda>rs t. mat_ok t \<and> distinct (filter (\<lambda>r. r \<noteq> 0) rs) \<and>
     {r \<in> set rs. r \<noteq> 0} \<subseteq> Collect (free_page s) \<and>
     owned_pages t = owned_pages s \<union> {r \<in> set rs. r \<noteq> 0} \<and>
     Collect (free_page t) = Collect (free_page s) - {r \<in> set rs. r \<noteq> 0}) s"
  using assms by (rule pages.allocs_distinct)

theorem palloc_distinct_witness:
  "kwp (krepeat 3 palloc) (\<lambda>rs t. mat_ok t \<and> distinct (filter (\<lambda>r. r \<noteq> 0) rs) \<and>
     {r \<in> set rs. r \<noteq> 0} \<subseteq> Collect (free_page mat_demo) \<and>
     owned_pages t = owned_pages mat_demo \<union> {r \<in> set rs. r \<noteq> 0} \<and>
     Collect (free_page t) = Collect (free_page mat_demo) - {r \<in> set rs. r \<noteq> 0}) mat_demo"
  using mat_demo_ok by (rule palloc_distinct)

end
