(* ===== verification/MContainer.thy ===== *)
theory MContainer
  imports MAT
begin

text \<open>
  Containers (kern/pmm/MContainer): per-process memory quotas. The \<^verbatim>\<open>int\<close> fields of
  \<^verbatim>\<open>struct SContainer\<close> are 32-bit words; comparisons with an unsigned operand are unsigned, the
  test \<^verbatim>\<open>usage > 0\<close> of \<^verbatim>\<open>container_free\<close> is signed, as in the C text.

  The children of container \<open>i\<close> are the containers \<open>3 i + 1\<close>, \<open>3 i + 2\<close> and \<open>3 i + 3\<close>, taken in
  order. The invariant \<open>container_ok\<close> says that the used containers form such a tree, that no
  container uses more than its quota and that what a container gave to its children is part of
  its usage; the pages of all processes together then fit the quota of the root.
\<close>

abbreviation (input) MAX_CHILDREN :: u32 where "MAX_CHILDREN \<equiv> 3"

record SContainer =
  quota :: u32
  usage :: u32
  parent :: u32
  nchildren :: u32
  used :: u32

record mcontainer = mat +
  CONTAINER :: "u32 \<Rightarrow> SContainer"

section \<open>Operations\<close>

definition con_get :: "u32 \<Rightarrow> ('a mcontainer_scheme, SContainer) kprog" where
  "con_get i = kthen (kassert (i < NUM_IDS) (Fault ''CONTAINER'')) (kgets (\<lambda>s. CONTAINER s i))"

definition con_upd :: "u32 \<Rightarrow> (SContainer \<Rightarrow> SContainer) \<Rightarrow> ('a mcontainer_scheme, unit) kprog" where
  "con_upd i f =
     kthen (kassert (i < NUM_IDS) (Fault ''CONTAINER''))
           (kmodify (\<lambda>s. s\<lparr>CONTAINER := (CONTAINER s)(i := f (CONTAINER s i))\<rparr>))"

definition count_quota :: "u32 \<Rightarrow> ('a mcontainer_scheme, u32) kprog" where
  "count_quota nps =
     kfold 1 nps (\<lambda>i real_quota.
       kbind (at_is_norm i) (\<lambda>norm.
       kbind (at_is_allocated i) (\<lambda>u.
       kreturn (if norm = 1 \<and> u = 0 then real_quota + 1 else real_quota)))) 0"

definition container_init :: "('a mcontainer_scheme, unit) kprog \<Rightarrow> ('a mcontainer_scheme, unit) kprog" where
  "container_init devinit =
     kthen (pmem_init devinit)
     (kbind get_nps (\<lambda>nps.
     kbind (count_quota nps) (\<lambda>real_quota.
     kthen (con_upd 0 (\<lambda>c. c\<lparr>quota := real_quota\<rparr>))
     (kthen (con_upd 0 (\<lambda>c. c\<lparr>usage := 0\<rparr>))
     (kthen (con_upd 0 (\<lambda>c. c\<lparr>parent := 0\<rparr>))
     (kthen (con_upd 0 (\<lambda>c. c\<lparr>nchildren := 0\<rparr>))
            (con_upd 0 (\<lambda>c. c\<lparr>used := 1\<rparr>))))))))"

definition container_get_parent :: "u32 \<Rightarrow> ('a mcontainer_scheme, u32) kprog" where
  "container_get_parent i = kbind (con_get i) (\<lambda>c. kreturn (parent c))"

definition container_get_nchildren :: "u32 \<Rightarrow> ('a mcontainer_scheme, u32) kprog" where
  "container_get_nchildren i = kbind (con_get i) (\<lambda>c. kreturn (nchildren c))"

definition container_get_quota :: "u32 \<Rightarrow> ('a mcontainer_scheme, u32) kprog" where
  "container_get_quota i = kbind (con_get i) (\<lambda>c. kreturn (quota c))"

definition container_get_usage :: "u32 \<Rightarrow> ('a mcontainer_scheme, u32) kprog" where
  "container_get_usage i = kbind (con_get i) (\<lambda>c. kreturn (usage c))"

definition container_can_consume :: "u32 \<Rightarrow> u32 \<Rightarrow> ('a mcontainer_scheme, u32) kprog" where
  "container_can_consume i n =
     kbind (con_get i) (\<lambda>c. kreturn (if usage c + n > quota c then 0 else 1))"

definition container_split :: "u32 \<Rightarrow> u32 \<Rightarrow> ('a mcontainer_scheme, u32) kprog" where
  "container_split i q =
     kbind (con_get i) (\<lambda>c.
     let nc = nchildren c;
         child = i * MAX_CHILDREN + 1 + nc
     in
       kthen (con_upd child (\<lambda>c. c\<lparr>used := 1\<rparr>))
       (kthen (con_upd child (\<lambda>c. c\<lparr>quota := q\<rparr>))
       (kthen (con_upd child (\<lambda>c. c\<lparr>usage := 0\<rparr>))
       (kthen (con_upd child (\<lambda>c. c\<lparr>parent := i\<rparr>))
       (kthen (con_upd child (\<lambda>c. c\<lparr>nchildren := 0\<rparr>))
       (kthen (con_upd i (\<lambda>c. c\<lparr>usage := usage c + q\<rparr>))
       (kthen (con_upd i (\<lambda>c. c\<lparr>nchildren := nc + 1\<rparr>))
       (kreturn child))))))))"

definition container_alloc :: "u32 \<Rightarrow> ('a mcontainer_scheme, u32) kprog" where
  "container_alloc i =
     kbind (con_get i) (\<lambda>c.
     let u = usage c; q = quota c in
     if u = q then kreturn 0
     else kthen (con_upd i (\<lambda>c. c\<lparr>usage := u + 1\<rparr>)) palloc)"

definition container_free :: "u32 \<Rightarrow> u32 \<Rightarrow> ('a mcontainer_scheme, unit) kprog" where
  "container_free i page_index =
     kbind (at_is_allocated page_index) (\<lambda>a.
     kwhen (a \<noteq> 0)
       (kthen (pfree page_index)
       (kbind (con_get i) (\<lambda>c.
        kwhen (0 <s usage c) (con_upd i (\<lambda>c. c\<lparr>usage := usage c - 1\<rparr>))))))"

lemma kwp_con_get [wp]: "kwp (con_get i) Q s = (i < NUM_IDS \<and> Q (CONTAINER s i) s)"
  by (simp add: con_get_def wp)

lemma kwp_con_upd [wp]:
  "kwp (con_upd i f) Q s = (i < NUM_IDS \<and> Q () (s\<lparr>CONTAINER := (CONTAINER s)(i := f (CONTAINER s i))\<rparr>))"
  by (simp add: con_upd_def wp)

section \<open>The quota tree\<close>

definition in_use :: "(u32 \<Rightarrow> SContainer) \<Rightarrow> u32 set" where
  "in_use C = {i. i < NUM_IDS \<and> used (C i) \<noteq> 0}"

definition children :: "(u32 \<Rightarrow> SContainer) \<Rightarrow> u32 \<Rightarrow> u32 set" where
  "children C i = {j. \<exists>k < nchildren (C i). j = i * MAX_CHILDREN + 1 + k}"

text \<open>Pages granted to children, and the pages a container uses itself.\<close>

definition granted :: "(u32 \<Rightarrow> SContainer) \<Rightarrow> u32 \<Rightarrow> nat" where
  "granted C i = (\<Sum>j \<in> children C i. unat (quota (C j)))"

definition own_pages :: "(u32 \<Rightarrow> SContainer) \<Rightarrow> u32 \<Rightarrow> nat" where
  "own_pages C i = unat (usage (C i)) - granted C i"

definition container_ok :: "(u32 \<Rightarrow> SContainer) \<Rightarrow> bool" where
  "container_ok C \<longleftrightarrow> 0 \<in> in_use C \<and>
     (\<forall>i \<in> in_use C.
        nchildren (C i) \<le> MAX_CHILDREN \<and> children C i \<subseteq> in_use C \<and>
        (\<forall>j \<in> children C i. parent (C j) = i) \<and>
        (i \<noteq> 0 \<longrightarrow> parent (C i) \<in> in_use C \<and> i \<in> children C (parent (C i))) \<and>
        granted C i \<le> unat (usage (C i)) \<and> usage (C i) \<le> quota (C i))"

lemma finite_in_use: "finite (in_use C)"
  by (rule finite)

lemma container_okD:
  assumes "container_ok C" and "i \<in> in_use C"
  shows "nchildren (C i) \<le> MAX_CHILDREN" and "j \<in> children C i \<Longrightarrow> j \<in> in_use C \<and> parent (C j) = i"
    and "i \<noteq> 0 \<Longrightarrow> parent (C i) \<in> in_use C \<and> i \<in> children C (parent (C i))"
    and "granted C i \<le> unat (usage (C i))" and "usage (C i) \<le> quota (C i)"
  using assms by (auto simp: container_ok_def)

lemma unat_child:
  assumes "i < NUM_IDS" and "k \<le> MAX_CHILDREN"
  shows "unat (i * MAX_CHILDREN + 1 + k) = unat i * 3 + 1 + unat k"
  using assms by (simp add: unat_word_ariths word_less_nat_alt word_le_nat_alt)

lemma child_inj:
  assumes "i < NUM_IDS" "i' < NUM_IDS" "k < MAX_CHILDREN" "k' < MAX_CHILDREN"
    and eq: "i * MAX_CHILDREN + 1 + k = i' * MAX_CHILDREN + 1 + k'"
  shows "i = i' \<and> k = k'"
proof -
  have "unat i * 3 + unat k = unat i' * 3 + unat k'"
    using arg_cong [OF eq, of unat] assms(1-4) by (simp add: unat_child)
  moreover have "unat k < 3" "unat k' < 3"
    using assms(3,4) by (simp_all add: word_less_nat_alt)
  ultimately have "unat i = unat i' \<and> unat k = unat k'" by presburger
  then show ?thesis by (simp add: word_unat_eq_iff)
qed

text \<open>Each used container but the root is a child of exactly one used container.\<close>

lemma children_union:
  assumes "container_ok C"
  shows "(\<Union>i \<in> in_use C. children C i) = in_use C - {0}"
proof
  have "0 \<notin> children C i" if "i \<in> in_use C" for i
  proof
    assume "0 \<in> children C i"
    then obtain k where k: "k < nchildren (C i)" "i * MAX_CHILDREN + 1 + k = 0"
      by (auto simp: children_def)
    have "unat (i * MAX_CHILDREN + 1 + k) = unat i * 3 + 1 + unat k"
      using that k(1) container_okD(1) [OF assms that] by (intro unat_child) (auto simp: in_use_def)
    with k(2) show False by simp
  qed
  then show "(\<Union>i \<in> in_use C. children C i) \<subseteq> in_use C - {0}"
    using container_okD(2) [OF assms] by auto
  show "in_use C - {0} \<subseteq> (\<Union>i \<in> in_use C. children C i)"
    using container_okD(3) [OF assms] by auto
qed

lemma granted_total:
  assumes "container_ok C"
  shows "(\<Sum>i \<in> in_use C. granted C i) = (\<Sum>j \<in> in_use C - {0}. unat (quota (C j)))"
proof -
  have "children C i \<inter> children C j = {}" if "i \<in> in_use C" "j \<in> in_use C" "i \<noteq> j" for i j
    using that(3) by (auto dest: container_okD(2) [OF assms that(1)] container_okD(2) [OF assms that(2)])
  then have "(\<Sum>i \<in> in_use C. granted C i) = (\<Sum>j \<in> (\<Union>i \<in> in_use C. children C i). unat (quota (C j)))"
    unfolding granted_def by (intro sum.UNION_disjoint [symmetric]) auto
  with children_union [OF assms] show ?thesis by simp
qed

lemma own_pages_bound:
  assumes "container_ok C"
  shows "(\<Sum>i \<in> in_use C. own_pages C i) \<le> unat (quota (C 0))"
proof -
  have "own_pages C i + granted C i \<le> unat (quota (C i))" if "i \<in> in_use C" for i
    using container_okD(4,5) [OF assms that] by (simp add: own_pages_def word_le_nat_alt)
  then have "(\<Sum>i \<in> in_use C. own_pages C i + granted C i) \<le> (\<Sum>i \<in> in_use C. unat (quota (C i)))"
    by (rule sum_mono)
  moreover have "(\<Sum>i \<in> in_use C. unat (quota (C i))) =
      unat (quota (C 0)) + (\<Sum>j \<in> in_use C - {0}. unat (quota (C j)))"
    using assms by (intro sum.remove) (auto simp: container_ok_def)
  ultimately show ?thesis
    using granted_total [OF assms] by (simp add: sum.distrib)
qed

section \<open>The operations keep the tree\<close>

text \<open>A change of one usage field that stays between what was granted and the quota.\<close>

lemma container_ok_usage:
  assumes "container_ok C" and "granted C i \<le> unat u" and "u \<le> quota (C i)"
  shows "container_ok (C(i := (C i)\<lparr>usage := u\<rparr>))" (is "container_ok ?C")
proof -
  have "in_use ?C = in_use C" by (auto simp: in_use_def)
  moreover have ch: "children ?C j = children C j" for j by (simp add: children_def)
  moreover have "granted ?C j = granted C j" for j
    unfolding granted_def ch by (rule sum.cong) auto
  ultimately show ?thesis using assms by (auto simp: container_ok_def)
qed

text \<open>The table after \<^verbatim>\<open>container_split\<close>.\<close>

definition split_table :: "u32 \<Rightarrow> u32 \<Rightarrow> (u32 \<Rightarrow> SContainer) \<Rightarrow> (u32 \<Rightarrow> SContainer)" where
  "split_table i q C =
     (let child = i * MAX_CHILDREN + 1 + nchildren (C i)
      in C(child := \<lparr>quota = q, usage = 0, parent = i, nchildren = 0, used = 1\<rparr>,
           i := (C i)\<lparr>usage := usage (C i) + q, nchildren := nchildren (C i) + 1\<rparr>))"

lemma child_fresh:
  assumes "container_ok C" and "i \<in> in_use C" and "nchildren (C i) < MAX_CHILDREN"
  shows "i * MAX_CHILDREN + 1 + nchildren (C i) \<notin> in_use C" (is "?c \<notin> _")
proof
  assume c: "?c \<in> in_use C"
  have i: "i < NUM_IDS" using assms(2) by (simp add: in_use_def)
  have "unat ?c = unat i * 3 + 1 + unat (nchildren (C i))"
    using assms(3) i by (intro unat_child) auto
  then have "?c \<noteq> 0" by (metis add_is_0 one_neq_zero unat_0)
  with c container_okD(3) [OF assms(1) c]
  obtain j k where j: "j \<in> in_use C" "k < nchildren (C j)" "?c = j * MAX_CHILDREN + 1 + k"
    unfolding children_def by blast
  moreover have "k < MAX_CHILDREN" "j < NUM_IDS"
    using j(1,2) container_okD(1) [OF assms(1) j(1)] by (auto simp: in_use_def)
  ultimately have "i = j \<and> nchildren (C i) = k"
    using assms(3) i by (intro child_inj) auto
  with j(2) show False by auto
qed

lemma SContainer_fresh [simp]:
  "(c :: SContainer)\<lparr>used := 1, quota := q, usage := 0, parent := i, nchildren := 0\<rparr> =
     \<lparr>quota = q, usage = 0, parent = i, nchildren = 0, used = 1\<rparr>"
  by (cases c) simp

lemma container_split_wp:
  assumes "i < NUM_IDS" and c: "child = i * MAX_CHILDREN + 1 + nchildren (CONTAINER s i)"
    and "child < NUM_IDS" and "child \<noteq> i"
    and "Q child (s\<lparr>CONTAINER := split_table i q (CONTAINER s)\<rparr>)"
  shows "kwp (container_split i q) Q s"
proof -
  have "2 * i + (1 + nchildren (CONTAINER s i)) \<noteq> 0" using assms(4) c by simp
  then show ?thesis
    using assms(1,3-5) unfolding container_split_def split_table_def Let_def
    by (simp add: wp Let_def c [symmetric])
qed

lemma split_table_ok:
  assumes ok: "container_ok C" and i: "i \<in> in_use C" and nc: "nchildren (C i) < MAX_CHILDREN"
    and c: "i * MAX_CHILDREN + 1 + nchildren (C i) < NUM_IDS"
    and q: "unat (usage (C i)) + unat q \<le> unat (quota (C i))"
  shows "container_ok (split_table i q C)" (is "container_ok ?C")
proof -
  define c where "c = i * MAX_CHILDREN + 1 + nchildren (C i)"
  have c_ids: "c < NUM_IDS" using c by (simp add: c_def)
  have fresh: "c \<notin> in_use C" using child_fresh [OF ok i nc] by (simp add: c_def)
  have tab: "?C = C(c := \<lparr>quota = q, usage = 0, parent = i, nchildren = 0, used = 1\<rparr>,
      i := (C i)\<lparr>usage := usage (C i) + q, nchildren := nchildren (C i) + 1\<rparr>)"
    by (simp add: split_table_def Let_def c_def)
  have ne: "c \<noteq> i" "i \<noteq> c" using fresh i by auto
  have use: "in_use ?C = insert c (in_use C)"
    using c_ids i ne unfolding tab in_use_def by auto
  have ch: "children ?C j = (if j = i then insert c (children C i) else if j = c then {} else children C j)" for j
    unfolding children_def tab using ne by (auto simp: less_inc_cases [OF nc] c_def)
  have sub: "children C j \<subseteq> in_use C - {c}" if "j \<in> in_use C" for j
    using container_okD(2) [OF ok that] fresh by auto
  have old: "quota (?C j) = quota (C j) \<and> parent (?C j) = parent (C j)" if "j \<in> in_use C" for j
    using that fresh ne unfolding tab by auto
  have new: "quota (?C c) = q" "parent (?C c) = i" "usage (?C c) = 0" using ne by (simp_all add: tab)
  have kids: "(\<Sum>j \<in> children C k. unat (quota (?C j))) = granted C k" if "k \<in> in_use C" for k
    unfolding granted_def using sub [OF that] old by (intro sum.cong) auto
  have "c \<notin> children C i" using sub [OF i] by blast
  then have "granted ?C i = unat q + granted C i"
    unfolding granted_def [of ?C] ch using new kids [OF i] by (simp add: sum.insert)
  moreover have "granted ?C j = granted C j" if "j \<in> in_use C" "j \<noteq> i" for j
    unfolding granted_def [of ?C] ch using that fresh kids by auto
  moreover have "granted ?C c = 0" unfolding granted_def [of ?C] ch using ne by simp
  moreover have "unat (usage (C i) + q) = unat (usage (C i)) + unat q"
    using q unat_u32_less [of "quota (C i)"] by (simp add: unat_word_ariths)
  ultimately have accounts: "granted ?C j \<le> unat (usage (?C j)) \<and> usage (?C j) \<le> quota (?C j)"
    if "j \<in> in_use ?C" for j
    using that q ne fresh container_okD(4,5) [OF ok] i unfolding use
    by (cases "j = i"; cases "j = c") (auto simp: tab word_le_nat_alt)
  have shape: "nchildren (?C j) \<le> MAX_CHILDREN \<and> children ?C j \<subseteq> in_use ?C" if "j \<in> in_use ?C" for j
    using that sub container_okD(1) [OF ok] nc ne unfolding use ch
    by (auto simp: tab intro: inc_le)
  have up: "\<forall>k \<in> children ?C j. parent (?C k) = j" if "j \<in> in_use ?C" for j
    using that new container_okD(2) [OF ok] old sub i fresh unfolding use ch by (auto split: if_splits)
  have down: "parent (?C j) \<in> in_use ?C \<and> j \<in> children ?C (parent (?C j))"
    if "j \<in> in_use ?C" "j \<noteq> 0" for j
    using that new container_okD(3) [OF ok] old i fresh unfolding use ch by (auto split: if_splits)
  have "0 \<in> in_use ?C" using ok unfolding use container_ok_def by simp
  with shape up down accounts show ?thesis unfolding container_ok_def by blast
qed

lemma mat_ok_CONTAINER [simp]: "mat_ok (s\<lparr>CONTAINER := C\<rparr>) = mat_ok s"
  by (simp add: mat_ok_def)

lemma next_free_CONTAINER [simp]: "next_free (s\<lparr>CONTAINER := C\<rparr>) r = next_free s r"
  by (simp add: next_free_def free_page_def)

lemma palloc_result_CONTAINER:
  "palloc_result (s\<lparr>CONTAINER := C\<rparr>) r = (palloc_result s r)\<lparr>CONTAINER := C\<rparr>"
  by (simp add: palloc_result_def)

lemma CONTAINER_palloc_result [simp]: "CONTAINER (palloc_result s r) = CONTAINER s"
  by (simp add: palloc_result_def)

lemma container_alloc_wp:
  assumes "i < NUM_IDS" and "mat_ok s"
    and "usage (CONTAINER s i) = quota (CONTAINER s i) \<Longrightarrow> Q 0 s"
    and "\<And>r. usage (CONTAINER s i) \<noteq> quota (CONTAINER s i) \<Longrightarrow> next_free s r \<Longrightarrow>
      Q r (palloc_result s r\<lparr>CONTAINER := (CONTAINER s)(i := (CONTAINER s i)\<lparr>usage := usage (CONTAINER s i) + 1\<rparr>)\<rparr>)"
  shows "kwp (container_alloc i) Q s"
  using assms by (auto simp: container_alloc_def wp Let_def palloc_result_CONTAINER intro!: palloc_wp)

lemma usage_room:
  assumes "container_ok C" and "i \<in> in_use C" and "usage (C i) \<noteq> quota (C i)"
  shows "unat (usage (C i) + 1) = Suc (unat (usage (C i)))" and "usage (C i) + 1 \<le> quota (C i)"
proof -
  have "usage (C i) < quota (C i)"
    using container_okD(5) [OF assms(1,2)] assms(3) by simp
  then show "unat (usage (C i) + 1) = Suc (unat (usage (C i)))" "usage (C i) + 1 \<le> quota (C i)"
    by (rule unat_inc, rule inc_le)
qed

lemma container_alloc_tree:
  assumes "container_ok C" and "i \<in> in_use C" and "usage (C i) \<noteq> quota (C i)"
  shows "container_ok (C(i := (C i)\<lparr>usage := usage (C i) + 1\<rparr>))"
  using container_okD(4) [OF assms(1,2)] usage_room [OF assms] assms(1)
  by (intro container_ok_usage) auto

lemma container_free_wp:
  assumes "i < NUM_IDS" and "mat_ok s" and "p < AT_SIZE"
    and "allocated (AT s p) = 0 \<Longrightarrow> Q () s"
    and "\<And>C. allocated (AT s p) \<noteq> 0 \<Longrightarrow>
      C = (if 0 <s usage (CONTAINER s i)
           then (CONTAINER s)(i := (CONTAINER s i)\<lparr>usage := usage (CONTAINER s i) - 1\<rparr>)
           else CONTAINER s) \<Longrightarrow>
      Q () (s\<lparr>AT := (AT s)(p := (AT s p)\<lparr>allocated := 0\<rparr>), CONTAINER := C\<rparr>)"
  shows "kwp (container_free i p) Q s"
proof (cases "allocated (AT s p) = 0")
  case True
  then show ?thesis using assms by (simp add: container_free_def at_wp)
next
  case False
  then show ?thesis
    using assms(1-3) assms(5) [OF False]
    by (auto simp: container_free_def at_wp wp intro!: pfree_wp)
qed

text \<open>How many pages \<^verbatim>\<open>container_init\<close> counts.\<close>

lemma count_step_wp:
  assumes "j < NUM_PAGES s" and "NUM_PAGES s \<le> AT_SIZE"
  shows "kwp (kbind (at_is_norm j) (\<lambda>norm. kbind (at_is_allocated j) (\<lambda>u.
      kreturn (if norm = 1 \<and> u = 0 then q + 1 else q)))) Q s = Q (if free_page s j then q + 1 else q) s"
proof -
  have "j < AT_SIZE" using assms by simp
  then show ?thesis
    using assms(1) norm_perm [of "AT s j"] by (auto simp: at_wp free_page_def)
qed

definition free_upto :: "'a mat_scheme \<Rightarrow> u32 \<Rightarrow> u32 set" where
  "free_upto s j = {i. 0 < i \<and> i < j \<and> free_page s i}"

lemma free_upto_inc:
  assumes "0 < j" and "j < n"
  shows "card (free_upto s (j + 1)) = card (free_upto s j) + (if free_page s j then 1 else 0)"
proof -
  have "free_upto s (j + 1) = (if free_page s j then insert j (free_upto s j) else free_upto s j)"
    using assms(1) by (auto simp: free_upto_def less_inc_cases [OF assms(2)])
  moreover have "j \<notin> free_upto s j" "finite (free_upto s j)" by (simp_all add: free_upto_def)
  ultimately show ?thesis by simp
qed

lemma count_quota_wp:
  assumes "NUM_PAGES s \<le> AT_SIZE"
  shows "kwp (count_quota (NUM_PAGES s)) (\<lambda>q t. t = s \<and> unat q = card (free_upto s (NUM_PAGES s))) s"
proof (cases "NUM_PAGES s = 0")
  case True
  then show ?thesis by (simp add: count_quota_def kwp_def kfold.simps free_upto_def)
next
  case False
  show ?thesis unfolding count_quota_def
  proof (rule kwp_kfold [where I = "\<lambda>j q t. t = s \<and> q < j \<and> unat q = card (free_upto s j)"])
    show "1 \<le> NUM_PAGES s" using False by (metis inc_le word_gt_0 add_0)
    show "s = s \<and> (0 :: u32) < 1 \<and> unat (0 :: u32) = card (free_upto s 1)"
      by (auto simp: free_upto_def)
  next
    fix j q :: u32 and t
    assume j: "1 \<le> j" "j < NUM_PAGES s" and I: "t = s \<and> q < j \<and> unat q = card (free_upto s j)"
    have "0 < j" using j(1) by (metis less_le_trans word_gt_0 one_neq_zero)
    moreover have "q + 1 < j + 1" "q < j + 1"
      using I by (simp_all add: word_less_nat_alt unat_inc [of q j] unat_inc [OF j(2)])
    ultimately show "kwp (kbind (at_is_norm j) (\<lambda>norm. kbind (at_is_allocated j) (\<lambda>u.
        kreturn (if norm = 1 \<and> u = 0 then q + 1 else q))))
        (\<lambda>q t. t = s \<and> q < j + 1 \<and> unat q = card (free_upto s (j + 1))) t"
      using I by (simp add: count_step_wp [OF j(2) assms] free_upto_inc [OF _ j(2)] unat_inc [of q j])
  qed simp
qed

lemma container_init_wp:
  assumes dev: "kwp devinit (\<lambda>_ t. table_ok t \<and> P t) s"
    and post: "\<And>t nps q. table_ok t \<Longrightarrow> P t \<Longrightarrow> nps \<le> AT_SIZE \<Longrightarrow>
      (\<forall>p \<in> set (pmmap_list t). pm_end p div PAGESIZE < nps) \<Longrightarrow>
      (let u = t\<lparr>mem_lk := spinlock_init, NUM_PAGES := nps,
         AT := (\<lambda>i. if i < nps then \<lparr>perm = page_perm (pmmap_list t) i, allocated = 0\<rparr> else AT t i)\<rparr>
       in unat q = card (free_upto u nps) \<longrightarrow>
          Q () (u\<lparr>CONTAINER := (CONTAINER t)(0 := \<lparr>quota = q, usage = 0, parent = 0, nchildren = 0, used = 1\<rparr>)\<rparr>))"
  shows "kwp (container_init devinit) Q s"
proof -
  have fresh: "(c :: SContainer)\<lparr>quota := q, usage := 0, parent := 0, nchildren := 0, used := 1\<rparr> =
      \<lparr>quota = q, usage = 0, parent = 0, nchildren = 0, used = 1\<rparr>" for c q
    by (cases c) simp
  have tail: "kwp (kbind get_nps (\<lambda>nps. kbind (count_quota nps) (\<lambda>q.
      kthen (con_upd 0 (\<lambda>c. c\<lparr>quota := q\<rparr>)) (kthen (con_upd 0 (\<lambda>c. c\<lparr>usage := 0\<rparr>))
      (kthen (con_upd 0 (\<lambda>c. c\<lparr>parent := 0\<rparr>)) (kthen (con_upd 0 (\<lambda>c. c\<lparr>nchildren := 0\<rparr>))
      (con_upd 0 (\<lambda>c. c\<lparr>used := 1\<rparr>)))))))) Q u"
    if "NUM_PAGES u \<le> AT_SIZE" and "\<And>q. unat q = card (free_upto u (NUM_PAGES u)) \<Longrightarrow>
      Q () (u\<lparr>CONTAINER := (CONTAINER u)(0 := \<lparr>quota = q, usage = 0, parent = 0, nchildren = 0, used = 1\<rparr>)\<rparr>)" for u
    using that(2) by (auto simp: wp get_nps_def fresh intro!: kwp_mono [OF count_quota_wp [OF that(1)]])
  show ?thesis
    unfolding container_init_def kwp_kthen [of "pmem_init devinit"]
  proof (rule pmem_init_wp [OF dev])
    fix t :: "'a mcontainer_scheme" and nps
    assume t: "table_ok t" "P t" "nps \<le> AT_SIZE" "\<forall>p \<in> set (pmmap_list t). pm_end p div PAGESIZE < nps"
    show "kwp (kbind get_nps (\<lambda>nps. kbind (count_quota nps) (\<lambda>q.
      kthen (con_upd 0 (\<lambda>c. c\<lparr>quota := q\<rparr>)) (kthen (con_upd 0 (\<lambda>c. c\<lparr>usage := 0\<rparr>))
      (kthen (con_upd 0 (\<lambda>c. c\<lparr>parent := 0\<rparr>)) (kthen (con_upd 0 (\<lambda>c. c\<lparr>nchildren := 0\<rparr>))
      (con_upd 0 (\<lambda>c. c\<lparr>used := 1\<rparr>))))))))
      Q (t\<lparr>mem_lk := spinlock_init, NUM_PAGES := nps,
        AT := \<lambda>i. if i < nps then \<lparr>perm = page_perm (pmmap_list t) i, allocated = 0\<rparr> else AT t i\<rparr>)"
      using t(3) post [OF t] by (intro tail) (simp_all add: Let_def)
  qed
qed

lemma mboot_only_CONTAINER: "mboot_only s t \<Longrightarrow> CONTAINER t = CONTAINER s"
  unfolding mboot_only_def by (erule ssubst) simp

section \<open>Properties\<close>


text \<open>
  C26: container_split keeps the tree invariant when its caller has checked the quota and the number
  of children as sys_spawn does: the call returns, the new container was not in use, it is a
  child of the caller with the requested quota, and only these two table rows change.
\<close>

theorem container_split_tree:
  assumes "container_ok (CONTAINER s)" and "i \<in> in_use (CONTAINER s)"
    and "i * MAX_CHILDREN + 1 + MAX_CHILDREN \<le> NUM_IDS" and "nchildren (CONTAINER s i) \<noteq> MAX_CHILDREN"
    and "unat (usage (CONTAINER s i)) + unat q \<le> unat (quota (CONTAINER s i))"
  shows "kwp (container_split i q) (\<lambda>c t. container_ok (CONTAINER t) \<and>
      c \<notin> in_use (CONTAINER s) \<and> in_use (CONTAINER t) = insert c (in_use (CONTAINER s)) \<and>
      parent (CONTAINER t c) = i \<and> quota (CONTAINER t c) = q \<and>
      (\<forall>j. j \<noteq> c \<longrightarrow> j \<noteq> i \<longrightarrow> CONTAINER t j = CONTAINER s j)) s"
proof -
  let ?C = "CONTAINER s" and ?c = "i * MAX_CHILDREN + 1 + nchildren (CONTAINER s i)"
  have nc: "nchildren (?C i) < MAX_CHILDREN"
    using container_okD(1) [OF assms(1,2)] assms(4) by simp
  have i: "i < NUM_IDS" using assms(2) by (simp add: in_use_def)
  have c: "?c < NUM_IDS"
    using unat_child [OF i, of "nchildren (?C i)"] unat_child [OF i, of MAX_CHILDREN] nc assms(3)
    by (simp add: word_less_nat_alt word_le_nat_alt)
  have fresh: "?c \<notin> in_use ?C" using child_fresh [OF assms(1,2) nc] .
  have ne: "?c \<noteq> i" using fresh assms(2) by metis
  define c where "c = ?c"
  have "in_use (split_table i q ?C) = insert c (in_use ?C)"
    using c assms(2) ne by (auto simp: split_table_def in_use_def Let_def c_def [symmetric])
  then show ?thesis
    using split_table_ok [OF assms(1,2) nc c assms(5)] fresh c ne i
    unfolding c_def [symmetric]
    by (intro container_split_wp [of _ c]) (auto simp: c_def split_table_def Let_def)
qed

text \<open>
  C27: container_alloc respects the quota on every branch: it returns 0 without a change when the
  container is full; otherwise it charges exactly one page, takes the next free page or returns 0
  when there is none, and the tree invariant and the allocator's invariant still hold.
\<close>

theorem container_alloc_correct:
  assumes "container_ok (CONTAINER s)" and "i \<in> in_use (CONTAINER s)" and "mat_ok s"
  shows "kwp (container_alloc i) (\<lambda>r t. container_ok (CONTAINER t) \<and> mat_ok t \<and>
      (if usage (CONTAINER s i) = quota (CONTAINER s i) then r = 0 \<and> t = s
       else next_free s r \<and> AT t = AT (palloc_result s r) \<and>
         CONTAINER t = (CONTAINER s)(i := (CONTAINER s i)\<lparr>usage := usage (CONTAINER s i) + 1\<rparr>))) s"
proof (rule container_alloc_wp)
  show "i < NUM_IDS" using assms(2) by (simp add: in_use_def)
qed (use assms container_alloc_tree [OF assms(1,2)] in \<open>auto simp: palloc_result_ok\<close>)

text \<open>
  C28: container_alloc charges the container even when no page could be allocated: with room in
  the quota and no free page above the remembered index it returns 0 and the usage grows by one.
\<close>

theorem container_alloc_charges_failure:
  assumes "i < NUM_IDS" and "mat_ok s" and "usage (CONTAINER s i) \<noteq> quota (CONTAINER s i)"
    and "\<forall>j > last_palloc_index s. \<not> free_page s j"
  shows "kwp (container_alloc i) (\<lambda>r t. r = 0 \<and> AT t = AT s \<and>
      usage (CONTAINER t i) = usage (CONTAINER s i) + 1) s"
  using assms
  by (intro container_alloc_wp) (auto simp: next_free_def palloc_result_def split: if_splits)

text \<open>
  container_can_consume decides the quota question for every request that does not wrap around
  32 bits: its answer is 1 exactly when usage plus the request is at most the quota.
\<close>

theorem container_can_consume_correct:
  assumes "i < NUM_IDS" and "unat (usage (CONTAINER s i)) + unat n < 2 ^ 32"
  shows "container_can_consume i n s =
    Inr (if unat (usage (CONTAINER s i)) + unat n \<le> unat (quota (CONTAINER s i)) then 1 else 0, s)"
proof -
  have "kwp (container_can_consume i n) (\<lambda>r t. t = s \<and>
      r = (if unat (usage (CONTAINER s i)) + unat n \<le> unat (quota (CONTAINER s i)) then 1 else 0)) s"
    using assms by (auto simp: container_can_consume_def wp word_less_nat_alt unat_word_ariths)
  then show ?thesis by (auto elim!: kwpE)
qed

text \<open>
  C29: A wrapping request is accepted: a container that uses at least one page is told that it can
  consume 2^32 minus its usage more pages, whatever its quota.
\<close>

theorem container_can_consume_wraps:
  assumes "i < NUM_IDS"
  shows "container_can_consume i (- usage (CONTAINER s i)) s = Inr (1, s)"
proof -
  have "kwp (container_can_consume i (- usage (CONTAINER s i))) (\<lambda>r t. t = s \<and> r = 1) s"
    using assms by (auto simp: container_can_consume_def wp)
  then show ?thesis by (auto elim!: kwpE)
qed

text \<open>
  container_init on top of pmmap_init gives the root container a quota equal to the number of
  pages the allocator can hand out, and starts a table that satisfies the tree invariant.
\<close>

theorem container_init_quota:
  assumes "pmmap_slots_next_free s = 0" and "pmmap_nentries s = 0" and "length rows \<le> 128"
    and "mm_type ` set rows \<subseteq> {MEM_RAM, MEM_RESERVED, MEM_ACPI, MEM_NVS}"
    and "\<forall>i < NUM_IDS. used (CONTAINER s i) = 0"
  shows "kwp (container_init (pmmap_init rows)) (\<lambda>_ t. container_ok (CONTAINER t) \<and>
      unat (quota (CONTAINER t 0)) = card {i. free_page t i} \<and> in_use (CONTAINER t) = {0}) s"
proof -
  have dev: "kwp (pmmap_init rows) (\<lambda>_ t. table_ok t \<and> CONTAINER t = CONTAINER s) s"
    using assms(2)
    by (intro kwp_mono [OF pmmap_init_wp [OF assms(1,3,4)]]) (auto simp: table_ok_def mboot_only_CONTAINER)
  have root: "container_ok C \<and> in_use C = {0}"
    if "C = (CONTAINER s)(0 := \<lparr>quota = q, usage = 0, parent = 0, nchildren = 0, used = 1\<rparr>)" for C q
  proof -
    have use: "in_use C = {0}" using that assms(5) by (auto simp: in_use_def)
    have "children C 0 = {}" using that by (simp add: children_def)
    then show ?thesis using that use by (simp add: container_ok_def granted_def)
  qed
  show ?thesis
    by (rule container_init_wp [OF dev])
       (auto simp: Let_def root [OF refl] free_upto_def free_page_def page_perm_def word_gt_0
         intro!: arg_cong [where f = card])
qed

section \<open>Witnesses\<close>

text \<open>A root with eight free pages in its quota, one of them used and four given to a child.\<close>

definition con_demo :: mcontainer where
  "con_demo = mat.extend mat_demo
     \<lparr>CONTAINER = (\<lambda>_. \<lparr>quota = 0, usage = 0, parent = 0, nchildren = 0, used = 0\<rparr>)
        (0 := \<lparr>quota = 8, usage = 5, parent = 0, nchildren = 1, used = 1\<rparr>,
         1 := \<lparr>quota = 4, usage = 2, parent = 0, nchildren = 0, used = 1\<rparr>)\<rparr>"

lemma con_demo_rows:
  "CONTAINER con_demo 0 = \<lparr>quota = 8, usage = 5, parent = 0, nchildren = 1, used = 1\<rparr>"
  "CONTAINER con_demo 1 = \<lparr>quota = 4, usage = 2, parent = 0, nchildren = 0, used = 1\<rparr>"
  by (simp_all add: con_demo_def mat.defs)

lemma con_demo_in_use: "in_use (CONTAINER con_demo) = {0, 1}"
  by (auto simp: in_use_def con_demo_def mat.defs split: if_splits)

lemma less_one_u32: "(k :: u32) < 1 \<longleftrightarrow> k = 0"
  by (simp add: word_less_nat_alt unat_eq_0)

lemma con_demo_children:
  "children (CONTAINER con_demo) 0 = {1}" "children (CONTAINER con_demo) 1 = {}"
  by (auto simp: children_def con_demo_def mat.defs less_one_u32)

lemma con_demo_ok: "container_ok (CONTAINER con_demo)"
  unfolding container_ok_def con_demo_in_use granted_def
  by (simp add: con_demo_children con_demo_rows)

lemma con_demo_mat_ok: "mat_ok con_demo"
  using mat_demo_ok by (simp add: con_demo_def mat_ok_def mat.defs)


theorem container_split_tree_witness:
  "kwp (container_split 0 3) (\<lambda>c t. container_ok (CONTAINER t) \<and>
      c \<notin> in_use (CONTAINER con_demo) \<and> in_use (CONTAINER t) = insert c (in_use (CONTAINER con_demo)) \<and>
      parent (CONTAINER t c) = 0 \<and> quota (CONTAINER t c) = 3 \<and>
      (\<forall>j. j \<noteq> c \<longrightarrow> j \<noteq> 0 \<longrightarrow> CONTAINER t j = CONTAINER con_demo j)) con_demo"
  by (rule container_split_tree [OF con_demo_ok])
     (simp_all add: con_demo_in_use con_demo_rows)

theorem container_alloc_correct_witness:
  "kwp (container_alloc 1) (\<lambda>r t. container_ok (CONTAINER t) \<and> mat_ok t \<and>
      (if usage (CONTAINER con_demo 1) = quota (CONTAINER con_demo 1) then r = 0 \<and> t = con_demo
       else next_free con_demo r \<and> AT t = AT (palloc_result con_demo r) \<and>
         CONTAINER t = (CONTAINER con_demo)(1 := (CONTAINER con_demo 1)\<lparr>usage := usage (CONTAINER con_demo 1) + 1\<rparr>)))
    con_demo"
  by (rule container_alloc_correct [OF con_demo_ok _ con_demo_mat_ok]) (simp add: con_demo_in_use)

theorem container_alloc_charges_failure_witness:
  "kwp (container_alloc 1) (\<lambda>r t. r = 0 \<and> AT t = AT (con_demo\<lparr>last_palloc_index := 0x40007\<rparr>) \<and>
      usage (CONTAINER t 1) = usage (CONTAINER (con_demo\<lparr>last_palloc_index := 0x40007\<rparr>) 1) + 1)
    (con_demo\<lparr>last_palloc_index := 0x40007\<rparr>)"
proof (rule container_alloc_charges_failure)
  show "mat_ok (con_demo\<lparr>last_palloc_index := 0x40007\<rparr>)"
    using con_demo_mat_ok by (simp add: mat_ok_def)
  have "\<not> free_page (con_demo\<lparr>last_palloc_index := 0x40007\<rparr>) j" if "0x40007 < j" for j
  proof -
    have "\<not> j < 0x40008" using that inc_le [of "0x40007 :: u32" j] by auto
    then show ?thesis by (auto simp: free_page_def con_demo_def mat_demo_def mat.defs mboot_state.defs)
  qed
  then show "\<forall>j > last_palloc_index (con_demo\<lparr>last_palloc_index := 0x40007\<rparr>).
      \<not> free_page (con_demo\<lparr>last_palloc_index := 0x40007\<rparr>) j" by simp
qed (simp_all add: con_demo_def mat.defs)

theorem container_can_consume_correct_witness:
  "container_can_consume 1 2 con_demo = Inr (1, con_demo) \<and>
   container_can_consume 1 3 con_demo = Inr (0, con_demo)"
  using container_can_consume_correct [of 1 con_demo 2] container_can_consume_correct [of 1 con_demo 3]
  by (simp add: con_demo_rows)

theorem container_can_consume_wraps_witness:
  "container_can_consume 1 (- 2) con_demo = Inr (1, con_demo) \<and> quota (CONTAINER con_demo 1) = 4"
  using container_can_consume_wraps [of 1 con_demo] by (simp add: con_demo_rows)

theorem container_init_quota_witness:
  "kwp (container_init (pmmap_init mmap_demo)) (\<lambda>_ t. container_ok (CONTAINER t) \<and>
      unat (quota (CONTAINER t 0)) = card {i. free_page t i} \<and> in_use (CONTAINER t) = {0})
    (con_demo\<lparr>CONTAINER := (\<lambda>_. \<lparr>quota = 0, usage = 0, parent = 0, nchildren = 0, used = 0\<rparr>)\<rparr>)"
  by (rule container_init_quota)
     (simp_all add: con_demo_def mat_demo_def mboot_demo_def mmap_demo_def cpu_demo_def
        mat.defs mboot_state.defs cpu_state.defs)

end
