(* ===== verification/Memory.thy ===== *)
theory Memory
  imports Kernel_Prelude
begin

text \<open>
  Byte-addressed memory and the memory routines of kern/lib/string.c (user/lib/string.c has the
  same text). The inline assembly is modelled by the string instructions it consists of:
  \<^verbatim>\<open>rep stosb/stosl\<close> and \<^verbatim>\<open>rep movsb/movsl\<close> with the direction flag clear or set, one element
  after the other, so that overlap of source and destination matters. A 32-bit access reads or
  writes four bytes, the least significant first.
\<close>

type_synonym memory = "u32 \<Rightarrow> u8"

definition load32 :: "memory \<Rightarrow> u32 \<Rightarrow> u32" where
  "load32 m a = ucast (m a) OR push_bit 8 (ucast (m (a + 1))) OR
     push_bit 16 (ucast (m (a + 2))) OR push_bit 24 (ucast (m (a + 3)))"

definition store32 :: "u32 \<Rightarrow> u32 \<Rightarrow> memory \<Rightarrow> memory" where
  "store32 a v m = m(a := ucast v, a + 1 := ucast (drop_bit 8 v),
     a + 2 := ucast (drop_bit 16 v), a + 3 := ucast (drop_bit 24 v))"

section \<open>The string instructions\<close>

fun rep_stosb :: "nat \<Rightarrow> u32 \<Rightarrow> u32 \<Rightarrow> memory \<Rightarrow> memory" where
  "rep_stosb 0 d c m = m"
| "rep_stosb (Suc n) d c m = rep_stosb n (d + 1) c (m(d := ucast c))"

fun rep_stosl :: "nat \<Rightarrow> u32 \<Rightarrow> u32 \<Rightarrow> memory \<Rightarrow> memory" where
  "rep_stosl 0 d c m = m"
| "rep_stosl (Suc n) d c m = rep_stosl n (d + 4) c (store32 d c m)"

fun rep_movsb :: "nat \<Rightarrow> u32 \<Rightarrow> u32 \<Rightarrow> memory \<Rightarrow> memory" where
  "rep_movsb 0 d s m = m"
| "rep_movsb (Suc n) d s m = rep_movsb n (d + 1) (s + 1) (m(d := m s))"

fun rep_movsl :: "nat \<Rightarrow> u32 \<Rightarrow> u32 \<Rightarrow> memory \<Rightarrow> memory" where
  "rep_movsl 0 d s m = m"
| "rep_movsl (Suc n) d s m = rep_movsl n (d + 4) (s + 4) (store32 d (load32 m s) m)"

fun std_rep_movsb :: "nat \<Rightarrow> u32 \<Rightarrow> u32 \<Rightarrow> memory \<Rightarrow> memory" where
  "std_rep_movsb 0 d s m = m"
| "std_rep_movsb (Suc n) d s m = std_rep_movsb n (d - 1) (s - 1) (m(d := m s))"

fun std_rep_movsl :: "nat \<Rightarrow> u32 \<Rightarrow> u32 \<Rightarrow> memory \<Rightarrow> memory" where
  "std_rep_movsl 0 d s m = m"
| "std_rep_movsl (Suc n) d s m = std_rep_movsl n (d - 4) (s - 4) (store32 d (load32 m s) m)"

section \<open>lib/string.c\<close>

definition memset :: "u32 \<Rightarrow> u32 \<Rightarrow> u32 \<Rightarrow> memory \<Rightarrow> memory" where
  "memset v c n m =
     (if n = 0 then m
      else if v mod 4 = 0 \<and> n mod 4 = 0 then
        let c = c AND 0xFF;
            c = push_bit 24 c OR push_bit 16 c OR push_bit 8 c OR c
        in rep_stosl (unat (n div 4)) v c m
      else rep_stosb (unat n) v c m)"

definition memmove :: "u32 \<Rightarrow> u32 \<Rightarrow> u32 \<Rightarrow> memory \<Rightarrow> memory" where
  "memmove dst src n m =
     (let s = src; d = dst in
      if s < d \<and> s + n > d then
        let s = s + n; d = d + n in
        if s mod 4 = 0 \<and> d mod 4 = 0 \<and> n mod 4 = 0
        then std_rep_movsl (unat (n div 4)) (d - 4) (s - 4) m
        else std_rep_movsb (unat n) (d - 1) (s - 1) m
      else
        if s mod 4 = 0 \<and> d mod 4 = 0 \<and> n mod 4 = 0
        then rep_movsl (unat (n div 4)) d s m
        else rep_movsb (unat n) d s m)"

definition memcpy :: "u32 \<Rightarrow> u32 \<Rightarrow> u32 \<Rightarrow> memory \<Rightarrow> memory" where
  "memcpy dst src n m = memmove dst src n m"

definition memzero :: "u32 \<Rightarrow> u32 \<Rightarrow> memory \<Rightarrow> memory" where
  "memzero v n m = memset v 0 n m"

text \<open>The difference of two bytes as the C \<^verbatim>\<open>int\<close> it is returned as.\<close>

definition byte_diff :: "u8 \<Rightarrow> u8 \<Rightarrow> int" where
  "byte_diff a b = uint a - uint b"

fun memcmp_loop :: "nat \<Rightarrow> u32 \<Rightarrow> u32 \<Rightarrow> memory \<Rightarrow> int" where
  "memcmp_loop 0 s1 s2 m = 0"
| "memcmp_loop (Suc n) s1 s2 m =
     (if m s1 \<noteq> m s2 then byte_diff (m s1) (m s2) else memcmp_loop n (s1 + 1) (s2 + 1) m)"

definition memcmp :: "u32 \<Rightarrow> u32 \<Rightarrow> u32 \<Rightarrow> memory \<Rightarrow> int" where
  "memcmp v1 v2 n m = memcmp_loop (unat n) v1 v2 m"

section \<open>32-bit accesses\<close>

lemma bit_word_iff_less: "bit (w :: 'a :: len word) n \<longleftrightarrow> n < LENGTH('a) \<and> bit w n"
  using bit_imp_le_length by blast

lemma load32_bytes:
  "ucast (load32 m a) = m a" "ucast (drop_bit 8 (load32 m a)) = m (a + 1)"
  "ucast (drop_bit 16 (load32 m a)) = m (a + 2)" "ucast (drop_bit 24 (load32 m a)) = m (a + 3)"
  by (rule bit_word_eqI; simp add: load32_def bit_simps; auto dest: bit_imp_le_length)+

lemma load32_store32_same: "load32 (store32 a v m) a = v"
proof -
  have ne: "a + 1 \<noteq> a" "a + 2 \<noteq> a" "a + 3 \<noteq> a" "a + 2 \<noteq> a + 1" "a + 3 \<noteq> a + 1" "a + 3 \<noteq> a + 2" for a :: u32
    by simp_all
  show ?thesis
  proof (rule bit_word_eqI)
    fix n
    assume "n < LENGTH(32)"
    then show "bit (load32 (store32 a v m) a) n \<longleftrightarrow> bit v n"
      by (cases "n < 8"; cases "n < 16"; cases "n < 24") (auto simp: load32_def store32_def bit_simps ne)
  qed
qed

lemma store32_load32_copy:
  "store32 d (load32 m s) m = m(d := m s, d + 1 := m (s + 1), d + 2 := m (s + 2), d + 3 := m (s + 3))"
  by (simp add: store32_def load32_bytes)

text \<open>Aligned words are equal or do not overlap.\<close>

definition aligned4 :: "u32 \<Rightarrow> bool" where
  "aligned4 a \<longleftrightarrow> a mod 4 = 0"

lemma unat_mod4: "unat (a mod 4 :: u32) = unat a mod 4"
  by (simp add: unat_mod)

lemma aligned4_nat: "aligned4 a \<longleftrightarrow> unat a mod 4 = 0"
  by (metis aligned4_def unat_mod4 unat_eq_0)

lemma unat_aligned_add:
  assumes "aligned4 a" and "k < 4"
  shows "unat (a + of_nat k) = unat a + k"
proof -
  have "unat a + k < 4294967296"
    using assms unat_u32_less [of a] unfolding aligned4_nat by presburger
  moreover have "unat (of_nat k :: u32) = k" using assms(2) by (simp add: unat_of_nat_u32)
  ultimately show ?thesis by (simp add: unat_word_ariths)
qed

lemma aligned4_inj:
  assumes "aligned4 a" "aligned4 b" "k < 4" "l < 4" "a + of_nat k = b + of_nat l"
  shows "a = b \<and> k = l"
proof -
  have "unat a + k = unat b + l"
    using assms unat_aligned_add [of a k] unat_aligned_add [of b l] by simp
  then have "unat a = unat b \<and> k = l"
    using assms(1-4) unfolding aligned4_nat by presburger
  then show ?thesis by (simp add: word_unat_eq_iff)
qed

lemma load32_store32_other:
  assumes "aligned4 a" "aligned4 b" "a \<noteq> b"
  shows "load32 (store32 a v m) b = load32 m b"
proof -
  have "b + of_nat l \<noteq> a + of_nat k" if "k < 4" "l < 4" for k l
    using aligned4_inj [OF assms(1,2) that] assms(3) by metis
  from this [of 0 0] this [of 0 1] this [of 0 2] this [of 0 3]
    this [of 1 0] this [of 1 1] this [of 1 2] this [of 1 3]
    this [of 2 0] this [of 2 1] this [of 2 2] this [of 2 3]
    this [of 3 0] this [of 3 1] this [of 3 2] this [of 3 3]
  show ?thesis by (simp add: load32_def store32_def)
qed

lemma store32_same_addr: "store32 a v m b = m b" if "b \<noteq> a" "b \<noteq> a + 1" "b \<noteq> a + 2" "b \<noteq> a + 3"
  using that by (simp add: store32_def)

section \<open>The routines against their specification\<close>

definition in_range :: "u32 \<Rightarrow> nat \<Rightarrow> u32 \<Rightarrow> bool" where
  "in_range d n a \<longleftrightarrow> unat d \<le> unat a \<and> unat a < unat d + n"

text \<open>What a copy ought to do: the destination range gets the old contents of the source range.\<close>

definition copied :: "u32 \<Rightarrow> u32 \<Rightarrow> nat \<Rightarrow> memory \<Rightarrow> memory" where
  "copied d s n m = (\<lambda>a. if in_range d n a then m (s + (a - d)) else m a)"

definition filled :: "u32 \<Rightarrow> u8 \<Rightarrow> nat \<Rightarrow> memory \<Rightarrow> memory" where
  "filled d c n m = (\<lambda>a. if in_range d n a then c else m a)"

lemma in_range_0 [simp]: "\<not> in_range d 0 a"
  by (simp add: in_range_def)

lemma unat_range:
  assumes "in_range d n a" and "unat s + n \<le> 4294967296"
  shows "unat (s + (a - d)) = unat s + (unat a - unat d)"
proof -
  have "unat (a - d) = unat a - unat d" using assms(1) by (simp add: in_range_def unat_sub word_le_nat_alt)
  moreover have "unat s + (unat a - unat d) < 4294967296" using assms by (auto simp: in_range_def)
  ultimately show ?thesis by (simp add: unat_word_ariths)
qed

lemma in_range_Suc:
  assumes "unat d + Suc n \<le> 4294967296"
  shows "in_range d (Suc n) a \<longleftrightarrow> a = d \<or> (n \<noteq> 0 \<and> in_range (d + 1) n a)"
proof (cases "n = 0")
  case True
  then show ?thesis by (auto simp: in_range_def word_unat_eq_iff)
next
  case False
  then have "unat (d + 1) = unat d + 1" using assms by (simp add: unat_word_ariths)
  with False show ?thesis by (auto simp: in_range_def word_unat_eq_iff)
qed

lemma rep_stosb_filled:
  "unat d + n \<le> 4294967296 \<Longrightarrow> rep_stosb n d c m = filled d (ucast c) n m"
proof (induction n arbitrary: d m)
  case 0
  then show ?case by (simp add: filled_def)
next
  case (Suc n)
  show ?case
  proof (cases "n = 0")
    case True
    with in_range_Suc [OF Suc.prems] show ?thesis by (auto simp: filled_def fun_eq_iff)
  next
    case False
    then have "unat (d + 1) + n \<le> 4294967296" using Suc.prems by (simp add: unat_word_ariths)
    then show ?thesis
      using False in_range_Suc [OF Suc.prems] by (auto simp: Suc.IH filled_def fun_eq_iff)
  qed
qed

lemma rep_movsb_copied:
  assumes "unat d + n \<le> 4294967296" and "unat s + n \<le> 4294967296"
    and "d \<le> s \<or> unat s + n \<le> unat d"
  shows "rep_movsb n d s m = copied d s n m"
  using assms
proof (induction n arbitrary: d s m)
  case 0
  then show ?case by (simp add: copied_def)
next
  case (Suc n)
  note rng = in_range_Suc [OF Suc.prems(1)]
  show ?case
  proof (cases "n = 0")
    case True
    with rng show ?thesis by (auto simp: copied_def fun_eq_iff)
  next
    case False
    have u: "unat (d + 1) = unat d + 1" "unat (s + 1) = unat s + 1"
      using False Suc.prems by (simp_all add: unat_word_ariths)
    have IH: "rep_movsb n (d + 1) (s + 1) m' = copied (d + 1) (s + 1) n m'" for m'
      using Suc.prems u by (intro Suc.IH) (auto simp: word_le_nat_alt)
    have "s + (a - d) \<noteq> d" if "in_range (d + 1) n a" for a
    proof
      assume eq: "s + (a - d) = d"
      have "in_range d (Suc n) a" using that rng False by simp
      then have "unat (s + (a - d)) = unat s + (unat a - unat d)"
        using Suc.prems(2) by (rule unat_range)
      then have "unat d = unat s + (unat a - unat d)" unfolding eq .
      with that u Suc.prems(3) show False by (auto simp: in_range_def word_le_nat_alt)
    qed
    moreover have "s + 1 + (a - (d + 1)) = s + (a - d)" for a by simp
    ultimately show ?thesis
      using False rng by (auto simp: IH copied_def fun_eq_iff in_range_def u)
  qed
qed

text \<open>Backwards: the last of \<open>n + 1\<close> bytes is moved first.\<close>

lemma std_rep_movsb_copied:
  assumes "unat d + n \<le> 4294967296" and "unat s + n \<le> 4294967296" and "s \<le> d"
  shows "std_rep_movsb n (d + of_nat n - 1) (s + of_nat n - 1) m = copied d s n m"
  using assms(1,2)
proof (induction n arbitrary: m)
  case 0
  then show ?case by (simp add: copied_def)
next
  case (Suc n)
  let ?D = "d + of_nat n"
  have n: "unat (of_nat n :: u32) = n" using Suc.prems by (simp add: unat_of_nat_u32)
  have D: "unat ?D = unat d + n" using Suc.prems n by (simp add: unat_word_ariths)
  have rng: "in_range d (Suc n) a \<longleftrightarrow> a = ?D \<or> in_range d n a" for a
    using D by (auto simp: in_range_def word_unat_eq_iff)
  have "s + (a - d) \<noteq> ?D" if "in_range d n a" for a
  proof
    assume eq: "s + (a - d) = ?D"
    have "unat (s + (a - d)) = unat s + (unat a - unat d)"
      using that Suc.prems(2) by (intro unat_range [of d n]) auto
    then have "unat d + n = unat s + (unat a - unat d)" unfolding eq D .
    with that assms(3) show False by (auto simp: in_range_def word_le_nat_alt)
  qed
  moreover have "\<not> in_range d n ?D" using D by (simp add: in_range_def)
  moreover have "std_rep_movsb (Suc n) (d + of_nat (Suc n) - 1) (s + of_nat (Suc n) - 1) m =
      copied d s n (m(?D := m (s + of_nat n)))"
    using Suc by (simp add: algebra_simps)
  ultimately show ?case
    using rng by (auto simp: copied_def fun_eq_iff)
qed

lemma aligned4_neq:
  assumes "aligned4 a" "aligned4 b"
  shows "a + 1 \<noteq> b" "a + 2 \<noteq> b" "a + 3 \<noteq> b" "a + 2 \<noteq> b + 1" "a + 3 \<noteq> b + 1" "a + 3 \<noteq> b + 2"
    "a \<noteq> b + 1" "a \<noteq> b + 2" "a \<noteq> b + 3" "a + 1 \<noteq> b + 2" "a + 1 \<noteq> b + 3" "a + 2 \<noteq> b + 3"
  using aligned4_inj [OF assms, of 1 0] aligned4_inj [OF assms, of 2 0] aligned4_inj [OF assms, of 3 0]
    aligned4_inj [OF assms, of 2 1] aligned4_inj [OF assms, of 3 1] aligned4_inj [OF assms, of 3 2]
    aligned4_inj [OF assms, of 0 1] aligned4_inj [OF assms, of 0 2] aligned4_inj [OF assms, of 0 3]
    aligned4_inj [OF assms, of 1 2] aligned4_inj [OF assms, of 1 3] aligned4_inj [OF assms, of 2 3]
  by auto

lemma aligned4_dvd: "aligned4 a \<longleftrightarrow> 4 dvd unat a"
  by (simp add: aligned4_nat mod_eq_0_iff_dvd)

lemma aligned4_add: "aligned4 a \<Longrightarrow> aligned4 b \<Longrightarrow> aligned4 (a + b)"
  unfolding aligned4_dvd unat_word_ariths by (rule dvd_mod) simp_all

lemma aligned4_step: "aligned4 a \<Longrightarrow> aligned4 (a + 4)" "aligned4 a \<Longrightarrow> aligned4 (a - 4)"
  using aligned4_add [of a 4] aligned4_add [of a "- 4"] by (simp_all add: aligned4_def)

lemma rep_movsl_movsb: "aligned4 d \<Longrightarrow> aligned4 s \<Longrightarrow> rep_movsl n d s m = rep_movsb (4 * n) d s m"
proof (induction n arbitrary: d s m)
  case (Suc n)
  have "rep_movsb (Suc (Suc (Suc (Suc (4 * n))))) d s m = rep_movsb (4 * n) (d + 4) (s + 4) (store32 d (load32 m s) m)"
    using aligned4_neq [OF Suc.prems(2,1)] by (simp add: store32_load32_copy algebra_simps)
  moreover have "4 * Suc n = Suc (Suc (Suc (Suc (4 * n))))" by simp
  ultimately show ?case
    using Suc.IH [OF aligned4_step(1) [OF Suc.prems(1)] aligned4_step(1) [OF Suc.prems(2)]]
    by (simp only: rep_movsl.simps)
qed simp

lemma std_rep_movsl_movsb:
  "aligned4 d \<Longrightarrow> aligned4 s \<Longrightarrow> std_rep_movsl n d s m = std_rep_movsb (4 * n) (d + 3) (s + 3) m"
proof (induction n arbitrary: d s m)
  case (Suc n)
  have "std_rep_movsb (Suc (Suc (Suc (Suc (4 * n))))) (d + 3) (s + 3) m =
      std_rep_movsb (4 * n) (d - 4 + 3) (s - 4 + 3)
        (m(d + 3 := m (s + 3), d + 2 := m (s + 2), d + 1 := m (s + 1), d := m s))"
    using aligned4_neq [OF Suc.prems(2,1)] by (simp add: algebra_simps)
  moreover have "m(d + 3 := m (s + 3), d + 2 := m (s + 2), d + 1 := m (s + 1), d := m s) =
      store32 d (load32 m s) m"
    by (auto simp: store32_load32_copy fun_eq_iff)
  moreover have "4 * Suc n = Suc (Suc (Suc (Suc (4 * n))))" by simp
  ultimately show ?case
    using Suc.IH [OF aligned4_step(2) [OF Suc.prems(1)] aligned4_step(2) [OF Suc.prems(2)]]
    by (simp only: std_rep_movsl.simps)
qed simp

lemma mod4_aligned: "a mod 4 = 0 \<longleftrightarrow> aligned4 (a :: u32)"
  by (simp add: aligned4_def)

lemma quarter: "aligned4 n \<Longrightarrow> 4 * unat (n div 4) = unat n"
  unfolding aligned4_dvd by (simp add: unat_div)

lemma memmove_copied:
  assumes "unat dst + unat n \<le> 4294967296" and "unat src + unat n \<le> 4294967296"
  shows "memmove dst src n m = copied dst src (unat n) m"
proof (cases "src < dst \<and> src + n > dst")
  case True
  have bwd: "std_rep_movsb (unat n) (dst + n - 1) (src + n - 1) m = copied dst src (unat n) m"
    using std_rep_movsb_copied [OF assms, of m] True by (simp add: less_imp_le)
  moreover have "std_rep_movsl (unat (n div 4)) (dst + n - 4) (src + n - 4) m =
      std_rep_movsb (unat n) (dst + n - 1) (src + n - 1) m"
    if "aligned4 (src + n)" "aligned4 (dst + n)" "aligned4 n"
    using that by (simp add: std_rep_movsl_movsb aligned4_step quarter)
  ultimately show ?thesis
    using True by (simp add: memmove_def Let_def mod4_aligned)
next
  case False
  have "dst \<le> src \<or> unat src + unat n \<le> unat dst"
  proof (cases "src < dst")
    case True
    then have "unat (src + n) = unat src + unat n"
      using assms(1) by (simp add: unat_word_ariths word_less_nat_alt)
    with True False show ?thesis by (simp add: word_less_nat_alt word_le_nat_alt)
  qed (simp add: not_less)
  then have fwd: "rep_movsb (unat n) dst src m = copied dst src (unat n) m"
    using assms by (intro rep_movsb_copied)
  then show ?thesis
    using False by (auto simp: memmove_def Let_def mod4_aligned rep_movsl_movsb quarter)
qed

text \<open>The word that \<^verbatim>\<open>stosl\<close> stores consists of four times the same byte.\<close>

lemma store32_byte:
  assumes "b = c AND 0xFF"
  shows "store32 d (push_bit 24 b OR push_bit 16 b OR push_bit 8 b OR b) m =
     m(d := ucast c, d + 1 := ucast c, d + 2 := ucast c, d + 3 := ucast c)"
proof -
  have "bit (0xFF :: u32) n \<longleftrightarrow> n < 8" for n
    using bit_mask_iff [of 8 n, where ?'a = "32 word"] by (auto simp: mask_eq_exp_minus_1)
  then show ?thesis
    unfolding store32_def assms
    by (intro arg_cong2 [where f = "\<lambda>f v. f(_ := v)"] refl bit_word_eqI; auto simp: bit_simps)
qed

lemma rep_stosl_stosb:
  assumes "b = c AND 0xFF" and "v = push_bit 24 b OR push_bit 16 b OR push_bit 8 b OR b"
  shows "rep_stosl n d v m = rep_stosb (4 * n) d c m"
proof (induction n arbitrary: d m)
  case (Suc n)
  have "rep_stosb (Suc (Suc (Suc (Suc (4 * n))))) d c m = rep_stosb (4 * n) (d + 4) c (store32 d v m)"
    unfolding assms(2) store32_byte [OF assms(1)] by (simp add: algebra_simps)
  moreover have "4 * Suc n = Suc (Suc (Suc (Suc (4 * n))))" by simp
  ultimately show ?case by (simp only: rep_stosl.simps Suc.IH)
qed simp

lemma memset_filled:
  assumes "unat v + unat n \<le> 4294967296"
  shows "memset v c n m = filled v (ucast c) (unat n) m"
proof -
  have "rep_stosb (unat n) v c m = filled v (ucast c) (unat n) m"
    using assms by (rule rep_stosb_filled)
  moreover have "rep_stosl (unat (n div 4)) v (push_bit 24 (c AND 0xFF) OR push_bit 16 (c AND 0xFF) OR
      push_bit 8 (c AND 0xFF) OR (c AND 0xFF)) m = rep_stosb (unat n) v c m" if "aligned4 n"
    by (simp only: rep_stosl_stosb [OF refl refl] quarter [OF that])
  then have "memset v c n m = rep_stosb (unat n) v c m"
    by (auto simp: memset_def Let_def mod4_aligned)
  ultimately show ?thesis by simp
qed

lemma memcmp_loop_zero:
  "memcmp_loop n p q m = 0 \<longleftrightarrow> (\<forall>i < n. m (p + of_nat i) = m (q + of_nat i))"
proof (induction n arbitrary: p q)
  case (Suc n)
  have "byte_diff (m p) (m q) \<noteq> 0" if "m p \<noteq> m q"
    using that by (simp add: byte_diff_def word_uint_eq_iff)
  then show ?case
    by (auto simp: Suc.IH less_Suc_eq_0_disj algebra_simps)
qed simp

section \<open>Properties\<close>

text \<open>
  C30: memmove (and memcpy, which calls it) copies as if through a buffer, whatever the overlap and
  the alignment of the ranges and in either direction of the string instruction, as long as
  neither range wraps around the address space.
\<close>

theorem memmove_correct:
  assumes "unat dst + unat n \<le> 2 ^ 32" and "unat src + unat n \<le> 2 ^ 32"
  shows "memmove dst src n m = copied dst src (unat n) m"
  using assms by (intro memmove_copied) simp_all

theorem memmove_correct_witness:
  "memmove 0x1002 0x1000 8 (\<lambda>a. ucast a) = copied 0x1002 0x1000 (unat (8 :: u32)) (\<lambda>a. ucast a) \<and>
   memmove 0x1002 0x1000 8 (\<lambda>a. ucast a) 0x1008 = 6"
proof -
  have "memmove 0x1002 0x1000 8 (\<lambda>a. ucast a) = copied 0x1002 0x1000 (unat (8 :: u32)) (\<lambda>a. ucast a)"
    by (rule memmove_correct) simp_all
  then show ?thesis by (simp add: copied_def in_range_def)
qed

text \<open>
  C31: memset stores the low byte of its argument in exactly the given range, on the word path and
  on the byte path.
\<close>

theorem memset_correct:
  assumes "unat v + unat n \<le> 2 ^ 32"
  shows "memset v c n m = filled v (ucast c) (unat n) m"
  using assms by (intro memset_filled) simp

theorem memset_correct_witness:
  "memset 0x1000 0x141 8 (\<lambda>_. 0) = filled 0x1000 (ucast (0x141 :: u32)) (unat (8 :: u32)) (\<lambda>_. 0) \<and>
   memset 0x1001 0x141 7 (\<lambda>_. 0) = filled 0x1001 (ucast (0x141 :: u32)) (unat (7 :: u32)) (\<lambda>_. 0)"
  using memset_correct [of "0x1000" 8 "0x141" "\<lambda>_. 0"] memset_correct [of "0x1001" 7 "0x141" "\<lambda>_. 0"]
  by simp

end
