(* ===== verification/MPT.thy ===== *)
theory MPT
  imports MContainer Memory
begin

text \<open>
  Page tables (kern/vmm: MPTIntro, MPTOp, MPTComm, MPTKern, MPTNew, MPTInit; the control register
  accesses of kern/dev/mboot.c).

  The page directories are the array \<open>PDirPool\<close>; second-level page tables, the identity table
  \<^verbatim>\<open>IDPTbl\<close> and all user pages live in the byte memory \<open>phys_mem\<close>. The kernel runs on the
  identity map, so its pointers are physical addresses. Where the linker puts \<^verbatim>\<open>IDPTbl\<close> and
  \<^verbatim>\<open>PDirPool\<close> is recorded in the two \<open>_addr\<close> fields, which no operation changes.
\<close>

abbreviation (input) PTE_P :: u32 where "PTE_P \<equiv> 1"
abbreviation (input) PTE_W :: u32 where "PTE_W \<equiv> 2"
abbreviation (input) PTE_U :: u32 where "PTE_U \<equiv> 4"
abbreviation (input) PTE_G :: u32 where "PTE_G \<equiv> 0x100"
abbreviation (input) PT_PERM_UP :: u32 where "PT_PERM_UP \<equiv> 0"
abbreviation (input) PT_PERM_PTU :: u32 where "PT_PERM_PTU \<equiv> 7"
abbreviation (input) MagicNumber :: u32 where "MagicNumber \<equiv> 1048577"

record mpt = mcontainer +
  pt_lk :: spinlock_t
  PDirPool :: "u32 \<Rightarrow> u32 \<Rightarrow> u32"
  phys_mem :: memory
  IDPTbl_addr :: u32
  PDirPool_addr :: u32
  cr0 :: u32
  cr3 :: u32
  cr4 :: u32

section \<open>MPTIntro\<close>

definition pt_spinlock_init :: "('a mpt_scheme, unit) kprog" where
  "pt_spinlock_init = kmodify (\<lambda>s. s\<lparr>pt_lk := spinlock_init\<rparr>)"

definition pt_spinlock_acquire :: "('a mpt_scheme, unit) kprog" where
  "pt_spinlock_acquire = spinlock_acquire pt_lk pt_lk_update"

definition pt_spinlock_release :: "('a mpt_scheme, unit) kprog" where
  "pt_spinlock_release = spinlock_release pt_lk pt_lk_update"

definition set_cr3 :: "u32 \<Rightarrow> ('a mpt_scheme, unit) kprog" where
  "set_cr3 pdir = kmodify (\<lambda>s. s\<lparr>cr3 := pdir\<rparr>)"

definition set_pdir_base :: "u32 \<Rightarrow> ('a mpt_scheme, unit) kprog" where
  "set_pdir_base i = kbind (kgets PDirPool_addr) (\<lambda>base. set_cr3 (base + i * PAGESIZE))"

definition get_pdir_entry :: "u32 \<Rightarrow> u32 \<Rightarrow> ('a mpt_scheme, u32) kprog" where
  "get_pdir_entry p d =
     kthen (kassert (p < NUM_IDS \<and> d < 1024) (Fault ''PDirPool'')) (kgets (\<lambda>s. PDirPool s p d))"

definition pdir_store :: "u32 \<Rightarrow> u32 \<Rightarrow> u32 \<Rightarrow> ('a mpt_scheme, unit) kprog" where
  "pdir_store p d v =
     kthen (kassert (p < NUM_IDS \<and> d < 1024) (Fault ''PDirPool''))
           (kmodify (\<lambda>s. s\<lparr>PDirPool := (PDirPool s)(p := (PDirPool s p)(d := v))\<rparr>))"

definition set_pdir_entry :: "u32 \<Rightarrow> u32 \<Rightarrow> u32 \<Rightarrow> ('a mpt_scheme, unit) kprog" where
  "set_pdir_entry p d page_index = pdir_store p d (page_index * PAGESIZE + PT_PERM_PTU)"

definition set_pdir_entry_identity :: "u32 \<Rightarrow> u32 \<Rightarrow> ('a mpt_scheme, unit) kprog" where
  "set_pdir_entry_identity p d =
     kbind (kgets IDPTbl_addr) (\<lambda>base. pdir_store p d (base + d * PAGESIZE + PT_PERM_PTU))"

definition rmv_pdir_entry :: "u32 \<Rightarrow> u32 \<Rightarrow> ('a mpt_scheme, unit) kprog" where
  "rmv_pdir_entry p d = pdir_store p d PT_PERM_UP"

text \<open>The address of entry \<open>j\<close> of the page table a directory entry points to.\<close>

definition ptbl_addr :: "u32 \<Rightarrow> u32 \<Rightarrow> u32" where
  "ptbl_addr pde j = (pde AND 0xfffff000) + j * 4"

definition get_ptbl_entry :: "u32 \<Rightarrow> u32 \<Rightarrow> u32 \<Rightarrow> ('a mpt_scheme, u32) kprog" where
  "get_ptbl_entry p d j =
     kbind (get_pdir_entry p d) (\<lambda>pde. kgets (\<lambda>s. load32 (phys_mem s) (ptbl_addr pde j)))"

definition mem_store32 :: "u32 \<Rightarrow> u32 \<Rightarrow> ('a mpt_scheme, unit) kprog" where
  "mem_store32 a v = kmodify (\<lambda>s. s\<lparr>phys_mem := store32 a v (phys_mem s)\<rparr>)"

definition set_ptbl_entry :: "u32 \<Rightarrow> u32 \<Rightarrow> u32 \<Rightarrow> u32 \<Rightarrow> u32 \<Rightarrow> ('a mpt_scheme, unit) kprog" where
  "set_ptbl_entry p d j page_index prm =
     kbind (get_pdir_entry p d) (\<lambda>pde. mem_store32 (ptbl_addr pde j) (page_index * PAGESIZE + prm))"

definition set_ptbl_entry_identity :: "u32 \<Rightarrow> u32 \<Rightarrow> u32 \<Rightarrow> ('a mpt_scheme, unit) kprog" where
  "set_ptbl_entry_identity d j prm =
     kthen (kassert (d < 1024 \<and> j < 1024) (Fault ''IDPTbl''))
     (kbind (kgets IDPTbl_addr) (\<lambda>base.
      mem_store32 (base + (d * 1024 + j) * 4) ((d * 1024 + j) * PAGESIZE + prm)))"

definition rmv_ptbl_entry :: "u32 \<Rightarrow> u32 \<Rightarrow> u32 \<Rightarrow> ('a mpt_scheme, unit) kprog" where
  "rmv_ptbl_entry p d j = kbind (get_pdir_entry p d) (\<lambda>pde. mem_store32 (ptbl_addr pde j) 0)"

section \<open>MPTOp\<close>

definition pde_of :: "u32 \<Rightarrow> u32" where "pde_of vaddr = vaddr div (4096 * 1024)"
definition pte_of :: "u32 \<Rightarrow> u32" where "pte_of vaddr = (vaddr div 4096) mod 1024"

definition get_ptbl_entry_by_va :: "u32 \<Rightarrow> u32 \<Rightarrow> ('a mpt_scheme, u32) kprog" where
  "get_ptbl_entry_by_va p vaddr =
     kbind (get_pdir_entry p (pde_of vaddr)) (\<lambda>pde.
     if pde = 0 then kreturn 0 else get_ptbl_entry p (pde_of vaddr) (pte_of vaddr))"

definition get_pdir_entry_by_va :: "u32 \<Rightarrow> u32 \<Rightarrow> ('a mpt_scheme, u32) kprog" where
  "get_pdir_entry_by_va p vaddr = get_pdir_entry p (pde_of vaddr)"

definition rmv_ptbl_entry_by_va :: "u32 \<Rightarrow> u32 \<Rightarrow> ('a mpt_scheme, unit) kprog" where
  "rmv_ptbl_entry_by_va p vaddr = rmv_ptbl_entry p (pde_of vaddr) (pte_of vaddr)"

definition rmv_pdir_entry_by_va :: "u32 \<Rightarrow> u32 \<Rightarrow> ('a mpt_scheme, unit) kprog" where
  "rmv_pdir_entry_by_va p vaddr = rmv_pdir_entry p (pde_of vaddr)"

definition set_ptbl_entry_by_va :: "u32 \<Rightarrow> u32 \<Rightarrow> u32 \<Rightarrow> u32 \<Rightarrow> ('a mpt_scheme, unit) kprog" where
  "set_ptbl_entry_by_va p vaddr page_index prm = set_ptbl_entry p (pde_of vaddr) (pte_of vaddr) page_index prm"

definition set_pdir_entry_by_va :: "u32 \<Rightarrow> u32 \<Rightarrow> u32 \<Rightarrow> ('a mpt_scheme, unit) kprog" where
  "set_pdir_entry_by_va p vaddr page_index = set_pdir_entry p (pde_of vaddr) page_index"

definition idptbl_row :: "u32 \<Rightarrow> ('a mpt_scheme, unit) kprog" where
  "idptbl_row i =
     (let prm = (if i < 256 \<or> i \<ge> 960 then PTE_P OR PTE_W OR PTE_G else PTE_P OR PTE_W)
      in kfor 0 1024 (\<lambda>j. set_ptbl_entry_identity i j prm))"

definition idptbl_init :: "('a mpt_scheme, unit) kprog \<Rightarrow> ('a mpt_scheme, unit) kprog" where
  "idptbl_init devinit = kthen (container_init devinit) (kfor 0 1024 idptbl_row)"

section \<open>MPTComm\<close>

definition pdir_row :: "u32 \<Rightarrow> ('a mpt_scheme, unit) kprog" where
  "pdir_row i =
     kfor 0 1024 (\<lambda>j. if j < 256 \<or> j \<ge> 960 then set_pdir_entry_identity i j else rmv_pdir_entry i j)"

definition pdir_init :: "('a mpt_scheme, unit) kprog \<Rightarrow> ('a mpt_scheme, unit) kprog" where
  "pdir_init devinit = kthen (idptbl_init devinit) (kfor 0 NUM_IDS pdir_row)"

definition alloc_ptbl :: "u32 \<Rightarrow> u32 \<Rightarrow> ('a mpt_scheme, u32) kprog" where
  "alloc_ptbl p vadr =
     kbind (container_alloc p) (\<lambda>pi.
     kthen (kwhen (pi \<noteq> 0)
       (kthen (set_pdir_entry_by_va p vadr pi)
              (kfor 0 1024 (\<lambda>i. rmv_ptbl_entry p (pde_of vadr) i))))
     (kreturn pi))"

definition free_ptbl :: "u32 \<Rightarrow> u32 \<Rightarrow> ('a mpt_scheme, unit) kprog" where
  "free_ptbl p vadr =
     kbind (get_pdir_entry_by_va p vadr) (\<lambda>pde.
     kthen (rmv_pdir_entry_by_va p vadr) (container_free p (pde div PAGESIZE)))"

section \<open>MPTKern, MPTNew, MPTInit\<close>

definition pdir_init_kern :: "('a mpt_scheme, unit) kprog \<Rightarrow> ('a mpt_scheme, unit) kprog" where
  "pdir_init_kern devinit = kthen (pdir_init devinit) (kfor 256 960 (set_pdir_entry_identity 0))"

definition map_page :: "u32 \<Rightarrow> u32 \<Rightarrow> u32 \<Rightarrow> u32 \<Rightarrow> ('a mpt_scheme, u32) kprog" where
  "map_page p vadr page_index prm =
     kbind (get_pdir_entry_by_va p vadr) (\<lambda>pdir_entry.
     kbind (if pdir_entry \<noteq> 0 then kreturn 0
            else kbind (alloc_ptbl p vadr) (\<lambda>r. kreturn (if r = 0 then MagicNumber else r))) (\<lambda>result.
     kthen (kwhen (result \<noteq> MagicNumber) (set_ptbl_entry_by_va p vadr page_index prm))
     (kreturn result)))"

definition unmap_page :: "u32 \<Rightarrow> u32 \<Rightarrow> ('a mpt_scheme, u32) kprog" where
  "unmap_page p vadr =
     kbind (get_ptbl_entry_by_va p vadr) (\<lambda>ptbl_entry.
     kthen (kwhen (ptbl_entry \<noteq> 0) (rmv_ptbl_entry_by_va p vadr)) (kreturn ptbl_entry))"

definition alloc_page :: "u32 \<Rightarrow> u32 \<Rightarrow> u32 \<Rightarrow> ('a mpt_scheme, u32) kprog" where
  "alloc_page p vaddr prm =
     kthen pt_spinlock_acquire
     (kbind (container_alloc p) (\<lambda>pi.
     kbind (if pi = 0 then kreturn MagicNumber else map_page p vaddr pi prm) (\<lambda>result.
     kthen pt_spinlock_release (kreturn result))))"

definition alloc_mem_quota :: "u32 \<Rightarrow> u32 \<Rightarrow> ('a mpt_scheme, u32) kprog" where
  "alloc_mem_quota i q = container_split i q"

definition enable_paging :: "('a mpt_scheme, unit) kprog" where
  "enable_paging =
     kthen (kmodify (\<lambda>s. s\<lparr>cr4 := cr4 s OR 0x80\<rparr>))
           (kmodify (\<lambda>s. s\<lparr>cr0 :=
             (cr0 s OR (1 OR 0x80000000 OR 0x40000 OR 0x10000 OR 0x20 OR 2)) AND NOT (4 OR 8)\<rparr>))"

definition paging_init :: "('a mpt_scheme, unit) kprog \<Rightarrow> ('a mpt_scheme, unit) kprog" where
  "paging_init devinit =
     kthen pt_spinlock_init
     (kthen (pdir_init_kern devinit)
     (kthen pt_spinlock_acquire
     (kthen (set_pdir_base 0)
     (kthen enable_paging
            pt_spinlock_release))))"

definition paging_init_ap :: "('a mpt_scheme, unit) kprog" where
  "paging_init_ap =
     kthen pt_spinlock_acquire
     (kthen (set_pdir_base 0)
     (kthen enable_paging
            pt_spinlock_release))"

section \<open>Addresses and pages\<close>

lemma page_base: "(x :: u32) AND 0xfffff000 = x div 4096 * 4096"
proof -
  have "x AND 0xfffff000 = push_bit 12 (drop_bit 12 x)"
  proof (rule bit_word_eqI)
    fix n
    assume n: "n < LENGTH(32)"
    have eq: "(0xfffff000 :: u32) = push_bit 12 (mask 20)" by (simp add: mask_eq_exp_minus_1 push_bit_eq_mult)
    have "bit (0xfffff000 :: u32) n \<longleftrightarrow> 12 \<le> n"
      unfolding eq using n by (auto simp: bit_simps)
    with n show "bit (x AND 0xfffff000) n = bit (push_bit 12 (drop_bit 12 x)) n"
      by (auto simp: bit_simps)
  qed
  then show ?thesis by (simp add: push_bit_eq_mult drop_bit_eq_div)
qed

definition page_no :: "u32 \<Rightarrow> bool" where "page_no pg \<longleftrightarrow> pg < AT_SIZE"

lemma unat_page_sum:
  assumes "page_no pg" and "k < 4096"
  shows "unat (pg * 4096 + k) = unat pg * 4096 + unat k"
  using assms by (simp add: page_no_def word_less_nat_alt unat_word_ariths)

lemma page_sum:
  assumes "page_no pg" and "k < 4096"
  shows "(pg * 4096 + k) div 4096 = pg" and "(pg * 4096 + k) mod 4096 = k"
    and "(pg * 4096 + k) AND 0xfffff000 = pg * 4096"
proof -
  show d: "(pg * 4096 + k) div 4096 = pg"
    using assms(2) unat_page_sum [OF assms] by (simp add: word_unat_eq_iff unat_div word_less_nat_alt)
  show "(pg * 4096 + k) mod 4096 = k"
    using assms(2) unat_page_sum [OF assms] by (simp add: word_unat_eq_iff unat_mod word_less_nat_alt)
  show "(pg * 4096 + k) AND 0xfffff000 = pg * 4096" by (simp add: page_base d)
qed

lemma page_no_div: "page_no (x div 4096)"
  using unat_u32_less [of x] by (simp add: page_no_def word_less_nat_alt unat_div)

definition entry_at :: "u32 \<Rightarrow> u32 \<Rightarrow> u32" where "entry_at pg j = pg * 4096 + j * 4"

lemma ptbl_addr_entry: "ptbl_addr pde j = entry_at (pde div 4096) j"
  by (simp add: ptbl_addr_def entry_at_def page_base)

lemma unat_entry_at:
  assumes "page_no pg" and "j < 1024"
  shows "unat (entry_at pg j) = unat pg * 4096 + unat j * 4"
  using assms by (simp add: entry_at_def page_no_def word_less_nat_alt unat_word_ariths)

lemma entry_at_aligned: "page_no pg \<Longrightarrow> j < 1024 \<Longrightarrow> aligned4 (entry_at pg j)"
  by (simp add: aligned4_dvd unat_entry_at)

lemma entry_at_inj:
  assumes "page_no pg" "page_no pg'" "j < 1024" "j' < 1024" "entry_at pg j = entry_at pg' j'"
  shows "pg = pg' \<and> j = j'"
proof -
  have eq: "unat pg * 4096 + unat j * 4 = unat pg' * 4096 + unat j' * 4"
    using assms by (metis unat_entry_at)
  have "unat j * 4 < 4096" "unat j' * 4 < 4096" using assms(3,4) by (simp_all add: word_less_nat_alt)
  then have "unat pg = unat pg'"
    using arg_cong [OF eq, of "\<lambda>x. x div 4096"] by simp
  with eq show ?thesis by (simp add: word_unat_eq_iff)
qed

text \<open>The four bytes of an entry lie in its page.\<close>

lemma entry_bytes_page:
  assumes "page_no pg" and "j < 1024" and "k < 4"
  shows "(entry_at pg j + of_nat k) div 4096 = pg"
proof -
  have "unat (entry_at pg j + of_nat k) = unat pg * 4096 + (unat j * 4 + k)"
    using unat_aligned_add [OF entry_at_aligned [OF assms(1,2)] assms(3)] unat_entry_at [OF assms(1,2)] by simp
  moreover have "unat j * 4 + k < 4096" using assms(2,3) by (simp add: word_less_nat_alt)
  ultimately show ?thesis by (simp add: word_unat_eq_iff unat_div)
qed

text \<open>Memories that agree outside one page.\<close>

definition same_outside :: "u32 \<Rightarrow> memory \<Rightarrow> memory \<Rightarrow> bool" where
  "same_outside pg m m' \<longleftrightarrow> (\<forall>a. a div 4096 \<noteq> pg \<longrightarrow> m' a = m a)"

lemma same_outside_refl [simp]: "same_outside pg m m"
  by (simp add: same_outside_def)

lemma same_outside_trans: "same_outside pg m m' \<Longrightarrow> same_outside pg m' m'' \<Longrightarrow> same_outside pg m m''"
  by (simp add: same_outside_def)

lemma load32_same_outside:
  assumes "same_outside pg m m'" and "pg' \<noteq> pg" and "page_no pg'" and "j < 1024"
  shows "load32 m' (entry_at pg' j) = load32 m (entry_at pg' j)"
proof -
  have "m' (entry_at pg' j + of_nat k) = m (entry_at pg' j + of_nat k)" if "k < 4" for k
    using assms entry_bytes_page [OF assms(3,4) that] by (simp add: same_outside_def)
  from this [of 0] this [of 1] this [of 2] this [of 3] show ?thesis by (simp add: load32_def)
qed

lemma store32_same_outside:
  assumes "page_no pg" and "j < 1024"
  shows "same_outside pg m (store32 (entry_at pg j) v m)"
proof -
  have "(entry_at pg j + of_nat k) div 4096 = pg" if "k < 4" for k
    using entry_bytes_page [OF assms that] .
  from this [of 0] this [of 1] this [of 2] this [of 3] show ?thesis
    unfolding same_outside_def by (auto intro!: store32_same_addr)
qed

lemma load32_entry_store:
  assumes "page_no pg" "page_no pg'" "j < 1024" "j' < 1024"
  shows "load32 (store32 (entry_at pg j) v m) (entry_at pg' j') =
    (if pg = pg' \<and> j = j' then v else load32 m (entry_at pg' j'))"
proof (cases "pg = pg' \<and> j = j'")
  case True
  then show ?thesis by (simp add: load32_store32_same)
next
  case False
  then have "entry_at pg j \<noteq> entry_at pg' j'" using entry_at_inj [OF assms] by blast
  with False show ?thesis
    by (auto simp: load32_store32_other entry_at_aligned assms)
qed

section \<open>The isolation invariant\<close>

text \<open>
  A user slot is a place in the page structures that may refer to a page of its own: a directory
  entry of the user range of a process other than 0, or an entry of the page table behind it.
\<close>

datatype slot = Dir u32 u32 | Leaf u32 u32 u32

definition user_dir :: "u32 \<Rightarrow> u32 \<Rightarrow> bool" where
  "user_dir p d \<longleftrightarrow> p < NUM_IDS \<and> p \<noteq> 0 \<and> 256 \<le> d \<and> d < 960"

fun entry_of :: "(u32 \<Rightarrow> u32 \<Rightarrow> u32) \<Rightarrow> memory \<Rightarrow> slot \<Rightarrow> u32" where
  "entry_of pd m (Dir p d) = pd p d"
| "entry_of pd m (Leaf p d j) = load32 m (entry_at (pd p d div 4096) j)"

fun live :: "(u32 \<Rightarrow> u32 \<Rightarrow> u32) \<Rightarrow> memory \<Rightarrow> slot \<Rightarrow> bool" where
  "live pd m (Dir p d) \<longleftrightarrow> user_dir p d \<and> pd p d \<noteq> 0"
| "live pd m (Leaf p d j) \<longleftrightarrow> user_dir p d \<and> pd p d \<noteq> 0 \<and> j < 1024 \<and>
     load32 m (entry_at (pd p d div 4096) j) \<noteq> 0"

definition page_at :: "(u32 \<Rightarrow> u32 \<Rightarrow> u32) \<Rightarrow> memory \<Rightarrow> slot \<Rightarrow> u32" where
  "page_at pd m x = entry_of pd m x div 4096"

definition id_perm :: "u32 \<Rightarrow> u32" where
  "id_perm d = (if d < 256 \<or> d \<ge> 960 then PTE_P OR PTE_W OR PTE_G else PTE_P OR PTE_W)"

text \<open>
  The invariant over the pages \<open>A\<close> that are allocated, the directories, the memory and the
  address of the identity table: directory entries outside the user range are the identity map,
  which is intact in kernel memory; every live slot refers to an allocated user page; and no
  page is referred to twice.
\<close>

definition vm_inv :: "u32 set \<Rightarrow> (u32 \<Rightarrow> u32 \<Rightarrow> u32) \<Rightarrow> memory \<Rightarrow> u32 \<Rightarrow> bool" where
  "vm_inv A pd m b \<longleftrightarrow>
     (\<forall>pg \<in> A. VM_USERLO_PI \<le> pg \<and> pg < VM_USERHI_PI) \<and>
     b mod 4096 = 0 \<and> b \<le> 0x3fc00000 \<and>
     (\<forall>p < NUM_IDS. \<forall>d < 1024. \<not> user_dir p d \<longrightarrow> pd p d = b + d * 4096 + PT_PERM_PTU) \<and>
     (\<forall>d < 1024. \<forall>j < 1024. load32 m (entry_at (b div 4096 + d) j) = (d * 1024 + j) * 4096 + id_perm d) \<and>
     (\<forall>p d. user_dir p d \<longrightarrow> pd p d \<noteq> 0 \<longrightarrow> pd p d mod 4096 = PT_PERM_PTU) \<and>
     (\<forall>x. live pd m x \<longrightarrow> page_at pd m x \<in> A) \<and>
     inj_on (page_at pd m) {x. live pd m x}"

definition used_pages :: "(u32 \<Rightarrow> u32 \<Rightarrow> u32) \<Rightarrow> memory \<Rightarrow> u32 set" where
  "used_pages pd m = page_at pd m ` {x. live pd m x}"

lemma vm_invD:
  assumes "vm_inv A pd m b"
  shows "pg \<in> A \<Longrightarrow> VM_USERLO_PI \<le> pg \<and> pg < VM_USERHI_PI \<and> page_no pg"
    and "live pd m x \<Longrightarrow> page_at pd m x \<in> A"
    and "live pd m x \<Longrightarrow> live pd m y \<Longrightarrow> page_at pd m x = page_at pd m y \<Longrightarrow> x = y"
    and "used_pages pd m \<subseteq> A"
  using assms by (auto simp: vm_inv_def inj_on_def used_pages_def page_no_def intro: less_trans)

text \<open>The identity table lies below the user pages.\<close>

lemma id_page:
  assumes "vm_inv A pd m b" and "d < 1024"
  shows "page_no (b div 4096 + d)" and "b div 4096 + d < VM_USERLO_PI"
proof -
  have "unat b \<le> 0x3fc00000" using assms(1) by (simp add: vm_inv_def word_le_nat_alt)
  then have "unat (b div 4096) \<le> 0x3fc00" by (simp add: unat_div)
  moreover have "unat d < 1024" using assms(2) by (simp add: word_less_nat_alt)
  ultimately have "unat (b div 4096 + d) < 0x40000" by (simp add: unat_word_ariths)
  then show "page_no (b div 4096 + d)" "b div 4096 + d < VM_USERLO_PI"
    by (simp_all add: page_no_def word_less_nat_alt)
qed

lemma vm_inv_mono:
  assumes "vm_inv A pd m b" and "A \<subseteq> A'" and "\<forall>pg \<in> A'. VM_USERLO_PI \<le> pg \<and> pg < VM_USERHI_PI"
  shows "vm_inv A' pd m b"
  using assms by (auto simp: vm_inv_def)

text \<open>A change of memory inside a page that is not a page table of any kind keeps the invariant.\<close>

lemma vm_inv_data:
  assumes inv: "vm_inv A pd m b" and "same_outside pg m m'" and "pg \<in> A"
    and dir: "\<forall>p d. user_dir p d \<longrightarrow> pd p d \<noteq> 0 \<longrightarrow> pd p d div 4096 \<noteq> pg"
  shows "entry_of pd m' x = entry_of pd m x \<or> \<not> live pd m' x \<and> \<not> live pd m x"
    and "live pd m' = live pd m" and "vm_inv A pd m' b"
proof -
  have tab: "load32 m' (entry_at (pd p d div 4096) j) = load32 m (entry_at (pd p d div 4096) j)"
    if "user_dir p d" "pd p d \<noteq> 0" "j < 1024" for p d j
    using that dir load32_same_outside [OF assms(2) _ page_no_div that(3)] by blast
  show live: "live pd m' = live pd m"
  proof
    show "live pd m' x = live pd m x" for x by (cases x) (auto simp: tab)
  qed
  have ent: "entry_of pd m' x = entry_of pd m x" if "live pd m x" for x
    using that by (cases x) (auto simp: tab)
  then show "entry_of pd m' x = entry_of pd m x \<or> \<not> live pd m' x \<and> \<not> live pd m x"
    using live by auto
  have pg: "page_at pd m' x = page_at pd m x" if "live pd m x" for x
    using ent [OF that] by (simp add: page_at_def)
  have "load32 m' (entry_at (b div 4096 + d) j) = load32 m (entry_at (b div 4096 + d) j)"
    if "d < 1024" "j < 1024" for d j
    using id_page [OF inv that(1)] vm_invD(1) [OF inv assms(3)]
    by (intro load32_same_outside [OF assms(2) _ _ that(2)]) auto
  moreover have "inj_on (page_at pd m') {x. live pd m x} \<longleftrightarrow> inj_on (page_at pd m) {x. live pd m x}"
    by (rule inj_on_cong) (simp add: pg)
  ultimately show "vm_inv A pd m' b"
    using inv unfolding vm_inv_def live by (auto simp: pg)
qed

lemma dir_page:
  assumes "vm_inv A pd m b" and "user_dir p d" and "pd p d \<noteq> 0"
  shows "pd p d div 4096 \<in> A" and "page_no (pd p d div 4096)"
    and "pd p d div 4096 \<noteq> b div 4096 + d' \<or> \<not> d' < 1024"
proof -
  show A: "pd p d div 4096 \<in> A"
    using vm_invD(2) [OF assms(1), of "Dir p d"] assms(2,3) by (simp add: page_at_def)
  then show "page_no (pd p d div 4096)" using vm_invD(1) [OF assms(1)] by blast
  show "pd p d div 4096 \<noteq> b div 4096 + d' \<or> \<not> d' < 1024"
    using id_page(2) [OF assms(1), of d'] vm_invD(1) [OF assms(1) A] by auto
qed

lemma dir_page_inj:
  assumes "vm_inv A pd m b" "user_dir p d" "pd p d \<noteq> 0" "user_dir p' d'" "pd p' d' \<noteq> 0"
    and "pd p d div 4096 = pd p' d' div 4096"
  shows "p = p' \<and> d = d'"
  using vm_invD(3) [OF assms(1), of "Dir p d" "Dir p' d'"] assms(2-6) by (simp add: page_at_def)

text \<open>Writing one entry of a page table: 0, or a page that no slot uses yet.\<close>

lemma vm_inv_entry:
  assumes inv: "vm_inv A pd m b" and u: "user_dir p d" "pd p d \<noteq> 0" and j: "j < 1024"
    and v: "v = 0 \<or> v div 4096 \<in> A - used_pages pd m"
  defines "m' \<equiv> store32 (entry_at (pd p d div 4096) j) v m"
  shows "vm_inv A pd m' b" and "used_pages pd m' \<subseteq> insert (v div 4096) (used_pages pd m)"
    and "x \<noteq> Leaf p d j \<Longrightarrow> live pd m' x = live pd m x \<and> (live pd m x \<longrightarrow> entry_of pd m' x = entry_of pd m x)"
    and "entry_of pd m' (Leaf p d j) = v"
proof -
  have other: "entry_of pd m' x = entry_of pd m x" if "live pd m x \<or> live pd m' x" "x \<noteq> Leaf p d j" for x
  proof (cases x)
    case (Leaf p' d' j')
    with that have l: "user_dir p' d'" "pd p' d' \<noteq> 0" "j' < 1024" by auto
    then have "\<not> (pd p d div 4096 = pd p' d' div 4096 \<and> j = j')"
      using dir_page_inj [OF inv u l(1,2)] that(2) Leaf by auto
    then show ?thesis
      using Leaf load32_entry_store [OF page_no_div page_no_div j l(3)] by (auto simp: m'_def)
  qed simp
  have here: "entry_of pd m' (Leaf p d j) = v"
    using load32_entry_store [OF page_no_div page_no_div j j] by (simp add: m'_def)
  have live: "live pd m' x \<longleftrightarrow> (if x = Leaf p d j then v \<noteq> 0 else live pd m x)" for x
    using other [of x] here u j by (cases x) (auto simp del: user_dir_def)
  have pg: "page_at pd m' x = (if x = Leaf p d j then v div 4096 else page_at pd m x)" if "live pd m' x" for x
    using other [of x] here that by (auto simp: page_at_def)
  show "x \<noteq> Leaf p d j \<Longrightarrow> live pd m' x = live pd m x \<and> (live pd m x \<longrightarrow> entry_of pd m' x = entry_of pd m x)"
    using other [of x] live [of x] by auto
  show "entry_of pd m' (Leaf p d j) = v" by (rule here)
  show "used_pages pd m' \<subseteq> insert (v div 4096) (used_pages pd m)"
    using pg live by (auto simp: used_pages_def)
  have fresh: "page_at pd m z \<noteq> v div 4096" if "live pd m z" "v \<noteq> 0" for z
    using v that unfolding used_pages_def by (metis DiffD2 imageI mem_Collect_eq)
  have "load32 m' (entry_at (b div 4096 + d') j') = load32 m (entry_at (b div 4096 + d') j')"
    if "d' < 1024" "j' < 1024" for d' j'
    using load32_entry_store [OF page_no_div id_page(1) [OF inv that(1)] j that(2)] dir_page(3) [OF inv u] that
    by (auto simp: m'_def)
  moreover have "inj_on (page_at pd m') {x. live pd m' x}"
  proof (rule inj_onI)
    fix x y
    assume "x \<in> {x. live pd m' x}" "y \<in> {x. live pd m' x}" "page_at pd m' x = page_at pd m' y"
    then show "x = y"
      using live pg vm_invD(3) [OF inv, of x y] fresh [of x] fresh [of y] by (auto split: if_splits)
  qed
  moreover have "page_at pd m' x \<in> A" if "live pd m' x" for x
    using that live pg v vm_invD(2) [OF inv] by (auto split: if_splits)
  ultimately show "vm_inv A pd m' b"
    using inv by (simp add: vm_inv_def)
qed

text \<open>Installing an empty page table in a free user directory entry.\<close>

lemma vm_inv_table:
  assumes inv: "vm_inv A pd m b" and u: "user_dir p d" "pd p d = 0"
    and pg: "pg \<in> A - used_pages pd m" and out: "same_outside pg m m'"
    and zero: "\<forall>j < 1024. load32 m' (entry_at pg j) = 0"
  defines "pd' \<equiv> pd(p := (pd p)(d := pg * 4096 + PT_PERM_PTU))"
  shows "vm_inv A pd' m' b" and "used_pages pd' m' \<subseteq> insert pg (used_pages pd m)"
    and "x \<noteq> Dir p d \<Longrightarrow> live pd' m' x = live pd m x \<and> (live pd m x \<longrightarrow> entry_of pd' m' x = entry_of pd m x)"
proof -
  have no: "page_no pg" using vm_invD(1) [OF inv] pg by blast
  have new: "pd' p d div 4096 = pg" "pd' p d mod 4096 = PT_PERM_PTU"
    using page_sum(1,2) [OF no, of 7] by (simp_all add: pd'_def)
  have new0: "pd' p d \<noteq> 0"
    using new(2) by auto
  have old: "pd' p' d' = pd p' d'" if "(p', d') \<noteq> (p, d)" for p' d'
    using that by (auto simp: pd'_def)
  have dirs: "pd p' d' div 4096 \<noteq> pg" if "user_dir p' d'" "pd p' d' \<noteq> 0" for p' d'
  proof
    assume "pd p' d' div 4096 = pg"
    then have "pg \<in> used_pages pd m"
      using that by (force simp: used_pages_def page_at_def image_iff intro: exI [of _ "Dir p' d'"])
    with pg show False by simp
  qed
  have tab: "load32 m' (entry_at (pd p' d' div 4096) j) = load32 m (entry_at (pd p' d' div 4096) j)"
    if "user_dir p' d'" "pd p' d' \<noteq> 0" "j < 1024" for p' d' j
    using that dirs load32_same_outside [OF out _ page_no_div that(3)] by blast
  have live: "live pd' m' x \<longleftrightarrow> x = Dir p d \<or> live pd m x" for x
  proof (cases x)
    case (Dir p' d')
    then show ?thesis using u new0 old by (cases "(p', d') = (p, d)") auto
  next
    case (Leaf p' d' j)
    show ?thesis
    proof (cases "(p', d') = (p, d)")
      case True
      then show ?thesis using Leaf u new zero by auto
    next
      case False
      then show ?thesis using Leaf old tab [of p' d' j] by auto
    qed
  qed
  have ne: "\<not> live pd m (Dir p d)" using u by simp
  have same: "entry_of pd' m' x = entry_of pd m x" if "live pd m x" for x
  proof (cases x)
    case (Dir p' d')
    with that u have "(p', d') \<noteq> (p, d)" by auto
    with Dir old show ?thesis by simp
  next
    case (Leaf p' d' j)
    with that u have "(p', d') \<noteq> (p, d)" by auto
    with Leaf that old tab show ?thesis by simp
  qed
  have page: "page_at pd' m' x = (if x = Dir p d then pg else page_at pd m x)" if "live pd' m' x" for x
    using that live same [of x] new(1) by (auto simp: page_at_def)
  show "used_pages pd' m' \<subseteq> insert pg (used_pages pd m)"
    using page live by (auto simp: used_pages_def)
  show "x \<noteq> Dir p d \<Longrightarrow> live pd' m' x = live pd m x \<and> (live pd m x \<longrightarrow> entry_of pd' m' x = entry_of pd m x)"
    using live [of x] same [of x] by auto
  have "load32 m' (entry_at (b div 4096 + d') j') = load32 m (entry_at (b div 4096 + d') j')"
    if "d' < 1024" "j' < 1024" for d' j'
    using id_page [OF inv that(1)] vm_invD(1) [OF inv, of pg] pg
    by (intro load32_same_outside [OF out _ _ that(2)]) auto
  moreover have "inj_on (page_at pd' m') {x. live pd' m' x}"
  proof (rule inj_onI)
    fix x y
    assume "x \<in> {x. live pd' m' x}" "y \<in> {x. live pd' m' x}" "page_at pd' m' x = page_at pd' m' y"
    then show "x = y"
      using pg live page vm_invD(3) [OF inv, of x y] by (auto simp: used_pages_def split: if_splits)
  qed
  moreover have "page_at pd' m' x \<in> A" if "live pd' m' x" for x
    using that live page pg vm_invD(2) [OF inv] by (auto split: if_splits)
  moreover have "pd' p' d' = b + d' * 4096 + PT_PERM_PTU" if "p' < NUM_IDS" "d' < 1024" "\<not> user_dir p' d'" for p' d'
    using that u inv old [of p' d'] by (auto simp: vm_inv_def)
  moreover have "pd' p' d' mod 4096 = PT_PERM_PTU" if "user_dir p' d'" "pd' p' d' \<noteq> 0" for p' d'
    using that new(2) old [of p' d'] inv by (cases "(p', d') = (p, d)") (auto simp: vm_inv_def)
  ultimately show "vm_inv A pd' m' b"
    using inv by (simp add: vm_inv_def)
qed

section \<open>The operations keep the invariant\<close>

interpretation pt_lk: lock_field pt_lk pt_lk_update
  by unfold_locales simp_all

lemma pt_lk_same [simp]: "pt_lk t = l \<Longrightarrow> t\<lparr>pt_lk := l\<rparr> = t"
  by auto

lemma kwp_pt_acquire [wp]:
  "kwp pt_spinlock_acquire Q s = (lock (pt_lk s) = 0 \<and> ks_magic s = KSTACK_MAGIC \<and>
     Q () (s\<lparr>pt_lk := lock_by (ks_cpu_idx s)\<rparr>))"
  unfolding pt_spinlock_acquire_def by (rule pt_lk.acquire_wp)

lemma kwp_pt_release [wp]: "kwp pt_spinlock_release Q s = Q () (s\<lparr>pt_lk := spinlock_init\<rparr>)"
  unfolding pt_spinlock_release_def by (rule pt_lk.release_wp)

lemma kwp_get_pdir_entry [wp]:
  "kwp (get_pdir_entry p d) Q s = (p < NUM_IDS \<and> d < 1024 \<and> Q (PDirPool s p d) s)"
  by (auto simp: get_pdir_entry_def wp)

lemma kwp_pdir_store [wp]:
  "kwp (pdir_store p d v) Q s = (p < NUM_IDS \<and> d < 1024 \<and>
     Q () (s\<lparr>PDirPool := (PDirPool s)(p := (PDirPool s p)(d := v))\<rparr>))"
  by (auto simp: pdir_store_def wp)

lemma kwp_mem_store32 [wp]:
  "kwp (mem_store32 a v) Q s = Q () (s\<lparr>phys_mem := store32 a v (phys_mem s)\<rparr>)"
  by (simp add: mem_store32_def wp)

lemmas pt_defs = set_pdir_entry_def set_pdir_entry_identity_def rmv_pdir_entry_def get_ptbl_entry_def
  set_ptbl_entry_def set_ptbl_entry_identity_def rmv_ptbl_entry_def get_ptbl_entry_by_va_def
  get_pdir_entry_by_va_def rmv_ptbl_entry_by_va_def rmv_pdir_entry_by_va_def set_ptbl_entry_by_va_def
  set_pdir_entry_by_va_def ptbl_addr_entry

definition perms_ok :: "'a mat_scheme \<Rightarrow> bool" where
  "perms_ok s \<longleftrightarrow> (\<forall>i < NUM_PAGES s. 1 < perm (AT s i) \<longrightarrow> VM_USERLO_PI \<le> i \<and> i < VM_USERHI_PI)"

definition vm_ok :: "'a mpt_scheme \<Rightarrow> bool" where
  "vm_ok s \<longleftrightarrow> mat_ok s \<and> perms_ok s \<and> lock_free (pt_lk s) \<and>
     vm_inv (owned_pages s) (PDirPool s) (phys_mem s) (IDPTbl_addr s)"

lemma pde_of_less: "pde_of v < 1024" and pte_of_less: "pte_of v < 1024"
  using unat_u32_less [of v]
  by (simp_all add: pde_of_def pte_of_def word_less_nat_alt unat_div unat_mod)

text \<open>The user range of virtual addresses is the user range of directory entries.\<close>

definition user_va :: "u32 \<Rightarrow> bool" where
  "user_va v \<longleftrightarrow> VM_USERLO \<le> v \<and> v < VM_USERHI"

lemma user_va_dir: "user_va v \<Longrightarrow> p < NUM_IDS \<Longrightarrow> p \<noteq> 0 \<Longrightarrow> user_dir p (pde_of v)"
proof -
  assume "user_va v" "p < NUM_IDS" "p \<noteq> 0"
  moreover from \<open>user_va v\<close> have "0x40000000 \<le> unat v" "unat v < 0xF0000000"
    by (simp_all add: user_va_def word_le_nat_alt word_less_nat_alt)
  then have "256 \<le> unat v div 4194304" "unat v div 4194304 < 960" by simp_all
  ultimately show ?thesis
    by (simp add: user_dir_def pde_of_def word_le_nat_alt word_less_nat_alt unat_div)
qed

text \<open>
  One page taken by \<^verbatim>\<open>container_alloc\<close> when it succeeds: allocated now, used by no slot. It does
  succeed when there is room: a page left in the quota and a free page above the remembered index.
\<close>

definition room :: "u32 \<Rightarrow> nat \<Rightarrow> 'a mcontainer_scheme \<Rightarrow> bool" where
  "room p n s \<longleftrightarrow> unat (usage (CONTAINER s p)) + n \<le> unat (quota (CONTAINER s p)) \<and>
     n \<le> card {i. last_palloc_index s < i \<and> free_page s i}"

definition takes_page :: "u32 \<Rightarrow> u32 \<Rightarrow> 'a mpt_scheme \<Rightarrow> 'a mpt_scheme \<Rightarrow> bool" where
  "takes_page p r s t \<longleftrightarrow> (\<forall>n. room p (Suc n) s \<longrightarrow> r \<noteq> 0 \<and> room p n t) \<and> mat_ok t \<and> perms_ok t \<and>
     owned_pages t = (if r = 0 then owned_pages s else insert r (owned_pages s)) \<and>
     (r \<noteq> 0 \<longrightarrow> r \<notin> owned_pages s \<and> VM_USERLO_PI \<le> r \<and> r < VM_USERHI_PI) \<and>
     PDirPool t = PDirPool s \<and> phys_mem t = phys_mem s \<and> IDPTbl_addr t = IDPTbl_addr s \<and> pt_lk t = pt_lk s"

lemma palloc_result_mpt [simp]:
  "PDirPool (palloc_result s r) = PDirPool s" "phys_mem (palloc_result s r) = phys_mem s"
  "IDPTbl_addr (palloc_result s r) = IDPTbl_addr s" "pt_lk (palloc_result s r) = pt_lk s"
  by (simp_all add: palloc_result_def)

lemma room_step:
  assumes r: "next_free s r" and room: "room p (Suc n) s"
  shows "r \<noteq> 0 \<and>
    room p n (palloc_result s r\<lparr>CONTAINER := (CONTAINER s)(p := (CONTAINER s p)\<lparr>usage := usage (CONTAINER s p) + 1\<rparr>)\<rparr>)"
proof -
  let ?A = "{i. last_palloc_index s < i \<and> free_page s i}"
  have "0 < card ?A" using room unfolding room_def by linarith
  then have "?A \<noteq> {}" by (metis card.empty less_irrefl)
  then have r0: "r \<noteq> 0" using r by (auto simp: next_free_def)
  then have least: "\<And>i. last_palloc_index s < i \<Longrightarrow> free_page s i \<Longrightarrow> r \<le> i" "r \<in> ?A"
    using r by (auto simp: next_free_def not_less [symmetric])
  have rest: "{i. r < i \<and> free_page (palloc_result s r) i} = ?A - {r}" (is "?B = _")
  proof (intro set_eqI iffI)
    fix i
    assume "i \<in> ?B"
    then show "i \<in> ?A - {r}"
      using least(2) free_page_palloc_result [OF r, of i] by (auto intro: less_trans)
  next
    fix i
    assume "i \<in> ?A - {r}"
    then show "i \<in> ?B"
      using least(1) [of i] free_page_palloc_result [OF r, of i] by auto
  qed
  have "card (?A - {r}) = card ?A - 1" using least(2) by (intro card_Diff_singleton)
  then have "n \<le> card ?B"
    unfolding rest using room unfolding room_def by linarith
  moreover have "unat (usage (CONTAINER s p) + 1) = Suc (unat (usage (CONTAINER s p)))"
    using room by (intro unat_inc [of _ "quota (CONTAINER s p)"]) (simp add: room_def word_less_nat_alt)
  moreover have "last_palloc_index (palloc_result s r) = r" using r0 by (simp add: palloc_result_def)
  moreover have "free_page (t\<lparr>CONTAINER := C\<rparr>) i = free_page t i" for t :: "'a mcontainer_scheme" and C i
    by (simp add: free_page_def)
  ultimately show ?thesis
    using room r0 by (simp add: room_def)
qed

lemma container_alloc_takes:
  assumes "p < NUM_IDS" and "mat_ok s" and "perms_ok s"
  shows "kwp (container_alloc p) (\<lambda>r t. takes_page p r s t) s"
proof (rule container_alloc_wp [OF assms(1,2)])
  assume "usage (CONTAINER s p) = quota (CONTAINER s p)"
  then have "\<not> room p (Suc n) s" for n by (simp add: room_def)
  then show "takes_page p 0 s s" using assms by (simp add: takes_page_def)
next
  fix r
  assume r: "next_free s r" and room: "usage (CONTAINER s p) \<noteq> quota (CONTAINER s p)"
  let ?t = "palloc_result s r\<lparr>CONTAINER := (CONTAINER s)(p := (CONTAINER s p)\<lparr>usage := usage (CONTAINER s p) + 1\<rparr>)\<rparr>"
  have "mat_ok ?t" using palloc_result_ok [OF assms(2) r] by simp
  moreover have "owned_pages ?t = (if r = 0 then owned_pages s else insert r (owned_pages s))"
    using owned_palloc_result [OF r] by (simp add: owned_pages_def)
  moreover have "perms_ok ?t"
    using assms(3) by (auto simp: perms_ok_def palloc_result_def)
  moreover have "r \<notin> owned_pages s \<and> VM_USERLO_PI \<le> r \<and> r < VM_USERHI_PI" if "r \<noteq> 0"
    using r that assms(3) by (auto simp: next_free_def free_page_def owned_pages_def perms_ok_def)
  moreover have "r \<noteq> 0 \<and> room p n ?t" if "room p (Suc n) s" for n
    using room_step [OF r that] by simp
  ultimately show "takes_page p r s ?t"
    by (simp add: takes_page_def)
qed

text \<open>The part of the invariant that holds while the page-table lock is taken.\<close>

definition vm_part :: "'a mpt_scheme \<Rightarrow> bool" where
  "vm_part s \<longleftrightarrow> mat_ok s \<and> perms_ok s \<and>
     vm_inv (owned_pages s) (PDirPool s) (phys_mem s) (IDPTbl_addr s)"

abbreviation used_in :: "'a mpt_scheme \<Rightarrow> u32 set" where
  "used_in s \<equiv> used_pages (PDirPool s) (phys_mem s)"

abbreviation live_in :: "'a mpt_scheme \<Rightarrow> slot \<Rightarrow> bool" where
  "live_in s \<equiv> live (PDirPool s) (phys_mem s)"

abbreviation entry_in :: "'a mpt_scheme \<Rightarrow> slot \<Rightarrow> u32" where
  "entry_in s \<equiv> entry_of (PDirPool s) (phys_mem s)"

text \<open>Every slot outside \<open>X\<close> is live as before and keeps its entry.\<close>

definition keeps_slots :: "slot set \<Rightarrow> 'a mpt_scheme \<Rightarrow> 'a mpt_scheme \<Rightarrow> bool" where
  "keeps_slots X s t \<longleftrightarrow> (\<forall>x. x \<notin> X \<longrightarrow>
     live_in t x = live_in s x \<and> (live_in s x \<longrightarrow> entry_in t x = entry_in s x))"

lemma keeps_slots_trans: "keeps_slots X s t \<Longrightarrow> keeps_slots Y t u \<Longrightarrow> keeps_slots (X \<union> Y) s u"
  by (auto simp: keeps_slots_def)

lemma takes_page_part:
  assumes "takes_page p r s t" and "vm_part s"
  shows "vm_part t" and "keeps_slots {} s t" and "used_in t = used_in s"
    and "r \<noteq> 0 \<Longrightarrow> r \<in> owned_pages t - used_in t"
proof -
  have inv: "vm_inv (owned_pages s) (PDirPool s) (phys_mem s) (IDPTbl_addr s)"
    using assms(2) by (simp add: vm_part_def)
  show "vm_part t"
    using assms vm_invD(1) [OF inv] unfolding vm_part_def
    by (auto simp: takes_page_def intro!: vm_inv_mono [OF inv])
  show "r \<noteq> 0 \<Longrightarrow> r \<in> owned_pages t - used_in t"
    using assms(1) vm_invD(4) [OF inv] by (auto simp: takes_page_def)
qed (use assms(1) in \<open>simp_all add: takes_page_def keeps_slots_def\<close>)

lemma clear_table_wp:
  assumes p: "p < NUM_IDS" "d < 1024" and pg: "PDirPool s p d div 4096 = pg"
  shows "kwp (kfor 0 1024 (\<lambda>i. rmv_ptbl_entry p d i))
    (\<lambda>_ t. \<exists>m'. t = s\<lparr>phys_mem := m'\<rparr> \<and> same_outside pg (phys_mem s) m' \<and>
       (\<forall>j < 1024. load32 m' (entry_at pg j) = 0)) s"
proof (rule kwp_kfor [where I = "\<lambda>i t. \<exists>m'. t = s\<lparr>phys_mem := m'\<rparr> \<and>
    same_outside pg (phys_mem s) m' \<and> (\<forall>j < i. load32 m' (entry_at pg j) = 0)"])
  have no: "page_no pg" using page_no_div pg by blast
  fix i t
  assume i: "i < (1024 :: u32)" and "\<exists>m'. t = s\<lparr>phys_mem := m'\<rparr> \<and> same_outside pg (phys_mem s) m' \<and>
    (\<forall>j < i. load32 m' (entry_at pg j) = 0)"
  then obtain m' where m': "t = s\<lparr>phys_mem := m'\<rparr>" "same_outside pg (phys_mem s) m'"
    "\<forall>j < i. load32 m' (entry_at pg j) = 0" by blast
  let ?m = "store32 (entry_at pg i) 0 m'"
  have "same_outside pg (phys_mem s) ?m"
    using m'(2) store32_same_outside [OF no i] by (rule same_outside_trans)
  moreover have "load32 ?m (entry_at pg j) = 0" if "j < i + 1" for j
  proof -
    have "j < 1024" using that i inc_le [OF i] by auto
    then show ?thesis
      using that m'(3) load32_entry_store [OF no no i, of j] by (auto simp: less_inc_cases [OF i])
  qed
  ultimately show "kwp (rmv_ptbl_entry p d i) (\<lambda>_ t'. \<exists>m'. t' = s\<lparr>phys_mem := m'\<rparr> \<and>
      same_outside pg (phys_mem s) m' \<and> (\<forall>j < i + 1. load32 m' (entry_at pg j) = 0)) t"
    using m'(1) p pg by (auto simp: pt_defs wp intro!: exI [of _ ?m])
qed (auto intro!: exI [of _ "phys_mem s"])

text \<open>What \<^verbatim>\<open>alloc_ptbl\<close> does to a free directory entry.\<close>

definition new_table :: "u32 \<Rightarrow> u32 \<Rightarrow> u32 \<Rightarrow> 'a mpt_scheme \<Rightarrow> 'a mpt_scheme \<Rightarrow> bool" where
  "new_table p d r s t \<longleftrightarrow> vm_part t \<and> pt_lk t = pt_lk s \<and> owned_pages s \<subseteq> owned_pages t \<and>
     (room p 1 s \<longrightarrow> r \<noteq> 0) \<and>
     (if r = 0 then keeps_slots {} s t \<and> used_in t = used_in s
      else r \<notin> owned_pages s \<and> r < VM_USERHI_PI \<and> PDirPool t p d \<noteq> 0 \<and>
        keeps_slots {Dir p d} s t \<and> used_in t \<subseteq> insert r (used_in s))"

lemma alloc_ptbl_wp:
  assumes part: "vm_part s" and u: "user_dir p (pde_of v)" and free: "PDirPool s p (pde_of v) = 0"
  shows "kwp (alloc_ptbl p v) (\<lambda>r t. new_table p (pde_of v) r s t) s"
proof -
  let ?d = "pde_of v"
  have p: "p < NUM_IDS" using u by (simp add: user_dir_def)
  have "kwp (container_alloc p) (\<lambda>r t. takes_page p r s t) s"
    using part p by (intro container_alloc_takes) (simp_all add: vm_part_def)
  then show ?thesis unfolding alloc_ptbl_def kwp_kbind
  proof (rule kwp_mono)
    fix r t
    assume t: "takes_page p r s t"
    note part_t = takes_page_part [OF t part]
    have no: "page_no r" if "r \<noteq> 0"
      using t that by (auto simp: takes_page_def page_no_def intro: less_trans)
    let ?t = "t\<lparr>PDirPool := (PDirPool t)(p := (PDirPool t p)(?d := r * 4096 + PT_PERM_PTU))\<rparr>"
    have ready: "new_table p ?d r s (?t\<lparr>phys_mem := m'\<rparr>)"
      if r: "r \<noteq> 0" and m': "same_outside r (phys_mem t) m'" "\<forall>j < 1024. load32 m' (entry_at r j) = 0" for m'
    proof -
      have inv: "vm_inv (owned_pages t) (PDirPool t) (phys_mem t) (IDPTbl_addr t)"
        using part_t(1) by (simp add: vm_part_def)
      have "PDirPool t p ?d = 0" using t free by (simp add: takes_page_def)
      note tab = vm_inv_table [OF inv u this part_t(4) [OF r] m']
      have "r * 4096 + PT_PERM_PTU \<noteq> 0"
        using page_sum(2) [OF no [OF r], of 7] by auto
      moreover have "owned_pages (?t\<lparr>phys_mem := m'\<rparr>) = owned_pages t" by (simp add: owned_pages_def)
      moreover have "mat_ok (?t\<lparr>phys_mem := m'\<rparr>)" "perms_ok (?t\<lparr>phys_mem := m'\<rparr>)"
        using part_t(1) by (simp_all add: vm_part_def mat_ok_def perms_ok_def)
      ultimately show ?thesis
        using t r tab part_t(2,3)
        by (auto simp: new_table_def vm_part_def keeps_slots_def takes_page_def)
    qed
    show "kwp (kthen (kwhen (r \<noteq> 0) (kthen (set_pdir_entry_by_va p v r)
        (kfor 0 1024 (\<lambda>i. rmv_ptbl_entry p ?d i)))) (kreturn r)) (\<lambda>r t. new_table p ?d r s t) t"
    proof (cases "r = 0")
      case True
      then show ?thesis using t part_t by (simp add: wp new_table_def takes_page_def)
    next
      case False
      have "PDirPool ?t p ?d div 4096 = r"
        using page_sum(1) [OF no [OF False], of 7] by simp
      note clear = clear_table_wp [OF p pde_of_less this]
      show ?thesis
        using False p pde_of_less [of v] ready
        by (auto simp: wp set_pdir_entry_by_va_def set_pdir_entry_def intro!: kwp_mono [OF clear])
    qed
  qed
qed

text \<open>
  \<^verbatim>\<open>map_page\<close> for a page that is allocated and unused: either it fails and every slot keeps its
  entry, or the slot of the address holds the page and every other slot keeps its entry, apart
  from the directory entry it may have filled.
\<close>

definition maps_to :: "u32 \<Rightarrow> u32 \<Rightarrow> u32 \<Rightarrow> u32 \<Rightarrow> 'a mpt_scheme \<Rightarrow> 'a mpt_scheme \<Rightarrow> bool" where
  "maps_to p v e r s t \<longleftrightarrow> vm_part t \<and> pt_lk t = pt_lk s \<and> owned_pages s \<subseteq> owned_pages t \<and>
     (room p 1 s \<longrightarrow> r \<noteq> MagicNumber) \<and>
     (if r = MagicNumber then keeps_slots {} s t
      else live_in t (Leaf p (pde_of v) (pte_of v)) \<and> entry_in t (Leaf p (pde_of v) (pte_of v)) = e \<and>
        keeps_slots {Leaf p (pde_of v) (pte_of v), Dir p (pde_of v)} s t)"

lemma set_entry_wp:
  assumes part: "vm_part s" and u: "user_dir p (pde_of v)" and "PDirPool s p (pde_of v) \<noteq> 0"
    and pg: "pg \<in> owned_pages s - used_in s" and prm: "prm < 4096"
  shows "kwp (set_ptbl_entry_by_va p v pg prm) (\<lambda>_ t. maps_to p v (pg * 4096 + prm) 0 s t) s"
proof -
  let ?d = "pde_of v" and ?j = "pte_of v" and ?v = "pg * 4096 + prm"
  let ?m = "store32 (entry_at (PDirPool s p ?d div 4096) ?j) ?v (phys_mem s)"
  have inv: "vm_inv (owned_pages s) (PDirPool s) (phys_mem s) (IDPTbl_addr s)"
    using part by (simp add: vm_part_def)
  have no: "page_no pg" "VM_USERLO_PI \<le> pg"
    using vm_invD(1) [OF inv] pg by auto
  have dv: "?v div 4096 = pg" using page_sum(1) [OF no(1) prm] .
  then have "?v \<noteq> 0" using no(2) by auto
  have "?v = 0 \<or> ?v div 4096 \<in> owned_pages s - used_in s" using pg dv by simp
  note ent = vm_inv_entry [OF inv u assms(3) pte_of_less [of v] this]
  have "maps_to p v ?v 0 s (s\<lparr>phys_mem := ?m\<rparr>)"
    unfolding maps_to_def
    using ent(1,4) ent(3) \<open>?v \<noteq> 0\<close> part u assms(3) pte_of_less [of v]
    by (simp add: vm_part_def owned_pages_def mat_ok_def perms_ok_def keeps_slots_def)
  moreover have "p < NUM_IDS" using u by (simp add: user_dir_def)
  ultimately show ?thesis
    using pde_of_less [of v] by (simp add: wp pt_defs)
qed

lemma map_page_wp:
  assumes part: "vm_part s" and u: "user_dir p (pde_of v)"
    and pg: "pg \<in> owned_pages s - used_in s" and prm: "prm < 4096"
  shows "kwp (map_page p v pg prm) (\<lambda>r t. maps_to p v (pg * 4096 + prm) r s t) s"
proof (cases "PDirPool s p (pde_of v) = 0")
  case False
  note set = set_entry_wp [OF part u False pg prm]
  have "p < NUM_IDS" using u by (simp add: user_dir_def)
  with False show ?thesis
    using pde_of_less [of v]
    by (auto simp: map_page_def get_pdir_entry_by_va_def wp intro!: kwp_mono [OF set])
next
  case True
  have p: "p < NUM_IDS" using u by (simp add: user_dir_def)
  have "kwp (kthen (kwhen (r' \<noteq> MagicNumber) (set_ptbl_entry_by_va p v pg prm)) (kreturn r'))
      (\<lambda>r t. maps_to p v (pg * 4096 + prm) r s t) t"
    if t: "new_table p (pde_of v) r s t" and r': "r' = (if r = 0 then MagicNumber else r)" for r r' t
  proof (cases "r = 0")
    case True
    then show ?thesis using t r' by (simp add: wp new_table_def maps_to_def)
  next
    case False
    have "pg \<noteq> r" using t False pg by (auto simp: new_table_def)
    then have pg': "pg \<in> owned_pages t - used_in t" using t False pg by (auto simp: new_table_def)
    have "r' \<noteq> MagicNumber" using t r' False by (auto simp: new_table_def)
    have part_t: "vm_part t" "PDirPool t p (pde_of v) \<noteq> 0"
      using t False by (simp_all add: new_table_def)
    note set = set_entry_wp [OF part_t(1) u part_t(2) pg' prm]
    have "maps_to p v (pg * 4096 + prm) r' s t'" if t': "maps_to p v (pg * 4096 + prm) 0 t t'" for t'
      using t t' \<open>r' \<noteq> MagicNumber\<close> False
      by (auto simp: maps_to_def new_table_def keeps_slots_def)
    with \<open>r' \<noteq> MagicNumber\<close> show ?thesis
      by (auto simp: wp intro!: kwp_mono [OF set])
  qed
  then show ?thesis
    using True p pde_of_less [of v]
    by (auto simp: map_page_def get_pdir_entry_by_va_def wp simp del: kwp_kthen kwp_kwhen
        intro!: kwp_mono [OF alloc_ptbl_wp [OF part u True]])
qed

text \<open>The outcome of \<^verbatim>\<open>alloc_page\<close>.\<close>

definition page_mapped :: "u32 \<Rightarrow> u32 \<Rightarrow> u32 \<Rightarrow> u32 \<Rightarrow> 'a mpt_scheme \<Rightarrow> 'a mpt_scheme \<Rightarrow> bool" where
  "page_mapped p v prm r s t \<longleftrightarrow> (room p 2 s \<longrightarrow> r \<noteq> MagicNumber) \<and>
     (if r = MagicNumber then keeps_slots {} s t
      else (\<exists>pg \<in> owned_pages t - owned_pages s.
          live_in t (Leaf p (pde_of v) (pte_of v)) \<and>
          entry_in t (Leaf p (pde_of v) (pte_of v)) = pg * 4096 + prm) \<and>
        keeps_slots {Leaf p (pde_of v) (pte_of v), Dir p (pde_of v)} s t)"

lemma vm_ok_part: "vm_ok s \<longleftrightarrow> vm_part s \<and> lock_free (pt_lk s)"
  by (auto simp: vm_ok_def vm_part_def)

lemma pt_lk_frame [simp]:
  "vm_part (s\<lparr>pt_lk := l\<rparr>) = vm_part s" "keeps_slots X (s\<lparr>pt_lk := l\<rparr>) t = keeps_slots X s t"
  "keeps_slots X s (t\<lparr>pt_lk := l\<rparr>) = keeps_slots X s t" "owned_pages (s\<lparr>pt_lk := l\<rparr>) = owned_pages s"
  "room p n (s\<lparr>pt_lk := l\<rparr>) = room p n s"
  by (simp_all add: vm_part_def mat_ok_def perms_ok_def owned_pages_def keeps_slots_def room_def free_page_def)

lemma alloc_page_wp:
  assumes "vm_ok s" and u: "user_dir p (pde_of v)" and prm: "prm < 4096"
  shows "kwp (alloc_page p v prm) (\<lambda>r t. vm_ok t \<and> page_mapped p v prm r s t) s"
proof -
  let ?s = "s\<lparr>pt_lk := lock_by (ks_cpu_idx s)\<rparr>"
  have part: "vm_part ?s" using assms(1) by (simp add: vm_ok_part)
  have ok: "lock_free (pt_lk s)" "ks_magic s = KSTACK_MAGIC"
    using assms(1) by (simp_all add: vm_ok_def mat_ok_def)
  have p: "p < NUM_IDS" using u by (simp add: user_dir_def)
  have take: "kwp (container_alloc p) (\<lambda>r t. takes_page p r ?s t) ?s"
    using part p by (intro container_alloc_takes) (simp_all add: vm_part_def)
  have finish: "vm_ok (t'\<lparr>pt_lk := spinlock_init\<rparr>) \<and> page_mapped p v prm r' s (t'\<lparr>pt_lk := spinlock_init\<rparr>)"
    if t: "takes_page p r ?s t" "r \<noteq> 0" and t': "maps_to p v (r * 4096 + prm) r' t t'" for r r' t t'
  proof -
    note pt = takes_page_part [OF t(1) part]
    have "r \<in> owned_pages t'" "r \<notin> owned_pages s"
      using pt(4) [OF t(2)] t t' by (auto simp: maps_to_def takes_page_def)
    moreover have "room p 1 t" if "room p 2 s"
      using t(1) that by (auto simp: takes_page_def numeral_2_eq_2)
    ultimately show ?thesis
      using t' keeps_slots_trans [OF pt(2), of _ t']
      by (auto simp: vm_ok_part page_mapped_def maps_to_def split: if_splits)
  qed
  have fail: "vm_ok (t\<lparr>pt_lk := spinlock_init\<rparr>) \<and> page_mapped p v prm MagicNumber s (t\<lparr>pt_lk := spinlock_init\<rparr>)"
    if "takes_page p 0 ?s t" for t
  proof -
    have "\<not> room p 2 s" using that by (auto simp: takes_page_def numeral_2_eq_2)
    then show ?thesis
      using takes_page_part [OF that part] by (simp add: vm_ok_part page_mapped_def)
  qed
  have map: "kwp (map_page p v r prm) (\<lambda>r' t'. maps_to p v (r * 4096 + prm) r' t t') t"
    if "takes_page p r ?s t" "r \<noteq> 0" for r t
    using takes_page_part [OF that(1) part] that(2) u prm by (intro map_page_wp) auto
  show ?thesis
    unfolding alloc_page_def using ok fail
    by (auto simp: wp dest: finish intro!: kwp_mono [OF take] kwp_mono [OF map])
qed

section \<open>The hardware's view\<close>

text \<open>
  The two-level walk of the memory management unit for an access of user-mode code: both
  entries have to be present and user-accessible.
\<close>

definition mmu_user :: "'a mpt_scheme \<Rightarrow> u32 \<Rightarrow> u32 \<Rightarrow> u32 option" where
  "mmu_user s p va =
     (let pde = PDirPool s p (pde_of va) in
      if pde AND 5 = 5 then
        let pte = load32 (phys_mem s) (ptbl_addr pde (pte_of va)) in
        if pte AND 5 = 5 then Some ((pte AND 0xfffff000) + va mod 4096) else None
      else None)"

lemma and5_mod: "(y :: u32) AND 5 = (y mod 4096) AND 5"
proof -
  have "take_bit 12 y = y mod 4096" by (simp add: take_bit_eq_mod)
  then have "y mod 4096 = y AND mask 12" by (simp add: take_bit_eq_mask)
  moreover have "(mask 12 :: u32) AND 5 = 5" by (simp add: mask_eq_exp_minus_1)
  ultimately show ?thesis by (simp add: and.assoc)
qed

lemma unat_vpn:
  assumes "d < 1024" and "j < 1024"
  shows "unat (d * 1024 + j :: u32) = unat d * 1024 + unat j" and "page_no (d * 1024 + j)"
proof -
  have "unat d < 1024" "unat j < 1024" using assms by (simp_all add: word_less_nat_alt)
  then show eq: "unat (d * 1024 + j :: u32) = unat d * 1024 + unat j" by (simp add: unat_word_ariths)
  show "page_no (d * 1024 + j)"
    using \<open>unat d < 1024\<close> \<open>unat j < 1024\<close> by (simp add: page_no_def word_less_nat_alt eq)
qed

lemma vpn_split: "va div 4096 = pde_of va * 1024 + pte_of va"
proof -
  have "unat va div 4096 = unat va div 4194304 * 1024 + unat va div 4096 mod 1024"
    using div_mult2_eq [of "unat va" 4096 1024] by simp
  then show ?thesis
    using unat_vpn(1) [OF pde_of_less pte_of_less, of va va]
    by (simp add: word_unat_eq_iff pde_of_def pte_of_def unat_div unat_mod)
qed

text \<open>User code reaches memory only through live leaf slots of its own process.\<close>

lemma mmu_user_leaf:
  assumes inv: "vm_inv A (PDirPool s) (phys_mem s) (IDPTbl_addr s)" and p: "p < NUM_IDS"
    and acc: "mmu_user s p va = Some pa"
  defines "x \<equiv> Leaf p (pde_of va) (pte_of va)"
  shows "live_in s x" and "pa = page_at (PDirPool s) (phys_mem s) x * 4096 + va mod 4096"
proof -
  let ?d = "pde_of va" and ?j = "pte_of va" and ?b = "IDPTbl_addr s"
  let ?pde = "PDirPool s p ?d" and ?e = "load32 (phys_mem s) (entry_at (PDirPool s p ?d div 4096) ?j)"
  have acc': "?pde AND 5 = 5" "?e AND 5 = 5" "pa = ?e div 4096 * 4096 + va mod 4096"
    using acc by (auto simp: mmu_user_def Let_def ptbl_addr_entry page_base split: if_splits)
  have "user_dir p ?d"
  proof (rule ccontr)
    assume k: "\<not> user_dir p ?d"
    then have "?pde = ?b + ?d * 4096 + 7" using inv p pde_of_less [of va] by (simp add: vm_inv_def)
    moreover have "?b = ?b div 4096 * 4096"
      using inv by (simp add: vm_inv_def) (metis add.right_neutral word_mod_div_equality)
    ultimately have "?pde = (?b div 4096 + ?d) * 4096 + 7" by (simp add: distrib_right)
    then have "?pde div 4096 = ?b div 4096 + ?d"
      using page_sum(1) [OF id_page(1) [OF inv pde_of_less], of 7 va] by simp
    then have "?e = (?d * 1024 + ?j) * 4096 + id_perm ?d"
      using inv pde_of_less [of va] pte_of_less [of va] unfolding vm_inv_def by metis
    moreover have "id_perm ?d < 4096" "id_perm ?d AND 5 \<noteq> 5" by (simp_all add: id_perm_def)
    ultimately have "?e mod 4096 = id_perm ?d" "id_perm ?d AND 5 \<noteq> 5"
      using page_sum(2) [OF unat_vpn(2) [OF pde_of_less pte_of_less], of "id_perm ?d" va va] by metis+
    with acc'(2) and5_mod [of ?e] show False by simp
  qed
  moreover have "?pde \<noteq> 0" "?e \<noteq> 0" using acc' by auto
  ultimately show "live_in s x" using pte_of_less [of va] by (simp add: x_def)
  show "pa = page_at (PDirPool s) (phys_mem s) x * 4096 + va mod 4096"
    using acc'(3) by (simp add: x_def page_at_def)
qed

section \<open>Initialisation\<close>

definition id_val :: "u32 \<Rightarrow> u32 \<Rightarrow> u32" where
  "id_val d j = (d * 1024 + j) * 4096 + id_perm d"

text \<open>Where the linker may put the identity table: page aligned and below the user pages.\<close>

definition id_base_ok :: "u32 \<Rightarrow> bool" where
  "id_base_ok b \<longleftrightarrow> b mod 4096 = 0 \<and> b \<le> 0x3fc00000"

lemma id_base_page: "b mod 4096 = 0 \<Longrightarrow> b div 4096 * 4096 = (b :: u32)"
  by (metis add.right_neutral word_mod_div_equality)

lemma id_entry_addr: "b mod 4096 = 0 \<Longrightarrow> b + (d * 1024 + j) * 4 = entry_at (b div 4096 + d) j"
  by (simp add: entry_at_def distrib_right id_base_page)

lemma id_page':
  assumes "id_base_ok b" and "d < 1024"
  shows "page_no (b div 4096 + d)" and "b div 4096 + d < VM_USERLO_PI"
    and "unat (b div 4096 + d) = unat (b div 4096) + unat d"
proof -
  have "unat b \<le> 0x3fc00000" using assms(1) by (simp add: id_base_ok_def word_le_nat_alt)
  then have "unat (b div 4096) \<le> 0x3fc00" by (simp add: unat_div)
  moreover have "unat d < 1024" using assms(2) by (simp add: word_less_nat_alt)
  ultimately show u: "unat (b div 4096 + d) = unat (b div 4096) + unat d" by (simp add: unat_word_ariths)
  then show "page_no (b div 4096 + d)" "b div 4096 + d < VM_USERLO_PI"
    using \<open>unat (b div 4096) \<le> 0x3fc00\<close> \<open>unat d < 1024\<close> by (simp_all add: page_no_def word_less_nat_alt)
qed

lemma idptbl_row_wp:
  assumes b: "id_base_ok (IDPTbl_addr s)" and d: "d < 1024"
  shows "kwp (idptbl_row d) (\<lambda>_ t. \<exists>m'. t = s\<lparr>phys_mem := m'\<rparr> \<and>
      same_outside (IDPTbl_addr s div 4096 + d) (phys_mem s) m' \<and>
      (\<forall>j < 1024. load32 m' (entry_at (IDPTbl_addr s div 4096 + d) j) = id_val d j)) s"
  unfolding idptbl_row_def Let_def
proof (rule kwp_kfor [where I = "\<lambda>i t. \<exists>m'. t = s\<lparr>phys_mem := m'\<rparr> \<and>
      same_outside (IDPTbl_addr s div 4096 + d) (phys_mem s) m' \<and>
      (\<forall>j < i. load32 m' (entry_at (IDPTbl_addr s div 4096 + d) j) = id_val d j)"])
  let ?pg = "IDPTbl_addr s div 4096 + d"
  have no: "page_no ?pg" using id_page' [OF b d] by simp
  fix i t
  assume i: "i < (1024 :: u32)" and "\<exists>m'. t = s\<lparr>phys_mem := m'\<rparr> \<and> same_outside ?pg (phys_mem s) m' \<and>
    (\<forall>j < i. load32 m' (entry_at ?pg j) = id_val d j)"
  then obtain m' where m': "t = s\<lparr>phys_mem := m'\<rparr>" "same_outside ?pg (phys_mem s) m'"
    "\<forall>j < i. load32 m' (entry_at ?pg j) = id_val d j" by blast
  let ?m = "store32 (entry_at ?pg i) (id_val d i) m'"
  have "same_outside ?pg (phys_mem s) ?m"
    using m'(2) store32_same_outside [OF no i] by (rule same_outside_trans)
  moreover have "load32 ?m (entry_at ?pg j) = id_val d j" if "j < i + 1" for j
  proof -
    have "j < 1024" using that i inc_le [OF i] by auto
    then show ?thesis
      using that m'(3) load32_entry_store [OF no no i, of j] by (auto simp: less_inc_cases [OF i])
  qed
  moreover have "IDPTbl_addr s + (d * 1024 + i) * 4 = entry_at ?pg i"
    using b by (intro id_entry_addr) (simp add: id_base_ok_def)
  ultimately show "kwp (set_ptbl_entry_identity d i
        (if d < 256 \<or> 960 \<le> d then PTE_P OR PTE_W OR PTE_G else PTE_P OR PTE_W))
      (\<lambda>_ t'. \<exists>m'. t' = s\<lparr>phys_mem := m'\<rparr> \<and> same_outside ?pg (phys_mem s) m' \<and>
        (\<forall>j < i + 1. load32 m' (entry_at ?pg j) = id_val d j)) t"
    using m'(1) d i unfolding set_ptbl_entry_identity_def id_perm_def [symmetric] id_val_def [symmetric]
    by (auto simp: wp intro!: exI [of _ ?m])
qed (auto intro!: exI [of _ "phys_mem s"])

lemma idptbl_rows_wp:
  assumes b: "id_base_ok (IDPTbl_addr s)"
  shows "kwp (kfor 0 1024 idptbl_row) (\<lambda>_ t. \<exists>m'. t = s\<lparr>phys_mem := m'\<rparr> \<and>
      (\<forall>d < 1024. \<forall>j < 1024. load32 m' (entry_at (IDPTbl_addr s div 4096 + d) j) = id_val d j)) s"
proof (rule kwp_kfor [where I = "\<lambda>i t. \<exists>m'. t = s\<lparr>phys_mem := m'\<rparr> \<and>
      (\<forall>d < i. \<forall>j < 1024. load32 m' (entry_at (IDPTbl_addr s div 4096 + d) j) = id_val d j)"])
  let ?b = "IDPTbl_addr s div 4096"
  fix i t
  assume i: "i < (1024 :: u32)" and "\<exists>m'. t = s\<lparr>phys_mem := m'\<rparr> \<and>
    (\<forall>d < i. \<forall>j < 1024. load32 m' (entry_at (?b + d) j) = id_val d j)"
  then obtain m' where m': "t = s\<lparr>phys_mem := m'\<rparr>"
    "\<forall>d < i. \<forall>j < 1024. load32 m' (entry_at (?b + d) j) = id_val d j" by blast
  have old: "load32 m'' (entry_at (?b + d) j) = id_val d j"
    if out: "same_outside (?b + i) m' m''" and d: "d < i" and j: "j < 1024" for m'' d j
  proof -
    have "d < 1024" using d i by simp
    then have "load32 m'' (entry_at (?b + d) j) = load32 m' (entry_at (?b + d) j)"
      using d id_page'(1) [OF b] by (intro load32_same_outside [OF out _ _ j]) auto
    with m'(2) d j show ?thesis by simp
  qed
  have "id_base_ok (IDPTbl_addr t)" using b m'(1) by simp
  note row = idptbl_row_wp [OF this i]
  show "kwp (idptbl_row i) (\<lambda>_ t'. \<exists>m'. t' = s\<lparr>phys_mem := m'\<rparr> \<and>
      (\<forall>d < i + 1. \<forall>j < 1024. load32 m' (entry_at (?b + d) j) = id_val d j)) t"
    by (rule kwp_mono [OF row]) (use m'(1) old in \<open>auto simp: less_inc_cases [OF i]\<close>)
qed (auto intro!: exI [of _ "phys_mem s"])

text \<open>A row of a page directory after \<^verbatim>\<open>pdir_init\<close>.\<close>

definition init_dir :: "u32 \<Rightarrow> u32 \<Rightarrow> u32" where
  "init_dir b j = (if j < 256 \<or> j \<ge> 960 then b + j * 4096 + PT_PERM_PTU else 0)"

lemma pdir_row_wp:
  assumes i: "i < NUM_IDS"
  shows "kwp (pdir_row i) (\<lambda>_ t. t = s\<lparr>PDirPool := (PDirPool s)(i :=
      (\<lambda>j. if j < 1024 then init_dir (IDPTbl_addr s) j else PDirPool s i j))\<rparr>) s"
  unfolding pdir_row_def
proof (rule kwp_kfor [where I = "\<lambda>k t. t = s\<lparr>PDirPool := (PDirPool s)(i :=
      (\<lambda>j. if j < k then init_dir (IDPTbl_addr s) j else PDirPool s i j))\<rparr>"])
  fix k t
  let ?row = "\<lambda>k j. if j < k then init_dir (IDPTbl_addr s) j else PDirPool s i j"
  assume k: "k < (1024 :: u32)" and t: "t = s\<lparr>PDirPool := (PDirPool s)(i := ?row k)\<rparr>"
  have "(?row k)(k := init_dir (IDPTbl_addr s) k) = ?row (k + 1)"
    by (auto simp: fun_eq_iff less_inc_cases [OF k])
  moreover have "kwp (if k < 256 \<or> 960 \<le> k then set_pdir_entry_identity i k else rmv_pdir_entry i k) Q t =
      Q () (t\<lparr>PDirPool := (PDirPool t)(i := (PDirPool t i)(k := init_dir (IDPTbl_addr t) k))\<rparr>)" for Q
    using i k by (simp add: pt_defs wp init_dir_def)
  ultimately show "kwp (if k < 256 \<or> 960 \<le> k then set_pdir_entry_identity i k else rmv_pdir_entry i k)
      (\<lambda>_ t'. t' = s\<lparr>PDirPool := (PDirPool s)(i := ?row (k + 1))\<rparr>) t"
    using t by simp
qed simp_all

lemma pdir_rows_wp:
  "kwp (kfor 0 NUM_IDS pdir_row) (\<lambda>_ t. t = s\<lparr>PDirPool :=
      (\<lambda>i j. if i < NUM_IDS \<and> j < 1024 then init_dir (IDPTbl_addr s) j else PDirPool s i j)\<rparr>) s"
proof (rule kwp_kfor [where I = "\<lambda>k t. t = s\<lparr>PDirPool :=
      (\<lambda>i j. if i < k \<and> j < 1024 then init_dir (IDPTbl_addr s) j else PDirPool s i j)\<rparr>"])
  fix k t
  let ?pd = "\<lambda>k i j. if i < k \<and> j < 1024 then init_dir (IDPTbl_addr s) j else PDirPool s i j"
  assume k: "k < NUM_IDS" and t: "t = s\<lparr>PDirPool := ?pd k\<rparr>"
  have "(?pd k)(k := (\<lambda>j. if j < 1024 then init_dir (IDPTbl_addr s) j else ?pd k k j)) = ?pd (k + 1)"
    by (auto simp: fun_eq_iff less_inc_cases [OF k])
  then show "kwp (pdir_row k) (\<lambda>_ t'. t' = s\<lparr>PDirPool := ?pd (k + 1)\<rparr>) t"
    unfolding t by (intro kwp_mono [OF pdir_row_wp [OF k]]) (simp cong: if_cong)
qed simp_all

lemma pdir_kern_wp:
  "kwp (kfor 256 960 (set_pdir_entry_identity 0)) (\<lambda>_ t. t = s\<lparr>PDirPool := (PDirPool s)(0 :=
      (\<lambda>j. if 256 \<le> j \<and> j < 960 then IDPTbl_addr s + j * 4096 + PT_PERM_PTU else PDirPool s 0 j))\<rparr>) s"
proof (rule kwp_kfor [where I = "\<lambda>k t. t = s\<lparr>PDirPool := (PDirPool s)(0 :=
      (\<lambda>j. if 256 \<le> j \<and> j < k then IDPTbl_addr s + j * 4096 + PT_PERM_PTU else PDirPool s 0 j))\<rparr>"])
  fix k t
  let ?row = "\<lambda>k j. if 256 \<le> j \<and> j < k then IDPTbl_addr s + j * 4096 + PT_PERM_PTU else PDirPool s 0 j"
  assume k: "256 \<le> k" "k < (960 :: u32)" and t: "t = s\<lparr>PDirPool := (PDirPool s)(0 := ?row k)\<rparr>"
  have "(?row k)(k := IDPTbl_addr s + k * 4096 + PT_PERM_PTU) = ?row (k + 1)"
    using k(1) by (auto simp: fun_eq_iff less_inc_cases [OF k(2)])
  moreover have "k < 1024" using k(2) by (rule less_trans) simp
  ultimately show "kwp (set_pdir_entry_identity 0 k) (\<lambda>_ t'. t' = s\<lparr>PDirPool := (PDirPool s)(0 := ?row (k + 1))\<rparr>) t"
    using t by (simp add: pt_defs wp)
next
  have "(\<lambda>j. if 256 \<le> j \<and> j < 256 then f j else g j) = g" for f g :: "u32 \<Rightarrow> u32"
    by (rule ext) (auto dest: leD)
  then show "s = s\<lparr>PDirPool := (PDirPool s)(0 := (\<lambda>j. if 256 \<le> j \<and> j < 256 then
      IDPTbl_addr s + j * 4096 + PT_PERM_PTU else PDirPool s 0 j))\<rparr>" by simp
qed simp_all

text \<open>The directories after \<^verbatim>\<open>pdir_init_kern\<close>.\<close>

definition boot_dirs :: "u32 \<Rightarrow> (u32 \<Rightarrow> u32 \<Rightarrow> u32) \<Rightarrow> bool" where
  "boot_dirs b pd \<longleftrightarrow> (\<forall>p < NUM_IDS. \<forall>d < 1024.
     pd p d = (if user_dir p d then 0 else b + d * 4096 + PT_PERM_PTU))"

lemma boot_dirs_zero: "boot_dirs b pd \<Longrightarrow> user_dir p d \<Longrightarrow> pd p d = 0"
proof -
  assume "boot_dirs b pd" "user_dir p d"
  moreover from \<open>user_dir p d\<close> have "p < NUM_IDS" "d < 1024"
    by (auto simp: user_dir_def intro: less_trans)
  ultimately show ?thesis by (simp add: boot_dirs_def)
qed

lemma boot_dirs_live: "boot_dirs b pd \<Longrightarrow> \<not> live pd m x"
  by (cases x) (auto simp: boot_dirs_zero)

lemma vm_inv_boot:
  assumes "id_base_ok b" and "boot_dirs b pd"
    and "\<forall>d < 1024. \<forall>j < 1024. load32 m (entry_at (b div 4096 + d) j) = id_val d j"
  shows "vm_inv {} pd m b"
proof -
  have zero: "pd p d = 0" if "user_dir p d" for p d
    using boot_dirs_zero [OF assms(2) that] .
  have "\<not> live pd m x" for x using boot_dirs_live [OF assms(2)] .
  then show ?thesis
    using assms zero by (auto simp: vm_inv_def id_base_ok_def boot_dirs_def id_val_def)
qed

lemma mboot_only_mpt:
  assumes "mboot_only s t"
  shows "IDPTbl_addr t = IDPTbl_addr s" and "PDirPool_addr t = PDirPool_addr s" and "ks_magic t = ks_magic s"
    and "last_palloc_index t = last_palloc_index s" and "CONTAINER t = CONTAINER s" and "pt_lk t = pt_lk s"
proof -
  obtain a b c d e f where "t = s\<lparr>pmmap_slots_next_free := a, pmmap_list := b, pmmap_sublist := c,
      max_usable_memory := d, mem_npages := e, pmmap_nentries := f\<rparr>"
    using assms unfolding mboot_only_def by blast
  then show "IDPTbl_addr t = IDPTbl_addr s" "PDirPool_addr t = PDirPool_addr s" "ks_magic t = ks_magic s"
    "last_palloc_index t = last_palloc_index s" "CONTAINER t = CONTAINER s" "pt_lk t = pt_lk s"
    by simp_all
qed

text \<open>After \<^verbatim>\<open>container_init\<close>: no page is allocated, page 0 is a kernel page.\<close>

lemma container_init_mat:
  fixes s :: "'a mpt_scheme"
  assumes "pmmap_slots_next_free s = 0" and "pmmap_nentries s = 0" and "length rows \<le> 128"
    and "mm_type ` set rows \<subseteq> {MEM_RAM, MEM_RESERVED, MEM_ACPI, MEM_NVS}"
    and "\<exists>r \<in> set rows. row_addrs r \<noteq> {}" and "ks_magic s = KSTACK_MAGIC"
    and "last_palloc_index s \<le> AT_SIZE"
  shows "kwp (container_init (pmmap_init rows)) (\<lambda>_ t. mat_ok t \<and> perms_ok t \<and> owned_pages t = {} \<and>
      IDPTbl_addr t = IDPTbl_addr s \<and> pt_lk t = pt_lk s) s"
proof -
  have dev: "kwp (pmmap_init rows) (\<lambda>_ t. table_ok t \<and> (pmmap_list t \<noteq> [] \<and> mboot_only s t)) s"
  proof (rule kwp_mono [OF pmmap_init_wp [OF assms(1,3,4)]])
    fix t
    assume t: "mboot_only s t \<and> represents (pmmap_list t) (set rows) \<and> length (pmmap_list t) \<le> 128 \<and>
      pmmap_nentries t = pmmap_nentries s + of_nat (length (pmmap_list t))"
    have "pmmap_list t \<noteq> []"
    proof
      assume "pmmap_list t = []"
      then have "(\<Union>r \<in> {r \<in> set rows. mm_type r = ty}. row_addrs r) = {}" for ty
        using t by (auto simp: represents_def covered_def)
      with assms(5) show False by blast
    qed
    with t assms(2) show "table_ok t \<and> (pmmap_list t \<noteq> [] \<and> mboot_only s t)"
      by (auto simp: table_ok_def)
  qed
  show ?thesis
  proof (rule container_init_wp [OF dev])
    fix t :: "'a mpt_scheme" and nps q
    assume t: "table_ok t" "pmmap_list t \<noteq> [] \<and> mboot_only s t" "nps \<le> AT_SIZE"
      "\<forall>p \<in> set (pmmap_list t). pm_end p div PAGESIZE < nps"
    then obtain p where "p \<in> set (pmmap_list t)" by (cases "pmmap_list t") auto
    with t(4) have "0 < nps" by (metis word_gt_0 word_not_simps(1))
    moreover have "page_perm (pmmap_list t) 0 = 1" by (simp add: page_perm_def)
    moreover have "VM_USERLO_PI \<le> i \<and> i < VM_USERHI_PI" if "1 < page_perm (pmmap_list t) i" for i
      using that by (auto simp: page_perm_def not_le not_less split: if_splits)
    ultimately show "let u = t\<lparr>mem_lk := spinlock_init, NUM_PAGES := nps,
         AT := (\<lambda>i. if i < nps then \<lparr>perm = page_perm (pmmap_list t) i, allocated = 0\<rparr> else AT t i)\<rparr>
       in unat q = card (free_upto u nps) \<longrightarrow>
          (\<lambda>_ t. mat_ok t \<and> perms_ok t \<and> owned_pages t = {} \<and> IDPTbl_addr t = IDPTbl_addr s \<and> pt_lk t = pt_lk s) ()
          (u\<lparr>CONTAINER := (CONTAINER t)(0 := \<lparr>quota = q, usage = 0, parent = 0, nchildren = 0, used = 1\<rparr>)\<rparr>)"
      using t assms(6,7) mboot_only_mpt [of s t]
      by (auto simp: Let_def mat_ok_def perms_ok_def owned_pages_def)
  qed
qed

lemma vm_ok_boot:
  assumes "mat_ok u" "perms_ok u" "owned_pages u = {}" "id_base_ok (IDPTbl_addr u)" "lock_free l"
    and "boot_dirs (IDPTbl_addr u) pd"
    and "\<forall>d < 1024. \<forall>j < 1024. load32 m (entry_at (IDPTbl_addr u div 4096 + d) j) = id_val d j"
  shows "vm_ok (u\<lparr>phys_mem := m, PDirPool := pd, pt_lk := l, cr3 := x, cr4 := y, cr0 := z\<rparr>)"
proof -
  have "owned_pages (u\<lparr>phys_mem := m, PDirPool := pd, pt_lk := l, cr3 := x, cr4 := y, cr0 := z\<rparr>) = {}"
    using assms(3) by (simp add: owned_pages_def)
  then show ?thesis
    using assms vm_inv_boot [OF assms(4,6,7)] by (simp add: vm_ok_def mat_ok_def perms_ok_def)
qed

lemma mat_ok_magic: "mat_ok t \<Longrightarrow> ks_magic t = KSTACK_MAGIC"
  by (simp add: mat_ok_def)

definition kern_dirs :: "u32 \<Rightarrow> (u32 \<Rightarrow> u32 \<Rightarrow> u32) \<Rightarrow> (u32 \<Rightarrow> u32 \<Rightarrow> u32)" where
  "kern_dirs b pd =
    (\<lambda>i j. if i < NUM_IDS \<and> j < 1024 then init_dir b j else pd i j)
    (0 := (\<lambda>j. if 256 \<le> j \<and> j < 960 then b + j * 4096 + PT_PERM_PTU
       else if (0 :: u32) < NUM_IDS \<and> j < 1024 then init_dir b j else pd 0 j))"

lemma kern_dirs_boot: "boot_dirs b (kern_dirs b pd)"
  by (auto simp: boot_dirs_def kern_dirs_def init_dir_def user_dir_def not_le not_less)

lemma pdir_init_kern_wp:
  assumes boot: "kwp (container_init devinit) (\<lambda>_ t. P t \<and> id_base_ok (IDPTbl_addr t)) s"
    and post: "\<And>t m. P t \<Longrightarrow> id_base_ok (IDPTbl_addr t) \<Longrightarrow>
      \<forall>d < 1024. \<forall>j < 1024. load32 m (entry_at (IDPTbl_addr t div 4096 + d) j) = id_val d j \<Longrightarrow>
      Q () (t\<lparr>phys_mem := m, PDirPool := kern_dirs (IDPTbl_addr t) (PDirPool t)\<rparr>)"
  shows "kwp (pdir_init_kern devinit) Q s"
proof -
  have kern: "kwp (kfor 256 960 (set_pdir_entry_identity 0)) Q
      (t\<lparr>phys_mem := m, PDirPool := (\<lambda>i j. if i < NUM_IDS \<and> j < 1024 then init_dir (IDPTbl_addr t) j else PDirPool t i j)\<rparr>)"
    if "P t" "id_base_ok (IDPTbl_addr t)"
      "\<forall>d < 1024. \<forall>j < 1024. load32 m (entry_at (IDPTbl_addr t div 4096 + d) j) = id_val d j" for t m
    using post [OF that] by (intro kwp_mono [OF pdir_kern_wp]) (simp add: kern_dirs_def cong: if_cong)
  show ?thesis
    unfolding pdir_init_kern_def pdir_init_def idptbl_init_def kwp_kthen
    by (auto intro!: kwp_mono [OF boot] kwp_mono [OF idptbl_rows_wp] kwp_mono [OF pdir_rows_wp] kern
        cong: if_cong)
qed

lemma paging_init_wp:
  assumes boot: "kwp (container_init devinit) (\<lambda>_ t. (mat_ok t \<and> perms_ok t \<and> owned_pages t = {} \<and>
      lock_free (pt_lk t)) \<and> id_base_ok (IDPTbl_addr t)) (s\<lparr>pt_lk := spinlock_init\<rparr>)"
  shows "kwp (paging_init devinit) (\<lambda>_ t. vm_ok t \<and> cr3 t = PDirPool_addr t) s"
proof -
  have "vm_ok (t\<lparr>phys_mem := m, PDirPool := kern_dirs (IDPTbl_addr t) (PDirPool t), cr3 := x, cr4 := y, cr0 := z\<rparr>)"
    if t: "mat_ok t" "perms_ok t" "owned_pages t = {}" "lock_free (pt_lk t)" "id_base_ok (IDPTbl_addr t)"
      "\<forall>d < 1024. \<forall>j < 1024. load32 m (entry_at (IDPTbl_addr t div 4096 + d) j) = id_val d j" for t m x y z
    using vm_ok_boot [OF t(1,2,3,5,4) kern_dirs_boot t(6)] t(4) by simp
  then show ?thesis
    unfolding paging_init_def
    by (simp add: wp pt_spinlock_init_def)
       (rule pdir_init_kern_wp [OF boot];
        auto simp: wp set_pdir_base_def set_cr3_def enable_paging_def mat_ok_magic)
qed

section \<open>Properties\<close>


text \<open>
  C5: alloc_page keeps the isolation invariant for every user address and permission. When it
  succeeds the entry of the address is a page that was not allocated before, with the requested
  permission; no entry of any other address or process changes; when it fails no entry
  changes at all; and it succeeds whenever two pages are left in the quota and above the
  allocator's index.
\<close>

theorem alloc_page_isolation:
  assumes "vm_ok s" and "p < NUM_IDS" and "p \<noteq> 0" and "user_va v" and "prm < 4096"
  shows "kwp (alloc_page p v prm) (\<lambda>r t. vm_ok t \<and> page_mapped p v prm r s t) s"
  using assms user_va_dir [OF assms(4,2,3)] by (intro alloc_page_wp)


section \<open>Witnesses\<close>

text \<open>
  Two processes with one page each. The identity table is what \<open>idptbl_row\<close> writes; pages
  0x40002 and 0x40003 are the page tables of processes 1 and 2, 0x40004 and 0x40005 their pages.
\<close>

definition mpt_base :: mpt where
  "mpt_base = mcontainer.extend
     (con_demo\<lparr>AT := (\<lambda>i. if 0x40002 \<le> i \<and> i \<le> 0x40005 then \<lparr>perm = 2, allocated = 1\<rparr> else AT con_demo i),
        last_palloc_index := 0x40005\<rparr>)
     \<lparr>pt_lk = spinlock_init, PDirPool = kern_dirs 0x100000 (\<lambda>_ _. 0), phys_mem = (\<lambda>_. 0),
      IDPTbl_addr = 0x100000, PDirPool_addr = 0x80000, cr0 = 0, cr3 = 0, cr4 = 0\<rparr>"

definition zero_page :: "u32 \<Rightarrow> memory \<Rightarrow> memory" where
  "zero_page pg m = (\<lambda>a. if a div 4096 = pg then 0 else m a)"

definition demo_mem0 :: memory where
  "demo_mem0 = (case kfor 0 1024 idptbl_row mpt_base of Inl _ \<Rightarrow> (\<lambda>_. 0) | Inr (_, t) \<Rightarrow> phys_mem t)"

definition demo_dirs :: "u32 \<Rightarrow> u32 \<Rightarrow> u32" where
  "demo_dirs =
     (let pd = kern_dirs 0x100000 (\<lambda>_ _. 0); pd1 = pd(1 := (pd 1)(256 := 0x40002 * 4096 + PT_PERM_PTU))
      in pd1(2 := (pd1 2)(256 := 0x40003 * 4096 + PT_PERM_PTU)))"

definition demo_mem :: memory where
  "demo_mem = store32 (entry_at 0x40003 0) (0x40005 * 4096 + 7)
     (store32 (entry_at 0x40002 0) (0x40004 * 4096 + 7) (zero_page 0x40003 (zero_page 0x40002 demo_mem0)))"

definition vm_demo :: mpt where
  "vm_demo = mpt_base\<lparr>PDirPool := demo_dirs, phys_mem := demo_mem\<rparr>"

lemma zero_page_entry: "page_no pg \<Longrightarrow> j < 1024 \<Longrightarrow> load32 (zero_page pg m) (entry_at pg j) = 0"
  using entry_bytes_page [of pg j 0] entry_bytes_page [of pg j 1] entry_bytes_page [of pg j 2]
    entry_bytes_page [of pg j 3]
  by (simp add: load32_def zero_page_def)

lemma zero_page_outside: "same_outside pg m (zero_page pg m)"
  by (simp add: same_outside_def zero_page_def)

lemma demo_owned: "{0x40002, 0x40003, 0x40004, 0x40005} \<subseteq> owned_pages mpt_base"
  by (simp add: owned_pages_def mpt_base_def mcontainer.defs con_demo_def mat.defs mat_demo_def mboot_state.defs)

lemmas demo_defs = mpt_base_def mcontainer.defs con_demo_def mat.defs mat_demo_def
  mboot_demo_def mboot_state.defs cpu_demo_def cpu_state.defs

lemma demo_mat: "mat_ok mpt_base" "perms_ok mpt_base"
proof -
  show "mat_ok mpt_base" by (simp add: mat_ok_def demo_defs)
  show "perms_ok mpt_base"
    by (auto simp: perms_ok_def demo_defs word_le_nat_alt word_less_nat_alt split: if_splits)
qed

lemma demo_mem0_id:
  "\<forall>d < 1024. \<forall>j < 1024. load32 demo_mem0 (entry_at (0x100000 div 4096 + d) j) = id_val d j"
proof -
  have b: "IDPTbl_addr mpt_base = 0x100000" by (simp add: mpt_base_def mcontainer.defs)
  have "id_base_ok (IDPTbl_addr mpt_base)" unfolding b by (simp add: id_base_ok_def)
  from idptbl_rows_wp [OF this] show ?thesis
    unfolding b by (auto simp: demo_mem0_def elim!: kwpE)
qed

lemma vm_demo_ok: "vm_ok vm_demo"
proof -
  let ?A = "owned_pages mpt_base" and ?b = "0x100000 :: u32"
  let ?pd = "kern_dirs ?b (\<lambda>_ _. 0)"
  let ?pd1 = "?pd(1 := (?pd 1)(256 := 0x40002 * 4096 + PT_PERM_PTU))"
  let ?m1 = "zero_page 0x40002 demo_mem0" and ?m2 = "zero_page 0x40003 (zero_page 0x40002 demo_mem0)"
  let ?m3 = "store32 (entry_at 0x40002 0) (0x40004 * 4096 + 7) ?m2"
  have no: "page_no 0x40002" "page_no 0x40003" by (simp_all add: page_no_def)
  have u: "user_dir 1 256" "user_dir 2 256" by (simp_all add: user_dir_def)
  have "vm_inv {} ?pd demo_mem0 ?b"
    using demo_mem0_id kern_dirs_boot by (intro vm_inv_boot) (simp_all add: id_base_ok_def)
  moreover have "\<forall>pg \<in> ?A. VM_USERLO_PI \<le> pg \<and> pg < VM_USERHI_PI"
    using demo_mat(2) by (auto simp: perms_ok_def owned_pages_def)
  ultimately have i0: "vm_inv ?A ?pd demo_mem0 ?b" by (auto intro: vm_inv_mono)
  have z: "?pd 1 256 = 0" "?pd1 2 256 = 0" by (simp_all add: kern_dirs_def init_dir_def)
  have none: "used_pages ?pd demo_mem0 = {}"
    using boot_dirs_live [OF kern_dirs_boot] by (simp add: used_pages_def)
  with demo_owned have f0: "0x40002 \<in> ?A - used_pages ?pd demo_mem0" by simp
  note t1 = vm_inv_table [OF i0 u(1) z(1) f0 zero_page_outside allI [OF impI [OF zero_page_entry [OF no(1)]]]]
  then have s1: "used_pages ?pd1 ?m1 \<subseteq> {0x40002}" using none by simp
  then have f1: "0x40003 \<in> ?A - used_pages ?pd1 ?m1" using demo_owned by auto
  note t2 = vm_inv_table [OF t1(1) u(2) z(2) f1 zero_page_outside allI [OF impI [OF zero_page_entry [OF no(2)]]]]
  let ?pd2 = "?pd1(2 := (?pd1 2)(256 := 0x40003 * 4096 + PT_PERM_PTU))"
  have dirs: "?pd2 1 256 div 4096 = 0x40002" "?pd2 2 256 div 4096 = 0x40003" "?pd2 1 256 \<noteq> 0" "?pd2 2 256 \<noteq> 0"
    by simp_all
  have s2: "used_pages ?pd2 ?m2 \<subseteq> {0x40002, 0x40003}" using t2(2) s1 by blast
  have "0x40004 \<notin> used_pages ?pd2 ?m2" using s2 by auto
  then have "(0x40004 * 4096 + 7 :: u32) div 4096 \<in> ?A - used_pages ?pd2 ?m2"
    using demo_owned by simp
  then have v1: "(0x40004 * 4096 + 7 :: u32) = 0 \<or> (0x40004 * 4096 + 7 :: u32) div 4096 \<in> ?A - used_pages ?pd2 ?m2" ..
  note e1 = vm_inv_entry [OF t2(1) u(1) dirs(3) _ v1, of 0, unfolded dirs(1)]
  have "used_pages ?pd2 ?m3 \<subseteq> {0x40002, 0x40003, 0x40004}" using e1(2) s2 by auto
  then have "0x40005 \<notin> used_pages ?pd2 ?m3" by auto
  then have "(0x40005 * 4096 + 7 :: u32) div 4096 \<in> ?A - used_pages ?pd2 ?m3"
    using demo_owned by simp
  then have v2: "(0x40005 * 4096 + 7 :: u32) = 0 \<or> (0x40005 * 4096 + 7 :: u32) div 4096 \<in> ?A - used_pages ?pd2 ?m3" ..
  have "vm_inv ?A ?pd2 demo_mem ?b"
    using vm_inv_entry(1) [OF e1(1) u(2) dirs(4) _ v2, of 0, unfolded dirs(2)] by (simp add: demo_mem_def)
  moreover have "demo_dirs = ?pd2" by (simp add: demo_dirs_def Let_def)
  moreover have "owned_pages vm_demo = ?A" by (simp add: vm_demo_def owned_pages_def)
  ultimately show ?thesis
    using demo_mat by (simp add: vm_ok_def vm_demo_def mat_ok_def perms_ok_def, simp add: mpt_base_def mcontainer.defs)
qed

lemma vm_demo_walk:
  "mmu_user vm_demo 1 0x40000010 = Some 0x40004010" "mmu_user vm_demo 2 0x40000010 = Some 0x40005010"
proof -
  have no: "page_no 0x40002" "page_no 0x40003" by (simp_all add: page_no_def)
  have "load32 demo_mem (entry_at 0x40002 0) = 0x40004007" "load32 demo_mem (entry_at 0x40003 0) = 0x40005007"
    using load32_entry_store [OF no(2,1), of 0 0] load32_entry_store [OF no(1,1), of 0 0]
      load32_entry_store [OF no(2,2), of 0 0] by (simp_all add: demo_mem_def)
  then show "mmu_user vm_demo 1 0x40000010 = Some 0x40004010" "mmu_user vm_demo 2 0x40000010 = Some 0x40005010"
    by (simp_all add: mmu_user_def Let_def vm_demo_def demo_dirs_def pde_of_def pte_of_def ptbl_addr_entry)
qed


theorem alloc_page_isolation_witness:
  "kwp (alloc_page 1 0x40001234 7) (\<lambda>r t. vm_ok t \<and> page_mapped 1 0x40001234 7 r vm_demo t) vm_demo"
  using vm_demo_ok by (rule alloc_page_isolation) (simp_all add: user_va_def)


end
