(* ===== verification/PTQueue.thy ===== *)
theory PTQueue
  imports MPT
begin

text \<open>
  Threads and their queues (kern/thread): current thread ids (PCurID), thread control blocks
  (PTCBIntro, PTCBInit) and thread queues, doubly linked lists inside the control blocks
  (PTQueueIntro, PTQueueInit). The state record also holds what the layers above add to a
  thread: the saved kernel contexts and the scheduler's lock and tick counters (PThread).

  Pointers to file and inode slots are indices into the tables of kern/fs, with \<open>None\<close> for
  the null pointer. A sleep channel is an address that is only compared; \<open>sleep_chan\<close> names the
  objects the kernel sleeps on.

  \<open>queue_rep\<close> relates the links to the list of queued threads. The operations are shown to
  append, to take the head and to remove an element of that list, changing no other field of
  any control block; the locale \<open>fifo_queue\<close> states that contract for the scheduler.
\<close>

datatype t_state = TSTATE_READY | TSTATE_RUN | TSTATE_SLEEP | TSTATE_DEAD

datatype sleep_chan = NoChan | BufChan u32 | InodeChan u32 | LogChan

record TCB =
  t_status :: t_state
  t_prev :: u32
  t_next :: u32
  channel :: sleep_chan
  openfiles :: "u32 \<Rightarrow> u32 option"
  cwd :: "u32 option"

record TQueue =
  q_head :: u32
  q_tail :: u32

record kctx =
  k_esp :: u32
  k_edi :: u32
  k_esi :: u32
  k_ebx :: u32
  k_ebp :: u32
  k_eip :: u32

record thread = mpt +
  CURID :: "u32 \<Rightarrow> u32"
  TCBPool :: "u32 \<Rightarrow> TCB"
  TQueuePool :: "u32 \<Rightarrow> u32 \<Rightarrow> TQueue"
  kctx_pool :: "u32 \<Rightarrow> kctx"
  regs :: kctx
  proc_kstack_addr :: u32
  sched_lk :: spinlock_t
  sched_ticks :: "u32 \<Rightarrow> u32"

abbreviation (input) NOFILE :: u32 where "NOFILE \<equiv> 16"
abbreviation (input) SCHED_SLICE :: u32 where "SCHED_SLICE \<equiv> 5"
abbreviation (input) LAPIC_TIMER_INTR_FREQ :: u32 where "LAPIC_TIMER_INTR_FREQ \<equiv> 1000"

section \<open>PCurID, PTCBIntro, PTQueueIntro\<close>

definition get_curid :: "('a thread_scheme, u32) kprog" where
  "get_curid = kbind get_pcpu_idx (\<lambda>c.
     kthen (kassert (c < NUM_CPUS) (Fault ''CURID'')) (kgets (\<lambda>s. CURID s c)))"

definition set_curid :: "u32 \<Rightarrow> ('a thread_scheme, unit) kprog" where
  "set_curid i = kbind get_pcpu_idx (\<lambda>c.
     kthen (kassert (c < NUM_CPUS) (Fault ''CURID'')) (kmodify (\<lambda>s. s\<lparr>CURID := (CURID s)(c := i)\<rparr>)))"

definition tcb_get :: "u32 \<Rightarrow> ('a thread_scheme, TCB) kprog" where
  "tcb_get pid = kthen (kassert (pid < NUM_IDS) (Fault ''TCBPool'')) (kgets (\<lambda>s. TCBPool s pid))"

definition tcb_upd :: "u32 \<Rightarrow> (TCB \<Rightarrow> TCB) \<Rightarrow> ('a thread_scheme, unit) kprog" where
  "tcb_upd pid f = kthen (kassert (pid < NUM_IDS) (Fault ''TCBPool''))
     (kmodify (\<lambda>s. s\<lparr>TCBPool := (TCBPool s)(pid := f (TCBPool s pid))\<rparr>))"

definition tcb_get_state :: "u32 \<Rightarrow> ('a thread_scheme, t_state) kprog" where
  "tcb_get_state pid = kbind (tcb_get pid) (\<lambda>t. kreturn (t_status t))"

definition tcb_set_state :: "u32 \<Rightarrow> t_state \<Rightarrow> ('a thread_scheme, unit) kprog" where
  "tcb_set_state pid st = tcb_upd pid (\<lambda>t. t\<lparr>t_status := st\<rparr>)"

definition tcb_get_prev :: "u32 \<Rightarrow> ('a thread_scheme, u32) kprog" where
  "tcb_get_prev pid = kbind (tcb_get pid) (\<lambda>t. kreturn (t_prev t))"

definition tcb_set_prev :: "u32 \<Rightarrow> u32 \<Rightarrow> ('a thread_scheme, unit) kprog" where
  "tcb_set_prev pid p = tcb_upd pid (\<lambda>t. t\<lparr>t_prev := p\<rparr>)"

definition tcb_get_next :: "u32 \<Rightarrow> ('a thread_scheme, u32) kprog" where
  "tcb_get_next pid = kbind (tcb_get pid) (\<lambda>t. kreturn (t_next t))"

definition tcb_set_next :: "u32 \<Rightarrow> u32 \<Rightarrow> ('a thread_scheme, unit) kprog" where
  "tcb_set_next pid n = tcb_upd pid (\<lambda>t. t\<lparr>t_next := n\<rparr>)"

text \<open>\<^verbatim>\<open>tcb_init_at_id\<close> looks up the root directory, a call into the file system that is an argument.\<close>

definition tcb_init_at_id ::
  "('a thread_scheme, u32 option) kprog \<Rightarrow> u32 \<Rightarrow> ('a thread_scheme, unit) kprog" where
  "tcb_init_at_id namei_root pid =
     kthen (tcb_upd pid (\<lambda>t. t\<lparr>t_status := TSTATE_DEAD\<rparr>))
     (kthen (tcb_upd pid (\<lambda>t. t\<lparr>t_prev := NUM_IDS\<rparr>))
     (kthen (tcb_upd pid (\<lambda>t. t\<lparr>t_next := NUM_IDS\<rparr>))
     (kthen (tcb_upd pid (\<lambda>t. t\<lparr>channel := NoChan\<rparr>))
     (kthen (tcb_upd pid (\<lambda>t. t\<lparr>openfiles := (\<lambda>fd. if fd < NOFILE then None else openfiles t fd)\<rparr>))
     (kbind namei_root (\<lambda>d. tcb_upd pid (\<lambda>t. t\<lparr>cwd := d\<rparr>)))))))"

definition tcb_get_chan :: "u32 \<Rightarrow> ('a thread_scheme, sleep_chan) kprog" where
  "tcb_get_chan pid = kbind (tcb_get pid) (\<lambda>t. kreturn (channel t))"

definition tcb_set_chan :: "u32 \<Rightarrow> sleep_chan \<Rightarrow> ('a thread_scheme, unit) kprog" where
  "tcb_set_chan pid c = tcb_upd pid (\<lambda>t. t\<lparr>channel := c\<rparr>)"

definition tcb_get_openfiles :: "u32 \<Rightarrow> ('a thread_scheme, u32 \<Rightarrow> u32 option) kprog" where
  "tcb_get_openfiles pid = kbind (tcb_get pid) (\<lambda>t. kreturn (openfiles t))"

definition tcb_set_openfiles :: "u32 \<Rightarrow> u32 \<Rightarrow> u32 option \<Rightarrow> ('a thread_scheme, unit) kprog" where
  "tcb_set_openfiles pid fd f =
     kthen (kassert (fd < NOFILE) (Fault ''openfiles''))
           (tcb_upd pid (\<lambda>t. t\<lparr>openfiles := (openfiles t)(fd := f)\<rparr>))"

definition tcb_get_cwd :: "u32 \<Rightarrow> ('a thread_scheme, u32 option) kprog" where
  "tcb_get_cwd pid = kbind (tcb_get pid) (\<lambda>t. kreturn (cwd t))"

definition tcb_set_cwd :: "u32 \<Rightarrow> u32 option \<Rightarrow> ('a thread_scheme, unit) kprog" where
  "tcb_set_cwd pid d = tcb_upd pid (\<lambda>t. t\<lparr>cwd := d\<rparr>)"

definition tq_get :: "u32 \<Rightarrow> ('a thread_scheme, TQueue) kprog" where
  "tq_get chid = kbind get_pcpu_idx (\<lambda>c.
     kthen (kassert (c < NUM_CPUS \<and> chid \<le> NUM_IDS) (Fault ''TQueuePool'')) (kgets (\<lambda>s. TQueuePool s c chid)))"

definition tq_store :: "u32 \<Rightarrow> u32 \<Rightarrow> (TQueue \<Rightarrow> TQueue) \<Rightarrow> ('a thread_scheme, unit) kprog" where
  "tq_store c chid f =
     kthen (kassert (c < NUM_CPUS \<and> chid \<le> NUM_IDS) (Fault ''TQueuePool''))
     (kmodify (\<lambda>s. s\<lparr>TQueuePool := (TQueuePool s)(c := (TQueuePool s c)(chid := f (TQueuePool s c chid)))\<rparr>))"

definition tqueue_get_head :: "u32 \<Rightarrow> ('a thread_scheme, u32) kprog" where
  "tqueue_get_head chid = kbind (tq_get chid) (\<lambda>q. kreturn (q_head q))"

definition tqueue_set_head :: "u32 \<Rightarrow> u32 \<Rightarrow> ('a thread_scheme, unit) kprog" where
  "tqueue_set_head chid h = kbind get_pcpu_idx (\<lambda>c. tq_store c chid (\<lambda>q. q\<lparr>q_head := h\<rparr>))"

definition tqueue_get_tail :: "u32 \<Rightarrow> ('a thread_scheme, u32) kprog" where
  "tqueue_get_tail chid = kbind (tq_get chid) (\<lambda>q. kreturn (q_tail q))"

definition tqueue_set_tail :: "u32 \<Rightarrow> u32 \<Rightarrow> ('a thread_scheme, unit) kprog" where
  "tqueue_set_tail chid t = kbind get_pcpu_idx (\<lambda>c. tq_store c chid (\<lambda>q. q\<lparr>q_tail := t\<rparr>))"

definition tqueue_init_at_id :: "u32 \<Rightarrow> u32 \<Rightarrow> ('a thread_scheme, unit) kprog" where
  "tqueue_init_at_id c chid =
     kthen (tq_store c chid (\<lambda>q. q\<lparr>q_head := NUM_IDS\<rparr>)) (tq_store c chid (\<lambda>q. q\<lparr>q_tail := NUM_IDS\<rparr>))"

section \<open>PTCBInit, PTQueueInit\<close>

definition tcb_init ::
  "('a thread_scheme, u32 option) kprog \<Rightarrow> ('a thread_scheme, unit) kprog \<Rightarrow> ('a thread_scheme, unit) kprog" where
  "tcb_init namei_root devinit = kthen (paging_init devinit) (kfor 0 NUM_IDS (tcb_init_at_id namei_root))"

definition tqueue_init ::
  "('a thread_scheme, u32 option) kprog \<Rightarrow> ('a thread_scheme, unit) kprog \<Rightarrow> ('a thread_scheme, unit) kprog" where
  "tqueue_init namei_root devinit =
     kthen (tcb_init namei_root devinit)
           (kfor 0 NUM_CPUS (\<lambda>c. kfor 0 (NUM_IDS + 1) (tqueue_init_at_id c)))"

definition tqueue_enqueue :: "u32 \<Rightarrow> u32 \<Rightarrow> ('a thread_scheme, unit) kprog" where
  "tqueue_enqueue chid pid =
     kbind (tqueue_get_tail chid) (\<lambda>tail.
     if tail = NUM_IDS then
       kthen (tcb_set_prev pid NUM_IDS)
       (kthen (tcb_set_next pid NUM_IDS)
       (kthen (tqueue_set_head chid pid)
              (tqueue_set_tail chid pid)))
     else
       kthen (tcb_set_next tail pid)
       (kthen (tcb_set_prev pid tail)
       (kthen (tcb_set_next pid NUM_IDS)
              (tqueue_set_tail chid pid))))"

definition tqueue_dequeue :: "u32 \<Rightarrow> ('a thread_scheme, u32) kprog" where
  "tqueue_dequeue chid =
     kbind (tqueue_get_head chid) (\<lambda>head.
     if head \<noteq> NUM_IDS then
       kbind (tcb_get_next head) (\<lambda>nxt.
       kthen (if nxt = NUM_IDS
              then kthen (tqueue_set_head chid NUM_IDS) (tqueue_set_tail chid NUM_IDS)
              else kthen (tcb_set_prev nxt NUM_IDS) (tqueue_set_head chid nxt))
       (kthen (tcb_set_prev head NUM_IDS)
       (kthen (tcb_set_next head NUM_IDS)
              (kreturn head))))
     else kreturn NUM_IDS)"

definition tqueue_remove :: "u32 \<Rightarrow> u32 \<Rightarrow> ('a thread_scheme, unit) kprog" where
  "tqueue_remove chid pid =
     kbind (tcb_get_prev pid) (\<lambda>prv.
     kbind (tcb_get_next pid) (\<lambda>nxt.
     kthen (if prv = NUM_IDS then
              if nxt = NUM_IDS
              then kthen (tqueue_set_head chid NUM_IDS) (tqueue_set_tail chid NUM_IDS)
              else kthen (tcb_set_prev nxt NUM_IDS) (tqueue_set_head chid nxt)
            else
              if nxt = NUM_IDS
              then kthen (tcb_set_next prv NUM_IDS) (tqueue_set_tail chid prv)
              else kthen (kwhen (prv \<noteq> nxt) (tcb_set_next prv nxt)) (tcb_set_prev nxt prv))
     (kthen (tcb_set_prev pid NUM_IDS) (tcb_set_next pid NUM_IDS))))"

section \<open>Queues as lists\<close>

definition hd_or :: "u32 list \<Rightarrow> u32 \<Rightarrow> u32" where
  "hd_or xs n = (case xs of [] \<Rightarrow> n | x # _ \<Rightarrow> x)"

definition last_or :: "u32 list \<Rightarrow> u32 \<Rightarrow> u32" where
  "last_or xs p = (if xs = [] then p else last xs)"

text \<open>The control blocks link \<open>xs\<close>: the first element has predecessor \<open>p\<close>, the last one successor \<open>n\<close>.\<close>

fun lseg :: "(u32 \<Rightarrow> TCB) \<Rightarrow> u32 \<Rightarrow> u32 list \<Rightarrow> u32 \<Rightarrow> bool" where
  "lseg T p [] n \<longleftrightarrow> True"
| "lseg T p (x # xs) n \<longleftrightarrow> x < NUM_IDS \<and> t_prev (T x) = p \<and> t_next (T x) = hd_or xs n \<and> lseg T x xs n"

definition queue_rep :: "(u32 \<Rightarrow> TCB) \<Rightarrow> TQueue \<Rightarrow> u32 list \<Rightarrow> bool" where
  "queue_rep T q xs \<longleftrightarrow> q_head q = hd_or xs NUM_IDS \<and> q_tail q = last_or xs NUM_IDS \<and>
     distinct xs \<and> lseg T NUM_IDS xs NUM_IDS"

lemma hd_or_simps [simp]: "hd_or [] n = n" "hd_or (x # xs) n = x" "hd_or (xs @ ys) n = hd_or xs (hd_or ys n)"
  by (simp_all add: hd_or_def split: list.split)

lemma last_or_simps [simp]: "last_or [] p = p" "last_or (x # xs) p = last_or xs x"
  "last_or (xs @ ys) p = last_or ys (last_or xs p)"
  by (auto simp: last_or_def)

lemma lseg_append: "lseg T p (xs @ ys) n \<longleftrightarrow> lseg T p xs (hd_or ys n) \<and> lseg T (last_or xs p) ys n"
  by (induction xs arbitrary: p) auto

lemma lseg_ids: "lseg T p xs n \<Longrightarrow> x \<in> set xs \<Longrightarrow> x < NUM_IDS"
  by (induction xs arbitrary: p) auto

lemma lseg_cong:
  "(\<And>x. x \<in> set xs \<Longrightarrow> t_prev (T' x) = t_prev (T x) \<and> t_next (T' x) = t_next (T x)) \<Longrightarrow>
     lseg T' p xs n = lseg T p xs n"
  by (induction xs arbitrary: p) auto

lemma lseg_upd [simp]: "x \<notin> set xs \<Longrightarrow> lseg (T(x := v)) p xs n = lseg T p xs n"
  by (rule lseg_cong) auto

lemma lseg_set_next:
  assumes "lseg T p xs n" and "xs \<noteq> []" and "distinct xs"
  shows "lseg (T(last xs := (T (last xs))\<lparr>t_next := n'\<rparr>)) p xs n'"
proof (cases xs rule: rev_cases)
  case (snoc ys y)
  with assms show ?thesis by (simp add: lseg_append)
qed (use assms in simp)

lemma lseg_set_prev:
  assumes "lseg T p xs n" and "xs \<noteq> []" and "distinct xs"
  shows "lseg (T(hd xs := (T (hd xs))\<lparr>t_prev := p'\<rparr>)) p' xs n"
proof (cases xs)
  case (Cons x ys)
  with assms show ?thesis by simp
qed (use assms in simp)

lemma hd_null:
  assumes "lseg T p xs n"
  shows "hd_or xs NUM_IDS = NUM_IDS \<longleftrightarrow> xs = []"
  using lseg_ids [OF assms, of "hd xs"] by (cases xs) auto

lemma last_null:
  assumes "lseg T p xs n"
  shows "last_or xs NUM_IDS = NUM_IDS \<longleftrightarrow> xs = []"
  using lseg_ids [OF assms, of "last xs"] by (cases "xs = []") (auto simp: last_or_def)

text \<open>Appending an element that is in no queue.\<close>

lemma queue_rep_snoc:
  assumes rep: "queue_rep T q xs" and new: "pid \<notin> set xs" "pid < NUM_IDS"
    and q': "q_head q' = hd_or xs pid" "q_tail q' = pid"
  defines "T' \<equiv> (if xs = [] then T else T(last xs := (T (last xs))\<lparr>t_next := pid\<rparr>))"
  shows "queue_rep (T'(pid := (T' pid)\<lparr>t_prev := last_or xs NUM_IDS, t_next := NUM_IDS\<rparr>)) q' (xs @ [pid])"
proof -
  have seg: "lseg T NUM_IDS xs NUM_IDS" and d: "distinct xs" using rep by (auto simp: queue_rep_def)
  have "lseg T' NUM_IDS xs pid"
    using lseg_set_next [OF seg _ d] by (auto simp: T'_def)
  then show ?thesis
    using new d q' by (auto simp: queue_rep_def lseg_append)
qed

text \<open>Unlinking an element anywhere in a queue.\<close>

lemma queue_rep_unlink:
  assumes rep: "queue_rep T q (as @ pid # bs)"
    and q': "q_head q' = hd_or (as @ bs) NUM_IDS" "q_tail q' = last_or (as @ bs) NUM_IDS"
  defines "T1 \<equiv> (if as = [] then T else T(last as := (T (last as))\<lparr>t_next := hd_or bs NUM_IDS\<rparr>))"
  defines "T2 \<equiv> (if bs = [] then T1 else T1(hd bs := (T1 (hd bs))\<lparr>t_prev := last_or as NUM_IDS\<rparr>))"
  shows "queue_rep (T2(pid := (T2 pid)\<lparr>t_prev := NUM_IDS, t_next := NUM_IDS\<rparr>)) q' (as @ bs)"
proof -
  have d: "distinct (as @ pid # bs)" and a: "lseg T NUM_IDS as pid" and b: "lseg T pid bs NUM_IDS"
    using rep by (auto simp: queue_rep_def lseg_append)
  have last: "last as \<notin> set bs" "as \<noteq> [] \<Longrightarrow> last as \<noteq> pid" if "as \<noteq> []"
    using d last_in_set [OF that] by auto
  have hd: "hd bs \<notin> set as" if "bs \<noteq> []"
    using d hd_in_set [OF that] by auto
  have a1: "lseg T1 NUM_IDS as (hd_or bs NUM_IDS)"
    using lseg_set_next [OF a, of "hd_or bs NUM_IDS"] d a by (simp add: T1_def)
  have b1: "lseg T1 pid bs NUM_IDS"
    using b last by (simp add: T1_def)
  have b2: "lseg T2 (last_or as NUM_IDS) bs NUM_IDS"
    using lseg_set_prev [OF b1, of "last_or as NUM_IDS"] d by (simp add: T2_def)
  have a2: "lseg T2 NUM_IDS as (hd_or bs NUM_IDS)"
    using a1 hd by (cases "bs = []") (simp_all add: T2_def)
  have "pid \<notin> set as" "pid \<notin> set bs" "distinct (as @ bs)" using d by auto
  then show ?thesis
    using a2 b2 q' by (simp add: queue_rep_def lseg_append)
qed

section \<open>The queue operations refine list operations\<close>

lemma kwp_get_curid [wp]:
  "kwp get_curid Q s =
     (ks_cpu_idx s < NUM_CPUS \<and> cpu_idx (pcpu s (ks_cpu_idx s)) < NUM_CPUS \<and>
      Q (CURID s (cpu_idx (pcpu s (ks_cpu_idx s)))) s)"
  by (auto simp: get_curid_def wp)

lemma kwp_set_curid [wp]:
  "kwp (set_curid i) Q s =
     (ks_cpu_idx s < NUM_CPUS \<and> cpu_idx (pcpu s (ks_cpu_idx s)) < NUM_CPUS \<and>
      Q () (s\<lparr>CURID := (CURID s)(cpu_idx (pcpu s (ks_cpu_idx s)) := i)\<rparr>))"
  by (auto simp: set_curid_def wp)

lemma kwp_tcb_get [wp]: "kwp (tcb_get pid) Q s = (pid < NUM_IDS \<and> Q (TCBPool s pid) s)"
  by (simp add: tcb_get_def wp)

lemma kwp_tcb_upd [wp]:
  "kwp (tcb_upd pid f) Q s =
     (pid < NUM_IDS \<and> Q () (s\<lparr>TCBPool := (TCBPool s)(pid := f (TCBPool s pid))\<rparr>))"
  by (simp add: tcb_upd_def wp)

lemma kwp_tq_get [wp]:
  "kwp (tq_get chid) Q s =
     (ks_cpu_idx s < NUM_CPUS \<and> cpu_idx (pcpu s (ks_cpu_idx s)) < NUM_CPUS \<and> chid \<le> NUM_IDS \<and>
      Q (TQueuePool s (cpu_idx (pcpu s (ks_cpu_idx s))) chid) s)"
  by (auto simp: tq_get_def wp)

lemma kwp_tq_store [wp]:
  "kwp (tq_store c chid f) Q s =
     (c < NUM_CPUS \<and> chid \<le> NUM_IDS \<and>
      Q () (s\<lparr>TQueuePool := (TQueuePool s)(c := (TQueuePool s c)(chid := f (TQueuePool s c chid)))\<rparr>))"
  by (auto simp: tq_store_def wp)

lemmas tcb_defs = tcb_get_state_def tcb_set_state_def tcb_get_prev_def tcb_set_prev_def tcb_get_next_def
  tcb_set_next_def tcb_get_chan_def tcb_set_chan_def

lemmas tq_defs = tqueue_get_head_def tqueue_set_head_def tqueue_get_tail_def tqueue_set_tail_def

text \<open>Only the links of the control blocks in \<open>A\<close> change.\<close>

definition links_only :: "u32 set \<Rightarrow> (u32 \<Rightarrow> TCB) \<Rightarrow> (u32 \<Rightarrow> TCB) \<Rightarrow> bool" where
  "links_only A T T' \<longleftrightarrow>
     (\<forall>x. (x \<notin> A \<longrightarrow> T' x = T x) \<and> T' x = (T x)\<lparr>t_prev := t_prev (T' x), t_next := t_next (T' x)\<rparr>)"

lemma links_onlyD:
  assumes "links_only A T T'"
  shows "t_status (T' x) = t_status (T x)" "channel (T' x) = channel (T x)"
    "openfiles (T' x) = openfiles (T x)" "cwd (T' x) = cwd (T x)" "x \<notin> A \<Longrightarrow> T' x = T x"
proof -
  have *: "T' x = (T x)\<lparr>t_prev := t_prev (T' x), t_next := t_next (T' x)\<rparr>"
    using assms by (auto simp: links_only_def)
  show "t_status (T' x) = t_status (T x)" using arg_cong [OF *, of t_status] by simp
  show "channel (T' x) = channel (T x)" using arg_cong [OF *, of channel] by simp
  show "openfiles (T' x) = openfiles (T x)" using arg_cong [OF *, of openfiles] by simp
  show "cwd (T' x) = cwd (T x)" using arg_cong [OF *, of cwd] by simp
  show "x \<notin> A \<Longrightarrow> T' x = T x" using assms by (simp add: links_only_def)
qed

lemma links_onlyI:
  assumes "\<And>x. x \<notin> A \<Longrightarrow> T' x = T x"
    and "\<And>x. t_status (T' x) = t_status (T x) \<and> channel (T' x) = channel (T x) \<and>
              openfiles (T' x) = openfiles (T x) \<and> cwd (T' x) = cwd (T x)"
  shows "links_only A T T'"
  using assms by (auto simp: links_only_def intro!: TCB.equality)

lemma links_only_trans: "links_only A T T' \<Longrightarrow> links_only B T' T'' \<Longrightarrow> links_only (A \<union> B) T T''"
  by (intro links_onlyI) (auto simp: links_onlyD)

lemma queue_rep_frame: "links_only A T T' \<Longrightarrow> set ys \<inter> A = {} \<Longrightarrow> queue_rep T q ys \<Longrightarrow> queue_rep T' q ys"
  using lseg_cong [of ys T' T NUM_IDS NUM_IDS] by (auto simp: queue_rep_def links_onlyD(5) disjoint_iff)

lemma queue_rep_same_links:
  "(\<And>x. t_prev (T' x) = t_prev (T x) \<and> t_next (T' x) = t_next (T x)) \<Longrightarrow> queue_rep T' q ys = queue_rep T q ys"
  by (simp add: queue_rep_def cong: lseg_cong)

text \<open>One step on queue \<open>chid\<close> of the running CPU, from contents \<open>xs\<close> to \<open>ys\<close>.\<close>

definition queue_holds :: "u32 \<Rightarrow> 'a thread_scheme \<Rightarrow> u32 list \<Rightarrow> bool" where
  "queue_holds chid s xs \<longleftrightarrow> cpu_ok s \<and> chid \<le> NUM_IDS \<and>
     queue_rep (TCBPool s) (TQueuePool s (ks_cpu_idx s) chid) xs"

definition queue_step :: "u32 \<Rightarrow> u32 set \<Rightarrow> 'a thread_scheme \<Rightarrow> 'a thread_scheme \<Rightarrow> bool" where
  "queue_step chid A s t \<longleftrightarrow> links_only A (TCBPool s) (TCBPool t) \<and>
     t = s\<lparr>TCBPool := TCBPool t,
           TQueuePool := (TQueuePool s)(ks_cpu_idx s := (TQueuePool s (ks_cpu_idx s))
             (chid := TQueuePool t (ks_cpu_idx s) chid))\<rparr>"

lemma queue_stepI:
  assumes "t = s\<lparr>TCBPool := T, TQueuePool := (TQueuePool s)(ks_cpu_idx s := (TQueuePool s (ks_cpu_idx s))(chid := q))\<rparr>"
    and "links_only A (TCBPool s) T" and "queue_rep T q ys" and "queue_holds chid s xs"
  shows "queue_holds chid t ys \<and> queue_step chid A s t"
  using assms by (simp add: queue_holds_def queue_step_def cpu_ok_def)

lemma tqueue_enqueue_wp:
  assumes h: "queue_holds chid s xs" and new: "pid \<notin> set xs" "pid < NUM_IDS"
  shows "kwp (tqueue_enqueue chid pid) (\<lambda>_ t. queue_holds chid t (xs @ [pid]) \<and>
           queue_step chid (insert pid (set xs)) s t) s"
proof -
  have rep: "queue_rep (TCBPool s) (TQueuePool s (ks_cpu_idx s) chid) xs"
    and ok: "cpu_ok s" "chid \<le> NUM_IDS" using h by (auto simp: queue_holds_def)
  then have q: "q_head (TQueuePool s (ks_cpu_idx s) chid) = hd_or xs NUM_IDS"
      "q_tail (TQueuePool s (ks_cpu_idx s) chid) = last_or xs NUM_IDS"
      and seg: "lseg (TCBPool s) NUM_IDS xs NUM_IDS"
    by (auto simp: queue_rep_def)
  show ?thesis
  proof (cases "xs = []")
    case True
    then show ?thesis
      using q ok new queue_rep_snoc [OF rep new]
      by (simp add: tqueue_enqueue_def tcb_defs tq_defs wp cpu_okD)
         (rule queue_stepI [OF refl _ _ h], rule links_onlyI, auto)
  next
    case False
    then have l: "last xs < NUM_IDS" "last xs \<noteq> NUM_IDS" "last xs \<noteq> pid" "last_or xs NUM_IDS = last xs"
      "hd_or xs pid = hd_or xs NUM_IDS" "last xs \<in> set xs"
      using lseg_ids [OF seg, of "last xs"] new by (auto simp: last_or_def hd_or_def split: list.split)
    then show ?thesis
      using q ok new False queue_rep_snoc [OF rep new]
      by (simp add: tqueue_enqueue_def tcb_defs tq_defs wp cpu_okD)
         (rule queue_stepI [OF refl _ _ h], rule links_onlyI, auto)
  qed
qed

lemma queue_stepI_flip:
  assumes "t = s\<lparr>TQueuePool := (TQueuePool s)(ks_cpu_idx s := (TQueuePool s (ks_cpu_idx s))(chid := q)), TCBPool := T\<rparr>"
    and "links_only A (TCBPool s) T" and "queue_rep T q ys" and "queue_holds chid s xs"
  shows "queue_holds chid t ys \<and> queue_step chid A s t"
  using queue_stepI [OF _ assms(2-4), of t] assms(1) by simp

lemma queue_stepI_links:
  assumes "t = s\<lparr>TCBPool := T\<rparr>" and "links_only A (TCBPool s) T"
    and "queue_rep T (TQueuePool s (ks_cpu_idx s) chid) ys" and "queue_holds chid s xs"
  shows "queue_holds chid t ys \<and> queue_step chid A s t"
  using queue_stepI [OF _ assms(2-4), of t] assms(1) by simp

lemma tqueue_remove_wp:
  assumes h: "queue_holds chid s (as @ pid # bs)"
  shows "kwp (tqueue_remove chid pid) (\<lambda>_ t. queue_holds chid t (as @ bs) \<and>
           queue_step chid (set (as @ pid # bs)) s t) s"
proof -
  have rep: "queue_rep (TCBPool s) (TQueuePool s (ks_cpu_idx s) chid) (as @ pid # bs)"
    and ok: "cpu_ok s" "chid \<le> NUM_IDS" using h by (auto simp: queue_holds_def)
  then have q: "q_head (TQueuePool s (ks_cpu_idx s) chid) = hd_or as pid"
      "q_tail (TQueuePool s (ks_cpu_idx s) chid) = last_or bs pid"
      "t_prev (TCBPool s pid) = last_or as NUM_IDS" "t_next (TCBPool s pid) = hd_or bs NUM_IDS" "pid < NUM_IDS"
      and seg: "lseg (TCBPool s) NUM_IDS as pid" "lseg (TCBPool s) pid bs NUM_IDS"
      and d: "distinct (as @ pid # bs)"
    by (auto simp: queue_rep_def lseg_append)
  have a: "last as < NUM_IDS" "last as \<noteq> NUM_IDS" "last as \<noteq> pid" "last_or as n = last as" "hd_or as n = hd as"
    "last as \<in> set as" "last as \<notin> set bs" if "as \<noteq> []" for n
    using that lseg_ids [OF seg(1), of "last as"] last_in_set [OF that] d
    by (auto simp: disjoint_iff last_or_def hd_or_def split: list.split)
  have b: "hd bs < NUM_IDS" "hd bs \<noteq> NUM_IDS" "hd bs \<noteq> pid" "last_or bs n = last bs" "hd_or bs n = hd bs"
    "hd bs \<in> set bs" "hd bs \<notin> set as" if "bs \<noteq> []" for n
    using that lseg_ids [OF seg(2), of "hd bs"] hd_in_set [OF that] d
    by (auto simp: disjoint_iff last_or_def hd_or_def split: list.split)
  have ab: "last as \<noteq> hd bs" if "as \<noteq> []" "bs \<noteq> []" using a(7) [OF that(1)] b(6) [OF that(2)] by metis
  note unl = queue_rep_unlink [OF rep]
  show ?thesis
  proof (cases "as = []"; cases "bs = []")
    assume "as = []" "bs = []"
    with q ok unl show ?thesis
      by (simp add: tqueue_remove_def tcb_defs tq_defs wp cpu_okD)
         (rule queue_stepI [OF refl _ _ h] queue_stepI_flip [OF refl _ _ h], rule links_onlyI, auto)
  next
    assume "as = []" "bs \<noteq> []"
    with q ok unl b show ?thesis
      by (simp add: tqueue_remove_def tcb_defs tq_defs wp cpu_okD)
         (rule queue_stepI [OF refl _ _ h] queue_stepI_flip [OF refl _ _ h], rule links_onlyI, auto)
  next
    assume "as \<noteq> []" "bs = []"
    with q ok unl a show ?thesis
      by (simp add: tqueue_remove_def tcb_defs tq_defs wp cpu_okD)
         (rule queue_stepI [OF refl _ _ h] queue_stepI_flip [OF refl _ _ h], rule links_onlyI, auto)
  next
    assume "as \<noteq> []" "bs \<noteq> []"
    with q ok unl a b ab show ?thesis
      by (simp add: tqueue_remove_def tcb_defs tq_defs wp cpu_okD)
         (rule queue_stepI_links [OF refl _ _ h], rule links_onlyI, auto)
  qed
qed

lemma tqueue_dequeue_nil_wp:
  assumes "queue_holds chid s []"
  shows "kwp (tqueue_dequeue chid) (\<lambda>r t. r = NUM_IDS \<and> t = s) s"
  using assms by (simp add: tqueue_dequeue_def tq_defs wp cpu_okD queue_holds_def queue_rep_def)

lemma tqueue_dequeue_wp:
  assumes h: "queue_holds chid s (pid # bs)"
  shows "kwp (tqueue_dequeue chid) (\<lambda>r t. r = pid \<and> queue_holds chid t bs \<and>
           queue_step chid (insert pid (set bs)) s t) s"
proof -
  have rep: "queue_rep (TCBPool s) (TQueuePool s (ks_cpu_idx s) chid) ([] @ pid # bs)"
    and ok: "cpu_ok s" "chid \<le> NUM_IDS" using h by (auto simp: queue_holds_def)
  then have q: "q_head (TQueuePool s (ks_cpu_idx s) chid) = pid"
      "q_tail (TQueuePool s (ks_cpu_idx s) chid) = last_or bs pid"
      "t_next (TCBPool s pid) = hd_or bs NUM_IDS" "pid < NUM_IDS" "pid \<noteq> NUM_IDS"
      and seg: "lseg (TCBPool s) pid bs NUM_IDS" and d: "distinct (pid # bs)"
    by (auto simp: queue_rep_def lseg_append)
  have b: "hd bs < NUM_IDS" "hd bs \<noteq> NUM_IDS" "hd bs \<noteq> pid" "last_or bs n = last bs" "hd_or bs n = hd bs"
    if "bs \<noteq> []" for n
    using that lseg_ids [OF seg, of "hd bs"] hd_in_set [OF that] d
    by (auto simp: last_or_def hd_or_def split: list.split)
  note unl = queue_rep_unlink [OF rep]
  show ?thesis
  proof (cases "bs = []")
    case True
    with q ok unl show ?thesis
      by (simp add: tqueue_dequeue_def tcb_defs tq_defs wp cpu_okD)
         (rule queue_stepI_flip [OF refl _ _ h], rule links_onlyI, auto)
  next
    case False
    with q ok unl b show ?thesis
      by (simp add: tqueue_dequeue_def tcb_defs tq_defs wp cpu_okD)
         (rule queue_stepI [OF refl _ _ h] queue_stepI_flip [OF refl _ _ h], rule links_onlyI, auto)
  qed
qed

section \<open>The contract of a queue\<close>

primrec kiter :: "('x \<Rightarrow> ('s, unit) kprog) \<Rightarrow> 'x list \<Rightarrow> ('s, unit) kprog" where
  "kiter f [] = kreturn ()"
| "kiter f (x # xs) = kthen (f x) (kiter f xs)"

locale fifo_queue =
  fixes holds :: "'s \<Rightarrow> u32 list \<Rightarrow> bool"
    and enq :: "u32 \<Rightarrow> ('s, unit) kprog"
    and deq :: "('s, u32) kprog"
    and touches :: "u32 set \<Rightarrow> 's \<Rightarrow> 's \<Rightarrow> bool"
  assumes enq_law: "holds s xs \<Longrightarrow> x \<notin> set xs \<Longrightarrow> x < NUM_IDS \<Longrightarrow>
      kwp (enq x) (\<lambda>_ t. holds t (xs @ [x]) \<and> touches (insert x (set xs)) s t) s"
    and deq_law: "holds s (x # xs) \<Longrightarrow>
      kwp deq (\<lambda>r t. r = x \<and> holds t xs \<and> touches (insert x (set xs)) s t) s"
    and deq_empty: "holds s [] \<Longrightarrow> kwp deq (\<lambda>r t. r = NUM_IDS \<and> t = s) s"
    and touches_trans: "touches A s t \<Longrightarrow> touches B t u \<Longrightarrow> touches (A \<union> B) s u"
begin

lemma rotate:
  assumes "holds s xs" and "x \<notin> set xs" and "x < NUM_IDS"
  shows "kwp (kthen (enq x) deq)
           (\<lambda>r t. r = hd (xs @ [x]) \<and> holds t (tl (xs @ [x])) \<and> touches (insert x (set xs)) s t) s"
proof -
  have eq: "insert (hd (xs @ [x])) (set (tl (xs @ [x]))) = insert x (set xs)"
    by (cases xs) auto
  have "kwp deq (\<lambda>r t. r = hd (xs @ [x]) \<and> holds t (tl (xs @ [x])) \<and> touches (insert x (set xs)) s t) u"
    if "holds u (xs @ [x])" "touches (insert x (set xs)) s u" for u
    using deq_law [of u "hd (xs @ [x])" "tl (xs @ [x])"] that touches_trans [OF that(2), of "insert x (set xs)"]
    by (auto simp: eq insert_absorb elim!: kwp_mono)
  then show ?thesis
    using enq_law [OF assms] by (auto simp: wp elim!: kwp_mono)
qed

lemma fill:
  assumes "holds s xs" and "distinct (xs @ ys)" and "\<forall>y\<in>set ys. y < NUM_IDS"
  shows "kwp (kiter enq ys) (\<lambda>_ t. holds t (xs @ ys)) s"
  using assms
proof (induction ys arbitrary: s xs)
  case (Cons y ys)
  then have "kwp (enq y) (\<lambda>_ t. holds t (xs @ [y])) s"
    by (intro kwp_mono [OF enq_law]) auto
  then show ?case
    using Cons.IH [of _ "xs @ [y]"] Cons.prems by (auto simp: wp elim!: kwp_mono)
qed (simp add: wp)

lemma drain:
  assumes "holds s xs" and "n \<le> length xs"
  shows "kwp (krepeat n deq) (\<lambda>rs t. rs = take n xs \<and> holds t (drop n xs)) s"
  using assms
proof (induction n arbitrary: s xs)
  case (Suc n)
  then obtain y ys where xs: "xs = y # ys" by (cases xs) auto
  then have "kwp deq (\<lambda>r t. r = y \<and> holds t ys) s"
    using Suc.prems by (intro kwp_mono [OF deq_law]) auto
  moreover have "kwp (krepeat n deq) (\<lambda>rs t. rs = take n ys \<and> holds t (drop n ys)) t" if "holds t ys" for t
    using Suc.IH [OF that] Suc.prems xs by simp
  ultimately show ?case
    using xs by (auto simp: wp elim!: kwp_mono)
qed (simp add: wp)

lemma first_in_first_out:
  assumes "holds s xs" and "distinct (xs @ ys)" and "\<forall>y\<in>set ys. y < NUM_IDS"
  shows "kwp (kthen (kiter enq ys) (krepeat (length xs + length ys) deq)) (\<lambda>rs t. rs = xs @ ys \<and> holds t []) s"
  using fill [OF assms] drain [of _ "xs @ ys" "length xs + length ys"] by (auto simp: wp elim!: kwp_mono)

end

lemma queue_step_trans:
  assumes "queue_step chid A s t" and "queue_step chid B t u"
  shows "queue_step chid (A \<union> B) s u"
proof -
  have t: "t = s\<lparr>TCBPool := TCBPool t, TQueuePool := (TQueuePool s)(ks_cpu_idx s := (TQueuePool s (ks_cpu_idx s))
             (chid := TQueuePool t (ks_cpu_idx s) chid))\<rparr>"
    and u: "u = t\<lparr>TCBPool := TCBPool u, TQueuePool := (TQueuePool t)(ks_cpu_idx t := (TQueuePool t (ks_cpu_idx t))
             (chid := TQueuePool u (ks_cpu_idx t) chid))\<rparr>"
    using assms by (simp_all add: queue_step_def)
  have cpu: "ks_cpu_idx t = ks_cpu_idx s" using arg_cong [OF t, of ks_cpu_idx] by simp
  have q: "TQueuePool t = (TQueuePool s)(ks_cpu_idx s := (TQueuePool s (ks_cpu_idx s))
             (chid := TQueuePool t (ks_cpu_idx s) chid))" using arg_cong [OF t, of TQueuePool] by simp
  have q2: "(TQueuePool t)(ks_cpu_idx s := (TQueuePool t (ks_cpu_idx s))(chid := v)) =
     (TQueuePool s)(ks_cpu_idx s := (TQueuePool s (ks_cpu_idx s))(chid := v))" for v
    by (subst q, subst q) simp
  have "u = s\<lparr>TCBPool := TCBPool u, TQueuePool := (TQueuePool s)(ks_cpu_idx s := (TQueuePool s (ks_cpu_idx s))
             (chid := TQueuePool u (ks_cpu_idx s) chid))\<rparr>"
    by (subst u, subst (3) t) (simp add: cpu q2)
  then show ?thesis
    using assms links_only_trans by (auto simp: queue_step_def)
qed

interpretation tq: fifo_queue "queue_holds chid" "tqueue_enqueue chid" "tqueue_dequeue chid" "queue_step chid" for chid
  by unfold_locales
    (simp_all add: tqueue_enqueue_wp tqueue_dequeue_wp tqueue_dequeue_nil_wp queue_step_trans)

lemma queue_stepE:
  assumes "queue_step chid A s t"
  obtains T Q where "t = s\<lparr>TCBPool := T, TQueuePool := Q\<rparr>" and "links_only A (TCBPool s) T"
    and "\<And>c k. (c, k) \<noteq> (ks_cpu_idx s, chid) \<Longrightarrow> Q c k = TQueuePool s c k"
proof
  show "t = s\<lparr>TCBPool := TCBPool t, TQueuePool := (TQueuePool s)(ks_cpu_idx s := (TQueuePool s (ks_cpu_idx s))
             (chid := TQueuePool t (ks_cpu_idx s) chid))\<rparr>" and "links_only A (TCBPool s) (TCBPool t)"
    using assms unfolding queue_step_def by blast+
qed simp

section \<open>Properties\<close>

text \<open>
  C12: thread queues are first in, first out. From a queue holding \<open>xs\<close>, enqueueing the distinct
  threads \<open>ys\<close> one after the other and then dequeueing as often as there are elements returns
  \<open>xs @ ys\<close> in order and leaves the queue empty; no call faults.
\<close>

theorem tqueue_fifo:
  assumes "queue_holds chid s xs" and "distinct (xs @ ys)" and "\<forall>y\<in>set ys. y < NUM_IDS"
  shows "kwp (kthen (kiter (tqueue_enqueue chid) ys) (krepeat (length xs + length ys) (tqueue_dequeue chid)))
           (\<lambda>rs t. rs = xs @ ys \<and> queue_holds chid t []) s"
  using assms by (rule tq.first_in_first_out)

text \<open>
  C32: \<^verbatim>\<open>tqueue_remove\<close> refines removal from a list. Whatever the position of the thread in the queue,
  the queue afterwards holds the other threads in their order, no field of a control block but the two
  links changes, and every other queue whose threads are disjoint is as before.
\<close>

theorem tqueue_remove_refines:
  assumes "queue_holds chid s xs" and "pid \<in> set xs"
  shows "kwp (tqueue_remove chid pid) (\<lambda>_ t. queue_holds chid t (remove1 pid xs) \<and>
           links_only (set xs) (TCBPool s) (TCBPool t) \<and>
           (\<forall>c k ys. (c, k) \<noteq> (ks_cpu_idx s, chid) \<longrightarrow> set ys \<inter> set xs = {} \<longrightarrow>
              queue_rep (TCBPool s) (TQueuePool s c k) ys \<longrightarrow> queue_rep (TCBPool t) (TQueuePool t c k) ys)) s"
proof -
  obtain as bs where xs: "xs = as @ pid # bs" "pid \<notin> set as"
    using assms(2) by (meson split_list_first)
  then have r: "remove1 pid xs = as @ bs" by (simp add: remove1_append)
  have "kwp (tqueue_remove chid pid) (\<lambda>_ t. queue_holds chid t (as @ bs) \<and>
           queue_step chid (set xs) s t) s"
    using tqueue_remove_wp [OF assms(1) [unfolded xs(1)]] by (simp add: xs(1))
  then show ?thesis
    unfolding r
  proof (rule kwp_mono)
    fix u t
    assume t: "queue_holds chid t (as @ bs) \<and> queue_step chid (set xs) s t"
    from t obtain T Q where u: "t = s\<lparr>TCBPool := T, TQueuePool := Q\<rparr>" "links_only (set xs) (TCBPool s) T"
      "\<And>c k. (c, k) \<noteq> (ks_cpu_idx s, chid) \<Longrightarrow> Q c k = TQueuePool s c k"
      by (elim conjE queue_stepE) blast
    show "queue_holds chid t (as @ bs) \<and> links_only (set xs) (TCBPool s) (TCBPool t) \<and>
           (\<forall>c k ys. (c, k) \<noteq> (ks_cpu_idx s, chid) \<longrightarrow> set ys \<inter> set xs = {} \<longrightarrow>
              queue_rep (TCBPool s) (TQueuePool s c k) ys \<longrightarrow> queue_rep (TCBPool t) (TQueuePool t c k) ys)"
      using t u(2,3) queue_rep_frame [OF u(2)] unfolding u(1) by auto
  qed
qed

section \<open>Witnesses\<close>

text \<open>Thread 0 runs, threads 1 and 2 are ready in this order, thread 3 sleeps on the log.\<close>

definition tcb_demo :: "u32 \<Rightarrow> TCB" where
  "tcb_demo = (\<lambda>_. \<lparr>t_status = TSTATE_DEAD, t_prev = NUM_IDS, t_next = NUM_IDS, channel = NoChan,
                    openfiles = (\<lambda>_. None), cwd = None\<rparr>)
     (0 := \<lparr>t_status = TSTATE_RUN, t_prev = NUM_IDS, t_next = NUM_IDS, channel = NoChan,
                    openfiles = (\<lambda>_. None), cwd = None\<rparr>,
      1 := \<lparr>t_status = TSTATE_READY, t_prev = NUM_IDS, t_next = 2, channel = NoChan,
                    openfiles = (\<lambda>_. None), cwd = None\<rparr>,
      2 := \<lparr>t_status = TSTATE_READY, t_prev = 1, t_next = NUM_IDS, channel = NoChan,
                    openfiles = (\<lambda>_. None), cwd = None\<rparr>,
      3 := \<lparr>t_status = TSTATE_SLEEP, t_prev = NUM_IDS, t_next = NUM_IDS, channel = LogChan,
                    openfiles = (\<lambda>_. None), cwd = None\<rparr>)"

definition thread_demo :: thread where
  "thread_demo = mpt.extend vm_demo
     \<lparr>CURID = (\<lambda>_. 0), TCBPool = tcb_demo,
      TQueuePool = (\<lambda>c k. if c = 0 \<and> k = NUM_IDS then \<lparr>q_head = 1, q_tail = 2\<rparr>
                          else \<lparr>q_head = NUM_IDS, q_tail = NUM_IDS\<rparr>),
      kctx_pool = (\<lambda>_. \<lparr>k_esp = 0, k_edi = 0, k_esi = 0, k_ebx = 0, k_ebp = 0, k_eip = 0\<rparr>),
      regs = \<lparr>k_esp = 0, k_edi = 0, k_esi = 0, k_ebx = 0, k_ebp = 0, k_eip = 0\<rparr>,
      proc_kstack_addr = 0x200000, sched_lk = spinlock_init, sched_ticks = (\<lambda>_. 0)\<rparr>"

lemma thread_demo_cpu: "cpu_ok thread_demo" "ks_cpu_idx thread_demo = 0"
  by (simp_all add: thread_demo_def mpt.defs vm_demo_def demo_defs cpu_ok_def)

lemma thread_demo_queue: "queue_holds NUM_IDS thread_demo [1, 2]"
  using thread_demo_cpu
  by (simp add: queue_holds_def queue_rep_def last_or_def, simp add: thread_demo_def mpt.defs tcb_demo_def)

theorem tqueue_fifo_witness:
  "kwp (kthen (kiter (tqueue_enqueue NUM_IDS) [7, 3]) (krepeat (length [1 :: u32, 2] + length [7 :: u32, 3])
     (tqueue_dequeue NUM_IDS))) (\<lambda>rs t. rs = [1, 2] @ [7, 3] \<and> queue_holds NUM_IDS t []) thread_demo"
  by (rule tqueue_fifo [OF thread_demo_queue]) simp_all

theorem tqueue_remove_refines_witness:
  "kwp (tqueue_remove NUM_IDS 2) (\<lambda>_ t. queue_holds NUM_IDS t [1]) thread_demo"
  using tqueue_remove_refines [OF thread_demo_queue, of 2] by (auto elim!: kwp_mono)

end
