(* ===== verification/PThread.thy ===== *)
theory PThread
  imports PTQueue
begin

text \<open>
  Kernel contexts and the context switch (PKCtxIntro, cswitch.S, PKCtxNew), and the scheduler
  (PThread).

  \<open>regs\<close> are the callee-saved registers, stack pointer and return address of the running kernel
  thread. A call of \<^verbatim>\<open>kctx_switch\<close> returns on the stack of the other thread, so
  \<^verbatim>\<open>thread_sleep\<close> is two definitions: up to the switch, and from where the sleeper is resumed.
  Every kernel stack a CPU runs on carries its number and the magic word in its header
  (\<^verbatim>\<open>seg_init\<close>, \<^verbatim>\<open>seg_init_proc\<close>), so the switch leaves those fields of the state alone.
\<close>

section \<open>PKCtxIntro, PKCtxNew\<close>

definition kctx_upd :: "u32 \<Rightarrow> (kctx \<Rightarrow> kctx) \<Rightarrow> ('a thread_scheme, unit) kprog" where
  "kctx_upd pid f = kthen (kassert (pid < NUM_IDS) (Fault ''kctx_pool''))
     (kmodify (\<lambda>s. s\<lparr>kctx_pool := (kctx_pool s)(pid := f (kctx_pool s pid))\<rparr>))"

definition kctx_set_esp :: "u32 \<Rightarrow> u32 \<Rightarrow> ('a thread_scheme, unit) kprog" where
  "kctx_set_esp pid esp = kctx_upd pid (\<lambda>k. k\<lparr>k_esp := esp\<rparr>)"

definition kctx_set_eip :: "u32 \<Rightarrow> u32 \<Rightarrow> ('a thread_scheme, unit) kprog" where
  "kctx_set_eip pid eip = kctx_upd pid (\<lambda>k. k\<lparr>k_eip := eip\<rparr>)"

text \<open>\<^verbatim>\<open>cswitch\<close>: six registers are saved in one context and loaded from the other.\<close>

definition cswitch :: "u32 \<Rightarrow> u32 \<Rightarrow> ('a thread_scheme, unit) kprog" where
  "cswitch from_pid to_pid =
     kthen (kmodify (\<lambda>s. s\<lparr>kctx_pool := (kctx_pool s)(from_pid := regs s)\<rparr>))
           (kmodify (\<lambda>s. s\<lparr>regs := kctx_pool s to_pid\<rparr>))"

definition kctx_switch :: "u32 \<Rightarrow> u32 \<Rightarrow> ('a thread_scheme, unit) kprog" where
  "kctx_switch from_pid to_pid =
     kthen (kassert (from_pid < NUM_IDS \<and> to_pid < NUM_IDS) (Fault ''kctx_pool'')) (cswitch from_pid to_pid)"

definition kctx_new :: "u32 \<Rightarrow> u32 \<Rightarrow> u32 \<Rightarrow> ('a thread_scheme, u32) kprog" where
  "kctx_new entry i q =
     kbind (alloc_mem_quota i q) (\<lambda>pid.
     kbind (kgets proc_kstack_addr) (\<lambda>ks.
     kthen (kctx_set_esp pid (ks + pid * KSTACK_SIZE + KSTACK_SIZE))
     (kthen (kctx_set_eip pid entry)
     (kreturn pid))))"

section \<open>PThread\<close>

definition sched_lock :: "('a thread_scheme, unit) kprog" where
  "sched_lock = spinlock_acquire sched_lk sched_lk_update"

definition sched_unlock :: "('a thread_scheme, unit) kprog" where
  "sched_unlock = spinlock_release sched_lk sched_lk_update"

definition ticks_store :: "u32 \<Rightarrow> (u32 \<Rightarrow> u32) \<Rightarrow> ('a thread_scheme, unit) kprog" where
  "ticks_store c f = kthen (kassert (c < NUM_CPUS) (Fault ''sched_ticks''))
     (kmodify (\<lambda>s. s\<lparr>sched_ticks := (sched_ticks s)(c := f (sched_ticks s c))\<rparr>))"

definition thread_init ::
  "('a thread_scheme, u32 option) kprog \<Rightarrow> ('a thread_scheme, unit) kprog \<Rightarrow> ('a thread_scheme, unit) kprog" where
  "thread_init namei_root devinit =
     kthen (kfor 0 NUM_CPUS (\<lambda>i. ticks_store i (\<lambda>_. 0)))
     (kthen (kmodify (\<lambda>s. s\<lparr>sched_lk := spinlock_init\<rparr>))
     (kthen (tqueue_init namei_root devinit)
     (kthen (set_curid 0)
            (tcb_set_state 0 TSTATE_RUN))))"

definition thread_spawn :: "u32 \<Rightarrow> u32 \<Rightarrow> u32 \<Rightarrow> ('a thread_scheme, u32) kprog" where
  "thread_spawn entry i q =
     kthen sched_lock
     (kbind (kctx_new entry i q) (\<lambda>pid.
     kthen (tcb_set_state pid TSTATE_READY)
     (kthen (tqueue_enqueue NUM_IDS pid)
     (kthen sched_unlock
            (kreturn pid)))))"

definition thread_yield :: "('a thread_scheme, unit) kprog" where
  "thread_yield =
     kthen sched_lock
     (kbind get_curid (\<lambda>old_cur_pid.
     kthen (tcb_set_state old_cur_pid TSTATE_READY)
     (kthen (tqueue_enqueue NUM_IDS old_cur_pid)
     (kbind (tqueue_dequeue NUM_IDS) (\<lambda>new_cur_pid.
     kthen (tcb_set_state new_cur_pid TSTATE_RUN)
     (kthen (set_curid new_cur_pid)
     (if old_cur_pid \<noteq> new_cur_pid
      then kthen sched_unlock (kctx_switch old_cur_pid new_cur_pid)
      else sched_unlock)))))))"

definition sched_update :: "('a thread_scheme, unit) kprog" where
  "sched_update =
     kthen sched_lock
     (kbind get_pcpu_idx (\<lambda>c.
     kthen (ticks_store c (\<lambda>n. n + 1000 div LAPIC_TIMER_INTR_FREQ))
     (kbind (kgets (\<lambda>s. sched_ticks s c)) (\<lambda>n.
     if n > SCHED_SLICE
     then kthen (ticks_store c (\<lambda>_. 0)) (kthen sched_unlock thread_yield)
     else sched_unlock))))"

text \<open>The lock handed to \<^verbatim>\<open>thread_sleep\<close> is a field of the state, as for the lock operations.\<close>

definition thread_sleep_enter ::
  "sleep_chan \<Rightarrow> ('a thread_scheme \<Rightarrow> spinlock_t) \<Rightarrow>
   ((spinlock_t \<Rightarrow> spinlock_t) \<Rightarrow> 'a thread_scheme \<Rightarrow> 'a thread_scheme) \<Rightarrow> ('a thread_scheme, unit) kprog" where
  "thread_sleep_enter chan get upd =
     kthen sched_lock
     (kthen (spinlock_release get upd)
     (kbind get_curid (\<lambda>pid.
     kthen (tcb_set_chan pid chan)
     (kthen (tcb_set_state pid TSTATE_SLEEP)
     (kbind (tqueue_dequeue NUM_IDS) (\<lambda>new_pid.
     kthen (tcb_set_state new_pid TSTATE_RUN)
     (kthen (set_curid new_pid)
     (kthen sched_unlock
            (kctx_switch pid new_pid)))))))))"

definition thread_sleep_resume ::
  "u32 \<Rightarrow> ('a thread_scheme \<Rightarrow> spinlock_t) \<Rightarrow>
   ((spinlock_t \<Rightarrow> spinlock_t) \<Rightarrow> 'a thread_scheme \<Rightarrow> 'a thread_scheme) \<Rightarrow> ('a thread_scheme, unit) kprog" where
  "thread_sleep_resume pid get upd =
     kthen sched_lock
     (kthen (tcb_set_chan pid NoChan)
     (kthen sched_unlock
            (spinlock_acquire get upd)))"

definition thread_wakeup :: "sleep_chan \<Rightarrow> ('a thread_scheme, unit) kprog" where
  "thread_wakeup chan =
     kthen sched_lock
     (kthen (kfor 0 NUM_IDS (\<lambda>pid.
       kbind (tcb_get_state pid) (\<lambda>st.
       kbind (tcb_get_chan pid) (\<lambda>ch.
       kwhen (st = TSTATE_SLEEP \<and> ch = chan)
         (kthen (tcb_set_state pid TSTATE_READY) (tqueue_enqueue NUM_IDS pid))))))
     sched_unlock)"


section \<open>The scheduler invariant\<close>

interpretation sched_lk: lock_field sched_lk sched_lk_update
  by unfold_locales simp_all

lemma kwp_sched_lock [wp]:
  "kwp sched_lock Q s = (lock (sched_lk s) = 0 \<and> ks_magic s = KSTACK_MAGIC \<and>
     Q () (s\<lparr>sched_lk := lock_by (ks_cpu_idx s)\<rparr>))"
  unfolding sched_lock_def by (rule sched_lk.acquire_wp)

lemma kwp_sched_unlock [wp]: "kwp sched_unlock Q s = Q () (s\<lparr>sched_lk := spinlock_init\<rparr>)"
  unfolding sched_unlock_def by (rule sched_lk.release_wp)

text \<open>\<open>rq c\<close> is the ready queue of CPU \<open>c\<close>; together they hold exactly the ready threads.\<close>

definition ready_ok :: "(u32 \<Rightarrow> u32 list) \<Rightarrow> (u32 \<Rightarrow> TCB) \<Rightarrow> (u32 \<Rightarrow> u32 \<Rightarrow> TQueue) \<Rightarrow> bool" where
  "ready_ok rq T Q \<longleftrightarrow>
     (\<forall>c<NUM_CPUS. queue_rep T (Q c NUM_IDS) (rq c)) \<and>
     (\<forall>c<NUM_CPUS. \<forall>d<NUM_CPUS. c \<noteq> d \<longrightarrow> set (rq c) \<inter> set (rq d) = {}) \<and>
     (\<forall>x<NUM_IDS. t_status (T x) = TSTATE_READY \<longleftrightarrow> (\<exists>c<NUM_CPUS. x \<in> set (rq c)))"

definition sched_ok :: "(u32 \<Rightarrow> u32 list) \<Rightarrow> 'a thread_scheme \<Rightarrow> bool" where
  "sched_ok rq s \<longleftrightarrow> cpu_ok s \<and> lock_free (sched_lk s) \<and> ready_ok rq (TCBPool s) (TQueuePool s) \<and>
     CURID s (ks_cpu_idx s) < NUM_IDS \<and> t_status (TCBPool s (CURID s (ks_cpu_idx s))) = TSTATE_RUN"

lemma ready_ids: "ready_ok rq T Q \<Longrightarrow> c < NUM_CPUS \<Longrightarrow> x \<in> set (rq c) \<Longrightarrow> x < NUM_IDS"
  unfolding ready_ok_def queue_rep_def using lseg_ids by blast

lemma ready_notin:
  "ready_ok rq T Q \<Longrightarrow> x < NUM_IDS \<Longrightarrow> t_status (T x) \<noteq> TSTATE_READY \<Longrightarrow> c < NUM_CPUS \<Longrightarrow> x \<notin> set (rq c)"
  unfolding ready_ok_def by blast

lemma ready_append:
  assumes ok: "ready_ok rq T Q" and c: "c < NUM_CPUS" and x: "x < NUM_IDS" "t_status (T x) \<noteq> TSTATE_READY"
    and l: "links_only (insert x (set (rq c))) (T(x := (T x)\<lparr>t_status := TSTATE_READY\<rparr>)) T'"
    and q: "queue_rep T' (Q' c NUM_IDS) (rq c @ [x])"
    and Q': "\<And>d k. (d, k) \<noteq> (c, NUM_IDS) \<Longrightarrow> Q' d k = Q d k"
  shows "ready_ok (rq(c := rq c @ [x])) T' Q'"
proof -
  have new: "x \<notin> set (rq d)" if "d < NUM_CPUS" for d using ready_notin [OF ok x that] .
  have dis: "set (rq d) \<inter> set (rq e) = {}" if "d < NUM_CPUS" "e < NUM_CPUS" "d \<noteq> e" for d e
    using ok that unfolding ready_ok_def by blast
  have other: "queue_rep T' (Q' d NUM_IDS) (rq d)" if d: "d < NUM_CPUS" "d \<noteq> c" for d
  proof (rule queue_rep_frame [OF l])
    show "set (rq d) \<inter> insert x (set (rq c)) = {}"
      using dis [OF d(1) c d(2)] new [OF d(1)] by auto
    have "queue_rep T (Q d NUM_IDS) (rq d)" using ok d by (simp add: ready_ok_def)
    then have "queue_rep (T(x := (T x)\<lparr>t_status := TSTATE_READY\<rparr>)) (Q d NUM_IDS) (rq d)"
      by (subst queue_rep_same_links) simp_all
    then show "queue_rep (T(x := (T x)\<lparr>t_status := TSTATE_READY\<rparr>)) (Q' d NUM_IDS) (rq d)"
      using Q' [of d] d by simp
  qed
  have "queue_rep T' (Q' d NUM_IDS) ((rq(c := rq c @ [x])) d)" if "d < NUM_CPUS" for d
    using other [OF that] q by simp
  moreover have "t_status (T' y) = TSTATE_READY \<longleftrightarrow> (\<exists>d<NUM_CPUS. y \<in> set ((rq(c := rq c @ [x])) d))"
    if y: "y < NUM_IDS" for y
  proof -
    have "t_status (T y) = TSTATE_READY \<longleftrightarrow> (\<exists>d<NUM_CPUS. y \<in> set (rq d))"
      using ok y by (simp add: ready_ok_def)
    moreover have "t_status (T' y) = TSTATE_READY \<longleftrightarrow> y = x \<or> t_status (T y) = TSTATE_READY"
      by (simp add: links_onlyD(1) [OF l])
    moreover have "y \<in> set ((rq(c := rq c @ [x])) d) \<longleftrightarrow> y \<in> set (rq d) \<or> d = c \<and> y = x" for d
      by auto
    ultimately show ?thesis using c by blast
  qed
  moreover have "set ((rq(c := rq c @ [x])) d) \<inter> set ((rq(c := rq c @ [x])) e) = {}"
    if "d < NUM_CPUS" "e < NUM_CPUS" "d \<noteq> e" for d e
    using dis [OF that] new [OF that(1)] new [OF that(2)] that(3) by auto
  ultimately show ?thesis
    unfolding ready_ok_def by (intro conjI allI impI)
qed

lemma ready_take:
  assumes ok: "ready_ok rq T Q" and c: "c < NUM_CPUS" and rq: "rq c = x # xs" and st: "st \<noteq> TSTATE_READY"
    and l: "links_only (insert x (set xs)) T T'"
    and q: "queue_rep T' (Q' c NUM_IDS) xs"
    and Q': "\<And>d k. (d, k) \<noteq> (c, NUM_IDS) \<Longrightarrow> Q' d k = Q d k"
  shows "ready_ok (rq(c := xs)) (T'(x := (T' x)\<lparr>t_status := st\<rparr>)) Q'"
proof -
  let ?T = "T'(x := (T' x)\<lparr>t_status := st\<rparr>)"
  have same: "queue_rep ?T p ys = queue_rep T' p ys" for p ys
    by (rule queue_rep_same_links) simp
  have dis: "set (rq d) \<inter> insert x (set xs) = {}" if "d < NUM_CPUS" "d \<noteq> c" for d
  proof -
    have "set (rq d) \<inter> set (rq c) = {}" using ok that c unfolding ready_ok_def by blast
    then show ?thesis by (simp add: rq)
  qed
  have "distinct (rq c)" using ok c by (simp add: ready_ok_def queue_rep_def)
  then have x: "x \<notin> set xs" by (simp add: rq)
  have other: "queue_rep ?T (Q' d NUM_IDS) (rq d)" if d: "d < NUM_CPUS" "d \<noteq> c" for d
    using ok d Q' [of d] queue_rep_frame [OF l dis [OF d]] by (simp add: same ready_ok_def)
  have "t_status (?T y) = TSTATE_READY \<longleftrightarrow> (\<exists>d<NUM_CPUS. y \<in> set ((rq(c := xs)) d))"
    if "y < NUM_IDS" for y
  proof (cases "y = x")
    case True
    then show ?thesis using st x dis by auto
  next
    case False
    then have "y \<in> set ((rq(c := xs)) d) \<longleftrightarrow> y \<in> set (rq d)" for d by (simp add: rq)
    moreover have "t_status (?T y) = t_status (T y)" using False by (simp add: links_onlyD(1) [OF l])
    moreover have "t_status (T y) = TSTATE_READY \<longleftrightarrow> (\<exists>d<NUM_CPUS. y \<in> set (rq d))"
      using ok that by (simp add: ready_ok_def)
    ultimately show ?thesis by metis
  qed
  moreover have "set ((rq(c := xs)) d) \<inter> set ((rq(c := xs)) e) = {}"
    if "d < NUM_CPUS" "e < NUM_CPUS" "d \<noteq> e" for d e
  proof -
    have "set (rq d) \<inter> set (rq e) = {}" using ok that unfolding ready_ok_def by blast
    with that dis [of d] dis [of e] show ?thesis by (cases "d = c"; cases "e = c") auto
  qed
  moreover have "queue_rep ?T (Q' d NUM_IDS) ((rq(c := xs)) d)" if "d < NUM_CPUS" for d
    using other [OF that] q by (simp add: same)
  ultimately show ?thesis
    unfolding ready_ok_def by (intro conjI allI impI)
qed

section \<open>The scheduler operations\<close>

text \<open>Making a thread ready, and giving the CPU to the head of the ready queue.\<close>

lemma make_ready_wp:
  fixes s :: "'a thread_scheme"
  defines "c \<equiv> ks_cpu_idx s"
  assumes cpu: "cpu_ok s" and ok: "ready_ok rq (TCBPool s) (TQueuePool s)"
    and x: "x < NUM_IDS" "t_status (TCBPool s x) \<noteq> TSTATE_READY"
  shows "kwp (kthen (tcb_set_state x TSTATE_READY) (tqueue_enqueue NUM_IDS x))
     (\<lambda>_ t. \<exists>T Q. t = s\<lparr>TCBPool := T, TQueuePool := Q\<rparr> \<and> ready_ok (rq(c := rq c @ [x])) T Q \<and>
        links_only UNIV ((TCBPool s)(x := (TCBPool s x)\<lparr>t_status := TSTATE_READY\<rparr>)) T) s"
proof -
  let ?s = "s\<lparr>TCBPool := (TCBPool s)(x := (TCBPool s x)\<lparr>t_status := TSTATE_READY\<rparr>)\<rparr>"
  have c: "c < NUM_CPUS" using cpu by (simp add: c_def cpu_okD)
  have "queue_rep (TCBPool s) (TQueuePool s c NUM_IDS) (rq c)" using ok c by (simp add: ready_ok_def)
  then have "queue_rep (TCBPool ?s) (TQueuePool s c NUM_IDS) (rq c)"
    by (subst queue_rep_same_links) simp_all
  then have h: "queue_holds NUM_IDS ?s (rq c)"
    using cpu by (simp add: queue_holds_def cpu_ok_def c_def)
  have "x \<notin> set (rq c)" using ready_notin [OF ok x c] .
  then have "kwp (tqueue_enqueue NUM_IDS x) (\<lambda>_ t. queue_holds NUM_IDS t (rq c @ [x]) \<and>
     queue_step NUM_IDS (insert x (set (rq c))) ?s t) ?s"
    by (intro tq.enq_law h x)
  then have "kwp (tqueue_enqueue NUM_IDS x) (\<lambda>_ t. \<exists>T Q. t = s\<lparr>TCBPool := T, TQueuePool := Q\<rparr> \<and>
      ready_ok (rq(c := rq c @ [x])) T Q \<and>
      links_only UNIV ((TCBPool s)(x := (TCBPool s x)\<lparr>t_status := TSTATE_READY\<rparr>)) T) ?s"
  proof (rule kwp_mono)
    fix u t
    assume t: "queue_holds NUM_IDS t (rq c @ [x]) \<and> queue_step NUM_IDS (insert x (set (rq c))) ?s t"
    then obtain T Q where T: "t = ?s\<lparr>TCBPool := T, TQueuePool := Q\<rparr>"
      and l: "links_only (insert x (set (rq c))) (TCBPool ?s) T"
      and Q: "\<And>d k. (d, k) \<noteq> (ks_cpu_idx ?s, NUM_IDS) \<Longrightarrow> Q d k = TQueuePool ?s d k"
      by (elim conjE queue_stepE) blast
    have "ready_ok (rq(c := rq c @ [x])) T Q"
      using t Q by (intro ready_append [OF ok c x l [simplified]]) (auto simp: T queue_holds_def c_def)
    moreover have "links_only UNIV (TCBPool ?s) T"
      using l by (intro links_onlyI) (simp_all add: links_onlyD [OF l])
    ultimately show "\<exists>T Q. t = s\<lparr>TCBPool := T, TQueuePool := Q\<rparr> \<and> ready_ok (rq(c := rq c @ [x])) T Q \<and>
      links_only UNIV ((TCBPool s)(x := (TCBPool s x)\<lparr>t_status := TSTATE_READY\<rparr>)) T"
      using T by auto
  qed
  then show ?thesis
    using x by (simp add: wp tcb_set_state_def)
qed

lemma take_next_wp:
  fixes s :: "'a thread_scheme"
  defines "c \<equiv> ks_cpu_idx s"
  assumes cpu: "cpu_ok s" and ok: "ready_ok rq (TCBPool s) (TQueuePool s)" and rq: "rq c = x # xs"
  shows "kwp (tqueue_dequeue NUM_IDS) (\<lambda>r t. r = x \<and> (\<exists>T Q. t = s\<lparr>TCBPool := T, TQueuePool := Q\<rparr> \<and>
        ready_ok (rq(c := xs)) (T(x := (T x)\<lparr>t_status := TSTATE_RUN\<rparr>)) Q \<and> links_only UNIV (TCBPool s) T)) s"
proof -
  have c: "c < NUM_CPUS" using cpu by (simp add: c_def cpu_okD)
  have "queue_rep (TCBPool s) (TQueuePool s c NUM_IDS) (rq c)" using ok c by (simp add: ready_ok_def)
  then have h: "queue_holds NUM_IDS s (x # xs)"
    using cpu by (simp add: queue_holds_def c_def rq [symmetric])
  show ?thesis
  proof (rule kwp_mono [OF tq.deq_law [OF h]])
    fix r t
    assume t: "r = x \<and> queue_holds NUM_IDS t xs \<and> queue_step NUM_IDS (insert x (set xs)) s t"
    then obtain T Q where T: "t = s\<lparr>TCBPool := T, TQueuePool := Q\<rparr>"
      and l: "links_only (insert x (set xs)) (TCBPool s) T"
      and Q: "\<And>d k. (d, k) \<noteq> (ks_cpu_idx s, NUM_IDS) \<Longrightarrow> Q d k = TQueuePool s d k"
      by (elim conjE queue_stepE) blast
    have "ready_ok (rq(c := xs)) (T(x := (T x)\<lparr>t_status := TSTATE_RUN\<rparr>)) Q"
      using t Q by (intro ready_take [OF ok c rq _ l]) (auto simp: T queue_holds_def c_def)
    moreover have "links_only UNIV (TCBPool s) T"
      using l by (intro links_onlyI) (simp_all add: links_onlyD [OF l])
    ultimately show "r = x \<and> (\<exists>T Q. t = s\<lparr>TCBPool := T, TQueuePool := Q\<rparr> \<and>
        ready_ok (rq(c := xs)) (T(x := (T x)\<lparr>t_status := TSTATE_RUN\<rparr>)) Q \<and> links_only UNIV (TCBPool s) T)"
      using T t by blast
  qed
qed

lemma kwp_kctx_switch [wp]:
  "kwp (kctx_switch a b) Q s = (a < NUM_IDS \<and> b < NUM_IDS \<and>
     Q () (s\<lparr>kctx_pool := (kctx_pool s)(a := regs s), regs := ((kctx_pool s)(a := regs s)) b\<rparr>))"
  by (simp add: kctx_switch_def cswitch_def wp)

text \<open>What a yield does, given the thread that gets the CPU.\<close>

definition yield_post :: "(u32 \<Rightarrow> u32 list) \<Rightarrow> 'a thread_scheme \<Rightarrow> 'a thread_scheme \<Rightarrow> bool" where
  "yield_post rq s t \<longleftrightarrow>
     (let c = ks_cpu_idx s; old = CURID s c; new = hd (rq c @ [old]) in
        sched_ok (rq(c := tl (rq c @ [old]))) t \<and> ks_cpu_idx t = c \<and> CURID t = (CURID s)(c := new) \<and>
        (if new = old then regs t = regs s \<and> kctx_pool t = kctx_pool s
         else regs t = kctx_pool s new \<and> kctx_pool t = (kctx_pool s)(old := regs s)))"

lemma thread_yield_wp:
  assumes "sched_ok rq s"
  shows "kwp thread_yield (\<lambda>_ t. yield_post rq s t) s"
proof -
  define c where "c = ks_cpu_idx s"
  define old where "old = CURID s c"
  define new where "new = hd (rq c @ [old])"
  define r where "r = rq(c := rq c @ [old])"
  let ?s1 = "s\<lparr>sched_lk := lock_by c\<rparr>"
  have cpu: "cpu_ok s" "lock_free (sched_lk s)" and ok: "ready_ok rq (TCBPool s) (TQueuePool s)"
    and old: "old < NUM_IDS" "t_status (TCBPool s old) = TSTATE_RUN"
    using assms by (simp_all add: sched_ok_def c_def old_def)
  have c: "c < NUM_CPUS" using cpu by (simp add: c_def cpu_okD)
  have idx: "ks_cpu_idx s = c" "cpu_idx (pcpu s c) = c" using cpu by (simp_all add: c_def cpu_okD)
  have new: "new < NUM_IDS"
    using ready_ids [OF ok c] old by (cases "rq c") (auto simp: new_def)
  have hd: "hd (rq c @ [old]) = new" "old = new \<Longrightarrow> hd (rq c @ [new]) = new" by (simp_all add: new_def)
  have rc: "r (ks_cpu_idx s) = new # tl (rq c @ [old])" by (simp add: r_def new_def c_def)
  have 1: "kwp (kthen (tcb_set_state old TSTATE_READY) (tqueue_enqueue NUM_IDS old))
     (\<lambda>_ t. \<exists>T Q. t = ?s1\<lparr>TCBPool := T, TQueuePool := Q\<rparr> \<and> ready_ok r T Q) ?s1"
    using make_ready_wp [of ?s1 rq old] cpu ok old
    by (auto simp: cpu_ok_def r_def c_def elim!: kwp_mono)
  have 2: "kwp (tqueue_dequeue NUM_IDS) (\<lambda>p t. p = new \<and> (\<exists>T Q. t = ?s1\<lparr>TCBPool := T, TQueuePool := Q\<rparr> \<and>
        ready_ok (r(c := tl (rq c @ [old]))) (T(new := (T new)\<lparr>t_status := TSTATE_RUN\<rparr>)) Q)) t"
    if "t = ?s1\<lparr>TCBPool := T, TQueuePool := Q\<rparr>" "ready_ok r T Q" for t T Q
    using take_next_wp [of t r new "tl (rq c @ [old])"] cpu that rc
    by (auto simp: cpu_ok_def c_def elim!: kwp_mono)
  have "kwp (kthen (kthen (tcb_set_state old TSTATE_READY) (tqueue_enqueue NUM_IDS old)) (tqueue_dequeue NUM_IDS))
     (\<lambda>p t. p = new \<and> (\<exists>T Q. t = ?s1\<lparr>TCBPool := T, TQueuePool := Q\<rparr> \<and>
        ready_ok (r(c := tl (rq c @ [old]))) (T(new := (T new)\<lparr>t_status := TSTATE_RUN\<rparr>)) Q)) ?s1"
    using 2 by (intro kwp_kthenI [OF 1]) blast
  then show ?thesis
    using cpu old c new
    by (simp add: thread_yield_def wp cpu_okD tcb_set_state_def idx old_def [symmetric], elim kwp_mono)
       (auto simp: wp idx yield_post_def sched_ok_def cpu_ok_def old_def [symmetric] hd r_def Let_def)
qed

text \<open>The running thread and its ready queue together rotate by one place at every yield.\<close>

lemma yields_rotate:
  fixes s :: "'a thread_scheme"
  assumes "sched_ok rq s" and "ks_cpu_idx s = c"
  shows "kwp (krepeat n thread_yield) (\<lambda>_ t. ks_cpu_idx t = c \<and> (\<exists>rq'. sched_ok rq' t \<and>
           CURID t c # rq' c = rotate n (CURID s c # rq c))) s"
  using assms
proof (induction n arbitrary: s rq)
  case (Suc n)
  let ?rq = "rq(c := tl (rq c @ [CURID s c]))"
  have "kwp thread_yield (\<lambda>_ t. ks_cpu_idx t = c \<and> sched_ok ?rq t \<and> CURID t c # ?rq c = rotate1 (CURID s c # rq c)) s"
  proof (rule kwp_mono [OF thread_yield_wp [OF Suc.prems(1)]])
    fix u t
    assume "yield_post rq s t"
    then have "ks_cpu_idx t = c" "sched_ok ?rq t" "CURID t = (CURID s)(c := hd (rq c @ [CURID s c]))"
      using Suc.prems(2) unfolding yield_post_def Let_def by simp_all
    then show "ks_cpu_idx t = c \<and> sched_ok ?rq t \<and> CURID t c # ?rq c = rotate1 (CURID s c # rq c)"
      by simp
  qed
  then have "kwp (kthen thread_yield (krepeat n thread_yield)) (\<lambda>_ t. ks_cpu_idx t = c \<and> (\<exists>rq'. sched_ok rq' t \<and>
           CURID t c # rq' c = rotate n (rotate1 (CURID s c # rq c)))) s"
  proof (rule kwp_kthenI)
    fix u and t :: "'a thread_scheme"
    assume t: "ks_cpu_idx t = c \<and> sched_ok ?rq t \<and> CURID t c # ?rq c = rotate1 (CURID s c # rq c)"
    then show "kwp (krepeat n thread_yield) (\<lambda>_ t. ks_cpu_idx t = c \<and> (\<exists>rq'. sched_ok rq' t \<and>
           CURID t c # rq' c = rotate n (rotate1 (CURID s c # rq c)))) t"
      using Suc.IH [of ?rq t] by (elim conjE) (simp only:)
  qed
  then show ?case
    unfolding krepeat.simps kwp_kbind kwp_kthen kwp_kreturn rotate_Suc rotate1_rotate_swap .
qed (auto simp: wp)

definition sleeps_on :: "TCB \<Rightarrow> sleep_chan \<Rightarrow> bool" where
  "sleeps_on t ch \<longleftrightarrow> t_status t = TSTATE_SLEEP \<and> channel t = ch"

text \<open>The threads with a number below \<open>n\<close> that sleep on a channel, in the order of their numbers.\<close>

definition sleepers :: "(u32 \<Rightarrow> TCB) \<Rightarrow> sleep_chan \<Rightarrow> nat \<Rightarrow> u32 list" where
  "sleepers T ch n = filter (\<lambda>x. sleeps_on (T x) ch) (map word_of_nat [0..<n])"

definition woken :: "(u32 \<Rightarrow> TCB) \<Rightarrow> sleep_chan \<Rightarrow> nat \<Rightarrow> u32 \<Rightarrow> TCB" where
  "woken T ch n = (\<lambda>x. if unat x < n \<and> sleeps_on (T x) ch then (T x)\<lparr>t_status := TSTATE_READY\<rparr> else T x)"

lemma sleepers_Suc:
  "sleepers T ch (Suc n) = sleepers T ch n @ (if sleeps_on (T (word_of_nat n)) ch then [word_of_nat n] else [])"
  by (simp add: sleepers_def)

definition wakeup_post :: "(u32 \<Rightarrow> u32 list) \<Rightarrow> sleep_chan \<Rightarrow> nat \<Rightarrow> 'a thread_scheme \<Rightarrow> 'a thread_scheme \<Rightarrow> bool" where
  "wakeup_post rq ch n s t \<longleftrightarrow> (\<exists>T Q. t = s\<lparr>TCBPool := T, TQueuePool := Q\<rparr> \<and>
     ready_ok (rq(ks_cpu_idx s := rq (ks_cpu_idx s) @ sleepers (TCBPool s) ch n)) T Q \<and>
     links_only UNIV (woken (TCBPool s) ch n) T)"

lemma wakeup_step_wp:
  assumes cpu: "cpu_ok s" and post: "wakeup_post rq ch (unat j) s t" and j: "j < NUM_IDS"
  shows "kwp (kbind (tcb_get_state j) (\<lambda>st. kbind (tcb_get_chan j) (\<lambda>c.
       kwhen (st = TSTATE_SLEEP \<and> c = ch) (kthen (tcb_set_state j TSTATE_READY) (tqueue_enqueue NUM_IDS j)))))
     (\<lambda>_ t. wakeup_post rq ch (unat (j + 1)) s t) t"
proof -
  let ?c = "ks_cpu_idx s"
  let ?xs = "\<lambda>n. rq ?c @ sleepers (TCBPool s) ch n"
  obtain T Q where t: "t = s\<lparr>TCBPool := T, TQueuePool := Q\<rparr>" and ok: "ready_ok (rq(?c := ?xs (unat j))) T Q"
    and l: "links_only UNIV (woken (TCBPool s) ch (unat j)) T"
    using post by (auto simp: wakeup_post_def)
  have Suc: "unat (j + 1) = Suc (unat j)" using j by (rule unat_inc)
  have Tj: "t_status (T j) = t_status (TCBPool s j)" "channel (T j) = channel (TCBPool s j)"
    by (simp_all add: links_onlyD [OF l] woken_def)
  show ?thesis
  proof (cases "sleeps_on (TCBPool s j) ch")
    case True
    have w: "links_only UNIV (woken (TCBPool s) ch (unat (j + 1))) T'"
      if "links_only UNIV (T(j := (T j)\<lparr>t_status := TSTATE_READY\<rparr>)) T'" for T'
      using True by (intro links_onlyI)
        (auto simp: links_onlyD [OF that] links_onlyD [OF l] woken_def Suc less_Suc_eq word_unat_eq_iff [symmetric])
    have "kwp (kthen (tcb_set_state j TSTATE_READY) (tqueue_enqueue NUM_IDS j))
       (\<lambda>_ t. wakeup_post rq ch (unat (j + 1)) s t) t"
      using make_ready_wp [of t "rq(?c := ?xs (unat j))" j] cpu ok j True Tj w
      by (auto simp: t cpu_ok_def sleeps_on_def wakeup_post_def sleepers_Suc Suc elim!: kwp_mono)
    then show ?thesis
      using True Tj j by (simp add: wp t tcb_get_state_def tcb_get_chan_def sleeps_on_def)
  next
    case False
    have "woken (TCBPool s) ch (Suc (unat j)) = woken (TCBPool s) ch (unat j)"
      using False by (auto simp: woken_def less_Suc_eq word_unat_eq_iff [symmetric] fun_eq_iff)
    then have "wakeup_post rq ch (unat (j + 1)) s t"
      using False t ok l by (auto simp: wakeup_post_def Suc sleepers_Suc)
    then show ?thesis
      using False Tj j by (auto simp: wp tcb_get_state_def tcb_get_chan_def sleeps_on_def t)
  qed
qed

lemma thread_wakeup_wp:
  assumes "sched_ok rq s"
  shows "kwp (thread_wakeup ch) (\<lambda>_ t. sched_ok (rq(ks_cpu_idx s := rq (ks_cpu_idx s) @ sleepers (TCBPool s) ch 64)) t \<and>
           wakeup_post rq ch 64 s t) s"
proof -
  let ?s1 = "s\<lparr>sched_lk := lock_by (ks_cpu_idx s)\<rparr>"
  have cpu: "cpu_ok s" "lock_free (sched_lk s)" and ok: "ready_ok rq (TCBPool s) (TQueuePool s)"
    and cur: "CURID s (ks_cpu_idx s) < NUM_IDS" "t_status (TCBPool s (CURID s (ks_cpu_idx s))) = TSTATE_RUN"
    using assms by (simp_all add: sched_ok_def)
  have "kwp (kfor 0 NUM_IDS (\<lambda>pid. kbind (tcb_get_state pid) (\<lambda>st. kbind (tcb_get_chan pid) (\<lambda>c.
       kwhen (st = TSTATE_SLEEP \<and> c = ch) (kthen (tcb_set_state pid TSTATE_READY) (tqueue_enqueue NUM_IDS pid))))))
     (\<lambda>_ t. wakeup_post rq ch 64 ?s1 t) ?s1"
  proof (rule kwp_kfor [where I = "\<lambda>j. wakeup_post rq ch (unat j) ?s1"])
    have "links_only UNIV (woken (TCBPool s) ch 0) (TCBPool s)"
      by (rule links_onlyI) (simp_all add: woken_def)
    then show "wakeup_post rq ch (unat (0 :: u32)) ?s1 ?s1"
      using ok by (auto simp: wakeup_post_def sleepers_def intro!: exI [of _ "TCBPool s"] exI [of _ "TQueuePool s"])
  qed (use cpu wakeup_step_wp [of ?s1] in \<open>simp_all add: cpu_ok_def\<close>)
  then have "kwp (thread_wakeup ch) (\<lambda>_ t. wakeup_post rq ch 64 s t) s"
    unfolding thread_wakeup_def using cpu
    by (simp add: wp cpu_okD, elim kwp_mono) (force simp: wakeup_post_def)
  then show ?thesis
  proof (rule kwp_mono)
    fix u t
    assume post: "wakeup_post rq ch 64 s t"
    then obtain T Q where t: "t = s\<lparr>TCBPool := T, TQueuePool := Q\<rparr>"
      and r: "ready_ok (rq(ks_cpu_idx s := rq (ks_cpu_idx s) @ sleepers (TCBPool s) ch 64)) T Q"
      and l: "links_only UNIV (woken (TCBPool s) ch 64) T"
      by (auto simp: wakeup_post_def)
    have "t_status (T (CURID s (ks_cpu_idx s))) = TSTATE_RUN"
      using cur by (simp add: links_onlyD [OF l] woken_def sleeps_on_def)
    then show "sched_ok (rq(ks_cpu_idx s := rq (ks_cpu_idx s) @ sleepers (TCBPool s) ch 64)) t \<and>
           wakeup_post rq ch 64 s t"
      using post r cpu cur by (simp add: t sched_ok_def cpu_ok_def)
  qed
qed

text \<open>
  A lock a thread may sleep with: a field of the state that is independent of the fields of the
  threads. \<^verbatim>\<open>thread_sleep\<close> is correct for every such lock.
\<close>

locale sleep_lock = lock_field get upd
  for get :: "'a thread_scheme \<Rightarrow> spinlock_t"
    and upd :: "(spinlock_t \<Rightarrow> spinlock_t) \<Rightarrow> 'a thread_scheme \<Rightarrow> 'a thread_scheme" +
  assumes upd_thread: "TCBPool (upd f s) = TCBPool s" "TQueuePool (upd f s) = TQueuePool s"
      "CURID (upd f s) = CURID s" "sched_lk (upd f s) = sched_lk s" "pcpu (upd f s) = pcpu s"
      "kctx_pool (upd f s) = kctx_pool s" "regs (upd f s) = regs s"
    and get_thread: "get (s\<lparr>TCBPool := T\<rparr>) = get s" "get (s\<lparr>TQueuePool := Q\<rparr>) = get s"
      "get (s\<lparr>CURID := C\<rparr>) = get s" "get (s\<lparr>sched_lk := l\<rparr>) = get s"
      "get (s\<lparr>kctx_pool := k\<rparr>) = get s" "get (s\<lparr>regs := r\<rparr>) = get s"
begin

lemma sleep_enter_wp:
  fixes s :: "'a thread_scheme"
  defines "c \<equiv> ks_cpu_idx s"
  defines "pid \<equiv> CURID s c"
  assumes ok: "sched_ok rq s" and rq: "rq c = x # xs"
  shows "kwp (thread_sleep_enter ch get upd) (\<lambda>_ t. sched_ok (rq(c := xs)) t \<and> ks_cpu_idx t = c \<and>
     CURID t = (CURID s)(c := x) \<and> sleeps_on (TCBPool t pid) ch \<and> lock_free (get t) \<and>
     regs t = kctx_pool s x \<and> kctx_pool t = (kctx_pool s)(pid := regs s)) s"
proof -
  define T0 where "T0 = (TCBPool s)(pid := (TCBPool s pid)\<lparr>channel := ch, t_status := TSTATE_SLEEP\<rparr>)"
  define s1 where "s1 = (upd (\<lambda>_. spinlock_init) (s\<lparr>sched_lk := lock_by c\<rparr>))\<lparr>TCBPool := T0\<rparr>"
  have cpu: "cpu_ok s" "lock_free (sched_lk s)" "c < NUM_CPUS" "cpu_idx (pcpu s c) = c"
    and r: "ready_ok rq (TCBPool s) (TQueuePool s)"
    and pid: "pid < NUM_IDS" "t_status (TCBPool s pid) = TSTATE_RUN"
    using ok by (simp_all add: sched_ok_def c_def pid_def cpu_okD)
  have x: "x < NUM_IDS" "x \<noteq> pid"
    using ready_ids [OF r cpu(3), of x] ready_notin [OF r pid(1) _ cpu(3)] pid(2) rq by auto
  have cpu1: "cpu_ok s1" "ks_cpu_idx s1 = c"
    using cpu by (auto simp: s1_def cpu_ok_def magic_upd cpu_upd upd_thread c_def)
  have "queue_rep T0 q ys = queue_rep (TCBPool s) q ys" for q ys
    by (rule queue_rep_same_links) (simp add: T0_def)
  then have r1: "ready_ok rq (TCBPool s1) (TQueuePool s1)"
    using r pid by (auto simp: s1_def ready_ok_def upd_thread T0_def)
  have "kwp (tqueue_dequeue NUM_IDS) (\<lambda>p t. p = x \<and> (\<exists>T Q. t = s1\<lparr>TCBPool := T, TQueuePool := Q\<rparr> \<and>
        ready_ok (rq(c := xs)) (T(x := (T x)\<lparr>t_status := TSTATE_RUN\<rparr>)) Q \<and> links_only UNIV T0 T)) s1"
    using take_next_wp [of s1 rq x xs] cpu1 r1 rq by (simp add: s1_def)
  then have "kwp (kbind (tqueue_dequeue NUM_IDS) (\<lambda>p. kthen (tcb_set_state p TSTATE_RUN)
      (kthen (set_curid p) (kthen sched_unlock (kctx_switch pid p)))))
     (\<lambda>_ t. sched_ok (rq(c := xs)) t \<and> ks_cpu_idx t = c \<and>
     CURID t = (CURID s)(c := x) \<and> sleeps_on (TCBPool t pid) ch \<and> lock_free (get t) \<and>
     regs t = kctx_pool s x \<and> kctx_pool t = (kctx_pool s)(pid := regs s)) s1"
  proof (rule kwp_kbindI)
    fix p t
    assume "p = x \<and> (\<exists>T Q. t = s1\<lparr>TCBPool := T, TQueuePool := Q\<rparr> \<and>
        ready_ok (rq(c := xs)) (T(x := (T x)\<lparr>t_status := TSTATE_RUN\<rparr>)) Q \<and> links_only UNIV T0 T)"
    then obtain T Q where t: "p = x" "t = s1\<lparr>TCBPool := T, TQueuePool := Q\<rparr>"
      "ready_ok (rq(c := xs)) (T(x := (T x)\<lparr>t_status := TSTATE_RUN\<rparr>)) Q" and l: "links_only UNIV T0 T"
      by blast
    have "sleeps_on (T pid) ch" by (simp add: sleeps_on_def links_onlyD [OF l] T0_def)
    then show "kwp (kthen (tcb_set_state p TSTATE_RUN) (kthen (set_curid p) (kthen sched_unlock (kctx_switch pid p))))
     (\<lambda>_ t. sched_ok (rq(c := xs)) t \<and> ks_cpu_idx t = c \<and>
     CURID t = (CURID s)(c := x) \<and> sleeps_on (TCBPool t pid) ch \<and> lock_free (get t) \<and>
     regs t = kctx_pool s x \<and> kctx_pool t = (kctx_pool s)(pid := regs s)) t"
      using t x pid cpu cpu1
      by (simp add: wp tcb_set_state_def s1_def upd_thread cpu_upd magic_upd get_thread get_upd sched_ok_def
          cpu_ok_def sleeps_on_def)
  qed
  then show ?thesis
    using cpu pid unfolding thread_sleep_enter_def
    by (simp add: wp release_wp tcb_set_chan_def tcb_set_state_def cpu_okD s1_def T0_def upd_thread cpu_upd
        c_def [symmetric] pid_def [symmetric])
qed

lemma sleep_enter_idle:
  assumes ok: "sched_ok rq s" and rq: "rq (ks_cpu_idx s) = []"
  shows "\<not> kwp (thread_sleep_enter ch get upd) (\<lambda>_ _. True) s"
proof -
  define c where "c = ks_cpu_idx s"
  define pid where "pid = CURID s c"
  define T0 where "T0 = (TCBPool s)(pid := (TCBPool s pid)\<lparr>channel := ch, t_status := TSTATE_SLEEP\<rparr>)"
  define s1 where "s1 = (upd (\<lambda>_. spinlock_init) (s\<lparr>sched_lk := lock_by c\<rparr>))\<lparr>TCBPool := T0\<rparr>"
  have cpu: "cpu_ok s" "lock_free (sched_lk s)" "c < NUM_CPUS" "cpu_idx (pcpu s c) = c"
    and r: "ready_ok rq (TCBPool s) (TQueuePool s)" and pid: "pid < NUM_IDS"
    using ok by (simp_all add: sched_ok_def c_def pid_def cpu_okD)
  have "queue_rep (TCBPool s) (TQueuePool s c NUM_IDS) []" using r cpu(3) rq by (auto simp: ready_ok_def c_def)
  then have "queue_holds NUM_IDS s1 []"
    using cpu by (auto simp: queue_holds_def queue_rep_def s1_def cpu_ok_def magic_upd cpu_upd upd_thread c_def)
  then have d: "kwp (tqueue_dequeue NUM_IDS) (\<lambda>p t. p = NUM_IDS \<and> t = s1) s1" by (rule tq.deq_empty)
  have stuck: "\<not> kwp (kbind (tqueue_dequeue NUM_IDS) (\<lambda>p. kthen (tcb_set_state p TSTATE_RUN) (f p))) (\<lambda>_ _. True) s1" for f
    using d by (auto simp: kwp_kbind kwp_Inr tcb_set_state_def wp elim!: kwpE)
  show ?thesis
    using stuck [of "\<lambda>p. kthen (set_curid p) (kthen sched_unlock (kctx_switch pid p))"] cpu pid
    unfolding thread_sleep_enter_def
    by (simp add: wp release_wp tcb_set_chan_def tcb_set_state_def cpu_okD s1_def T0_def upd_thread cpu_upd
        c_def [symmetric] pid_def [symmetric])
qed

end

lemma sched_update_wp:
  fixes s :: "'a thread_scheme"
  defines "c \<equiv> ks_cpu_idx s"
  assumes ok: "sched_ok rq s"
  shows "kwp sched_update (\<lambda>_ t. if sched_ticks s c + 1 > SCHED_SLICE
     then yield_post rq (s\<lparr>sched_ticks := (sched_ticks s)(c := 0)\<rparr>) t
     else t = s\<lparr>sched_ticks := (sched_ticks s)(c := sched_ticks s c + 1)\<rparr>) s"
proof -
  have cpu: "cpu_ok s" "lock_free (sched_lk s)" "c < NUM_CPUS" "cpu_idx (pcpu s c) = c"
    using ok by (simp_all add: sched_ok_def c_def cpu_okD)
  have "sched_ok rq (s\<lparr>sched_ticks := (sched_ticks s)(c := 0)\<rparr>)"
    using ok by (simp add: sched_ok_def cpu_ok_def)
  then have y: "kwp thread_yield (\<lambda>_ t. yield_post rq (s\<lparr>sched_ticks := (sched_ticks s)(c := 0)\<rparr>) t)
      (s\<lparr>sched_ticks := (sched_ticks s)(c := 0)\<rparr>)"
    by (rule thread_yield_wp)
  have e: "s\<lparr>sched_ticks := k, sched_lk := spinlock_init\<rparr> = s\<lparr>sched_ticks := k\<rparr>" for k
    using cpu(2) by simp
  show ?thesis
    using cpu y by (auto simp: e sched_update_def ticks_store_def wp cpu_okD c_def [symmetric])
qed

lemma thread_spawn_wp:
  fixes s :: "'a thread_scheme"
  defines "c \<equiv> ks_cpu_idx s"
  assumes ok: "sched_ok rq s" and con: "container_ok (CONTAINER s)" "i \<in> in_use (CONTAINER s)"
    and nc: "nchildren (CONTAINER s i) < MAX_CHILDREN" and q: "unat (usage (CONTAINER s i)) + unat q \<le> unat (quota (CONTAINER s i))"
    and child: "child = i * MAX_CHILDREN + 1 + nchildren (CONTAINER s i)" "child < NUM_IDS"
    and dead: "t_status (TCBPool s child) = TSTATE_DEAD"
  shows "kwp (thread_spawn entry i q) (\<lambda>r t. r = child \<and> sched_ok (rq(c := rq c @ [child])) t \<and>
     CURID t = CURID s \<and> CONTAINER t = split_table i q (CONTAINER s) \<and> container_ok (CONTAINER t) \<and>
     k_eip (kctx_pool t child) = entry \<and>
     k_esp (kctx_pool t child) = proc_kstack_addr s + (child + 1) * KSTACK_SIZE \<and>
     (\<forall>p. p \<noteq> child \<longrightarrow> kctx_pool t p = kctx_pool s p)) s"
proof -
  let ?C = "split_table i q (CONTAINER s)"
  define k where "k = (kctx_pool s child)\<lparr>k_esp := proc_kstack_addr s + (child + 1) * KSTACK_SIZE, k_eip := entry\<rparr>"
  define s1 where "s1 = s\<lparr>sched_lk := lock_by c, CONTAINER := ?C, kctx_pool := (kctx_pool s)(child := k)\<rparr>"
  have cpu: "cpu_ok s" "lock_free (sched_lk s)" "c < NUM_CPUS" "cpu_idx (pcpu s c) = c"
    and r: "ready_ok rq (TCBPool s) (TQueuePool s)"
    and cur: "CURID s c < NUM_IDS" "t_status (TCBPool s (CURID s c)) = TSTATE_RUN"
    using ok by (simp_all add: sched_ok_def c_def cpu_okD)
  have i: "i < NUM_IDS" using con(2) by (simp add: in_use_def)
  have ne: "child \<noteq> i" using child_fresh [OF con nc] con(2) child by metis
  have C: "container_ok ?C" using split_table_ok [OF con nc _ q] child by simp
  have cpu1: "cpu_ok s1" "ks_cpu_idx s1 = c" "ready_ok rq (TCBPool s1) (TQueuePool s1)"
    using cpu r by (simp_all add: s1_def cpu_ok_def c_def)
  have "kwp (kthen (tcb_set_state child TSTATE_READY) (tqueue_enqueue NUM_IDS child))
     (\<lambda>_ t. \<exists>T Q. t = s1\<lparr>TCBPool := T, TQueuePool := Q\<rparr> \<and> ready_ok (rq(c := rq c @ [child])) T Q \<and>
        links_only UNIV ((TCBPool s1)(child := (TCBPool s1 child)\<lparr>t_status := TSTATE_READY\<rparr>)) T) s1"
    using make_ready_wp [OF cpu1(1,3) child(2)] dead cpu1(2) by (simp add: s1_def)
  then have fin: "kwp (kthen (kthen (tcb_set_state child TSTATE_READY) (tqueue_enqueue NUM_IDS child))
      (kthen sched_unlock (kreturn child))) (\<lambda>r t. r = child \<and> sched_ok (rq(c := rq c @ [child])) t \<and>
     CURID t = CURID s \<and> CONTAINER t = ?C \<and> kctx_pool t = (kctx_pool s)(child := k)) s1"
  proof (rule kwp_kthenI)
    fix u t
    assume "\<exists>T Q. t = s1\<lparr>TCBPool := T, TQueuePool := Q\<rparr> \<and> ready_ok (rq(c := rq c @ [child])) T Q \<and>
        links_only UNIV ((TCBPool s1)(child := (TCBPool s1 child)\<lparr>t_status := TSTATE_READY\<rparr>)) T"
    then obtain T Q where t: "t = s1\<lparr>TCBPool := T, TQueuePool := Q\<rparr>" "ready_ok (rq(c := rq c @ [child])) T Q"
      and l: "links_only UNIV ((TCBPool s1)(child := (TCBPool s1 child)\<lparr>t_status := TSTATE_READY\<rparr>)) T" by blast
    have "t_status (T (CURID s c)) = TSTATE_RUN"
      using cur dead by (auto simp: links_onlyD [OF l] s1_def)
    then show "kwp (kthen sched_unlock (kreturn child)) (\<lambda>r t. r = child \<and> sched_ok (rq(c := rq c @ [child])) t \<and>
     CURID t = CURID s \<and> CONTAINER t = ?C \<and> kctx_pool t = (kctx_pool s)(child := k)) t"
      using t cpu cur by (simp add: wp sched_ok_def s1_def cpu_ok_def c_def)
  qed
  have "kwp (alloc_mem_quota i q) (\<lambda>r t. r = child \<and> t = s\<lparr>sched_lk := lock_by c, CONTAINER := ?C\<rparr>)
      (s\<lparr>sched_lk := lock_by c\<rparr>)"
    unfolding alloc_mem_quota_def by (rule container_split_wp [OF i _ child(2) ne]) (simp_all add: child)
  then have "kwp (kctx_new entry i q) (\<lambda>r t. r = child \<and> t = s1) (s\<lparr>sched_lk := lock_by c\<rparr>)"
    unfolding kctx_new_def
    by (rule kwp_kbindI) (use child(2) in \<open>simp add: wp kctx_set_esp_def kctx_set_eip_def kctx_upd_def s1_def k_def
        algebra_simps\<close>)
  then have "kwp (kbind (kctx_new entry i q) (\<lambda>pid. kthen (kthen (tcb_set_state pid TSTATE_READY)
      (tqueue_enqueue NUM_IDS pid)) (kthen sched_unlock (kreturn pid))))
     (\<lambda>r t. r = child \<and> sched_ok (rq(c := rq c @ [child])) t \<and>
     CURID t = CURID s \<and> CONTAINER t = ?C \<and> kctx_pool t = (kctx_pool s)(child := k)) (s\<lparr>sched_lk := lock_by c\<rparr>)"
    by (rule kwp_kbindI) (use fin in simp)
  then show ?thesis
    using cpu C unfolding thread_spawn_def
    by (simp add: wp cpu_okD c_def [symmetric], elim kwp_mono) (auto simp: k_def)
qed

section \<open>Properties\<close>

text \<open>
  C10: \<^verbatim>\<open>thread_yield\<close> is round robin. From a state in which the ready queues hold exactly the ready
  threads, the running thread goes to the back of the queue of its CPU, the thread at the front
  gets the CPU and is the only one taken out, and the invariant holds again. The registers are
  switched to the saved context of the new thread exactly when it is another one.
\<close>

theorem thread_yield_correct:
  assumes "sched_ok rq s"
  shows "kwp thread_yield (\<lambda>_ t. yield_post rq s t) s"
  using assms by (rule thread_yield_wp)

text \<open>
  C19: no ready thread starves. The \<open>i\<close>-th thread of the ready queue runs after \<open>i + 1\<close> yields of
  its CPU, none of which faults or blocks.
\<close>

theorem thread_yield_fair:
  assumes "sched_ok rq s" and "i < length (rq (ks_cpu_idx s))"
  shows "kwp (krepeat (i + 1) thread_yield) (\<lambda>_ t. CURID t (ks_cpu_idx s) = rq (ks_cpu_idx s) ! i) s"
proof -
  let ?c = "ks_cpu_idx s"
  have nth: "hd (rotate (i + 1) (CURID s ?c # rq ?c)) = rq ?c ! i"
    using assms(2) by (subst hd_rotate_conv_nth) simp_all
  show ?thesis
    by (rule kwp_mono [OF yields_rotate [OF assms(1) refl]]) (metis nth list.sel(1))
qed

text \<open>
  C33: \<^verbatim>\<open>thread_wakeup\<close> appends exactly the threads sleeping on the channel, in the order of
  their numbers, to the ready queue of the calling CPU; every other thread keeps its state, and
  the scheduler invariant holds again.
\<close>

theorem thread_wakeup_correct:
  assumes "sched_ok rq s"
  shows "kwp (thread_wakeup ch) (\<lambda>_ t. sched_ok (rq(ks_cpu_idx s := rq (ks_cpu_idx s) @ sleepers (TCBPool s) ch 64)) t \<and>
           (\<forall>x<NUM_IDS. t_status (TCBPool t x) = (if sleeps_on (TCBPool s x) ch then TSTATE_READY else t_status (TCBPool s x)))) s"
proof (rule kwp_mono [OF thread_wakeup_wp [OF assms]])
  fix u t
  assume a: "sched_ok (rq(ks_cpu_idx s := rq (ks_cpu_idx s) @ sleepers (TCBPool s) ch 64)) t \<and> wakeup_post rq ch 64 s t"
  then have l: "links_only UNIV (woken (TCBPool s) ch 64) (TCBPool t)" by (auto simp: wakeup_post_def)
  show "sched_ok (rq(ks_cpu_idx s := rq (ks_cpu_idx s) @ sleepers (TCBPool s) ch 64)) t \<and>
           (\<forall>x<NUM_IDS. t_status (TCBPool t x) = (if sleeps_on (TCBPool s x) ch then TSTATE_READY else t_status (TCBPool s x)))"
    using a by (auto simp: links_onlyD(1) [OF l] woken_def word_less_nat_alt)
qed


text \<open>
  C35: \<^verbatim>\<open>thread_spawn\<close> for a process with a free child slot and enough quota: the new thread is the
  next child of the process, is appended to the ready queue of the CPU, starts at \<open>entry\<close> on
  the top of its own kernel stack, and is charged to its parent; container tree and scheduler
  invariant hold again.
\<close>

theorem thread_spawn_correct:
  assumes "sched_ok rq s" and "container_ok (CONTAINER s)" and "i \<in> in_use (CONTAINER s)"
    and "nchildren (CONTAINER s i) < MAX_CHILDREN"
    and "unat (usage (CONTAINER s i)) + unat q \<le> unat (quota (CONTAINER s i))"
    and "child = i * MAX_CHILDREN + 1 + nchildren (CONTAINER s i)" and "child < NUM_IDS"
    and "t_status (TCBPool s child) = TSTATE_DEAD"
  shows "kwp (thread_spawn entry i q) (\<lambda>r t. r = child \<and>
     sched_ok (rq(ks_cpu_idx s := rq (ks_cpu_idx s) @ [child])) t \<and> CURID t = CURID s \<and>
     CONTAINER t = split_table i q (CONTAINER s) \<and> container_ok (CONTAINER t) \<and>
     k_eip (kctx_pool t child) = entry \<and>
     k_esp (kctx_pool t child) = proc_kstack_addr s + (child + 1) * KSTACK_SIZE \<and>
     (\<forall>p. p \<noteq> child \<longrightarrow> kctx_pool t p = kctx_pool s p)) s"
  using assms by (rule thread_spawn_wp)

section \<open>Witnesses\<close>

definition rq_demo :: "u32 \<Rightarrow> u32 list" where
  "rq_demo = (\<lambda>_. [])(0 := [1, 2])"

lemma thread_demo_sched: "sched_ok rq_demo thread_demo"
proof -
  have "queue_rep tcb_demo (TQueuePool thread_demo c NUM_IDS) (rq_demo c)" for c
    by (simp add: thread_demo_def mpt.defs tcb_demo_def rq_demo_def queue_rep_def)
  moreover have "t_status (tcb_demo x) = TSTATE_READY \<longleftrightarrow> (\<exists>c<NUM_CPUS. x \<in> set (rq_demo c))" for x
    by (auto simp: tcb_demo_def rq_demo_def split: if_splits)
  moreover have "set (rq_demo c) \<inter> set (rq_demo d) = {}" if "c \<noteq> d" for c d
    using that by (auto simp: rq_demo_def)
  moreover have "TCBPool thread_demo = tcb_demo" "CURID thread_demo 0 = 0" "sched_lk thread_demo = spinlock_init"
    by (simp_all add: thread_demo_def mpt.defs)
  moreover have "t_status (tcb_demo 0) = TSTATE_RUN" by (simp add: tcb_demo_def)
  ultimately show ?thesis
    using thread_demo_cpu by (simp add: sched_ok_def ready_ok_def)
qed

lemma thread_demo_con: "CONTAINER thread_demo = CONTAINER con_demo" "proc_kstack_addr thread_demo = 0x200000"
  by (simp_all add: thread_demo_def mpt.defs vm_demo_def mpt_base_def mcontainer.defs con_demo_def mat.defs)

theorem thread_yield_correct_witness: "kwp thread_yield (\<lambda>_ t. yield_post rq_demo thread_demo t) thread_demo"
  by (rule thread_yield_correct [OF thread_demo_sched])

theorem thread_yield_fair_witness: "kwp (krepeat 2 thread_yield) (\<lambda>_ t. CURID t 0 = 2) thread_demo"
  using thread_yield_fair [OF thread_demo_sched, of 1] thread_demo_cpu(2)
  by (simp add: rq_demo_def numeral_2_eq_2)

theorem thread_wakeup_correct_witness:
  "kwp (thread_wakeup LogChan) (\<lambda>_ t. t_status (TCBPool t 3) = TSTATE_READY) thread_demo"
proof (rule kwp_mono [OF thread_wakeup_correct [OF thread_demo_sched]])
  fix u t
  assume "sched_ok (rq_demo(ks_cpu_idx thread_demo := rq_demo (ks_cpu_idx thread_demo) @
      sleepers (TCBPool thread_demo) LogChan 64)) t \<and>
    (\<forall>x<NUM_IDS. t_status (TCBPool t x) =
      (if sleeps_on (TCBPool thread_demo x) LogChan then TSTATE_READY else t_status (TCBPool thread_demo x)))"
  moreover have "sleeps_on (TCBPool thread_demo 3) LogChan"
    by (simp add: sleeps_on_def thread_demo_def mpt.defs tcb_demo_def)
  ultimately show "t_status (TCBPool t 3) = TSTATE_READY" by simp
qed


theorem thread_spawn_correct_witness:
  "kwp (thread_spawn 0x1234 1 2) (\<lambda>r t. r = 4 \<and> sched_ok (rq_demo(0 := [1, 2, 4])) t \<and>
     k_eip (kctx_pool t 4) = 0x1234 \<and> k_esp (kctx_pool t 4) = 0x205000) thread_demo"
proof -
  have d: "t_status (TCBPool thread_demo 4) = TSTATE_DEAD"
    by (simp add: thread_demo_def mpt.defs tcb_demo_def)
  show ?thesis
    by (rule kwp_mono [OF thread_spawn_correct [OF thread_demo_sched, of 1 2 4 "0x1234"]])
       (use con_demo_ok con_demo_in_use con_demo_rows d thread_demo_cpu(2) in
         \<open>simp_all add: thread_demo_con rq_demo_def\<close>)
qed

end
