(* ===== verification/Pmap.thy ===== *)
theory Pmap
  imports PThread
begin

text \<open>
  Copying between kernel memory and the address space of a process (kern/lib/pmap.c), and
  loading an ELF image into one (kern/lib/elf.c).

  The kernel reaches physical memory through the identity map of directory 0, so the addresses
  handed to \<^verbatim>\<open>memcpy\<close> and \<^verbatim>\<open>memset\<close> are physical. An ELF image lies in kernel memory; its header
  fields are read at the offsets of \<^verbatim>\<open>elfhdr\<close>, \<^verbatim>\<open>proghdr\<close> and \<^verbatim>\<open>sechdr\<close> (kern/lib/elf.h).
\<close>

section \<open>pmap.c\<close>

text \<open>The translation at the top of the three loops: the entry of the address, after allocating a page when it is not present.\<close>

definition pt_translate :: "u32 \<Rightarrow> u32 \<Rightarrow> ('a mpt_scheme, u32) kprog" where
  "pt_translate pmap_id uva =
     kbind (get_ptbl_entry_by_va pmap_id uva) (\<lambda>e0.
     kbind (if e0 AND PTE_P = 0
            then kthen (alloc_page pmap_id uva (PTE_P OR PTE_U OR PTE_W)) (get_ptbl_entry_by_va pmap_id uva)
            else kreturn e0) (\<lambda>e.
     kreturn ((e AND 0xfffff000) + uva mod PAGESIZE)))"

text \<open>What is left of the page, but no more than \<open>len\<close>.\<close>

definition chunk :: "u32 \<Rightarrow> u32 \<Rightarrow> u32" where
  "chunk pa len = (if len < PAGESIZE - pa mod PAGESIZE then len else PAGESIZE - pa mod PAGESIZE)"

lemma page_rest: "0 < PAGESIZE - (pa :: u32) mod PAGESIZE" "PAGESIZE - (pa :: u32) mod PAGESIZE \<le> PAGESIZE"
  and unat_page_rest: "unat (PAGESIZE - (pa :: u32) mod PAGESIZE) = 4096 - unat pa mod 4096"
proof -
  have m: "pa mod 4096 \<le> 4096" "unat (pa mod 4096) < 4096"
    by (simp_all add: word_le_nat_alt unat_mod less_imp_le)
  show u: "unat (PAGESIZE - pa mod PAGESIZE) = 4096 - unat pa mod 4096"
    using unat_sub [OF m(1)] by (simp add: unat_mod)
  show "0 < PAGESIZE - pa mod PAGESIZE" "PAGESIZE - pa mod PAGESIZE \<le> PAGESIZE"
    unfolding word_less_nat_alt word_le_nat_alt u by simp_all
qed

lemma chunk_le: "chunk pa len \<le> len" and chunk_pos: "len \<noteq> 0 \<Longrightarrow> 0 < chunk pa len"
  using page_rest(1) [of pa] by (auto simp: chunk_def word_neq_0_conv not_less)

lemma chunk_decreases: "len \<noteq> 0 \<Longrightarrow> unat (len - chunk pa len) < unat len"
  using chunk_le [of pa len] chunk_pos [of len pa]
  by (simp add: unat_sub word_less_nat_alt word_le_nat_alt)

function pt_copyin_loop :: "u32 \<Rightarrow> u32 \<Rightarrow> u32 \<Rightarrow> u32 \<Rightarrow> u32 \<Rightarrow> ('a mpt_scheme, u32) kprog" where
  "pt_copyin_loop pmap_id uva kva len tot s =
     (if len = 0 then Inr (tot, s)
      else kbind (pt_translate pmap_id uva) (\<lambda>pa t.
        let n = chunk pa len in
        pt_copyin_loop pmap_id (uva + n) (kva + n) (len - n) (tot + n)
          (t\<lparr>phys_mem := memcpy kva pa n (phys_mem t)\<rparr>)) s)"
  by pat_completeness auto
termination
  by (relation "measure (\<lambda>(_, _, _, len, _, _). unat len)") (simp_all add: chunk_decreases)

declare pt_copyin_loop.simps [simp del]

definition pt_copyin :: "u32 \<Rightarrow> u32 \<Rightarrow> u32 \<Rightarrow> u32 \<Rightarrow> ('a mpt_scheme, u32) kprog" where
  "pt_copyin pmap_id uva kva len =
     (if \<not> (VM_USERLO \<le> uva \<and> uva + len \<le> VM_USERHI) then kreturn 0
      else if kva + len > VM_USERHI then kreturn 0
      else pt_copyin_loop pmap_id uva kva len 0)"

function pt_copyout_loop :: "u32 \<Rightarrow> u32 \<Rightarrow> u32 \<Rightarrow> u32 \<Rightarrow> u32 \<Rightarrow> ('a mpt_scheme, u32) kprog" where
  "pt_copyout_loop kva pmap_id uva len tot s =
     (if len = 0 then Inr (tot, s)
      else kbind (pt_translate pmap_id uva) (\<lambda>pa t.
        let n = chunk pa len in
        pt_copyout_loop (kva + n) pmap_id (uva + n) (len - n) (tot + n)
          (t\<lparr>phys_mem := memcpy pa kva n (phys_mem t)\<rparr>)) s)"
  by pat_completeness auto
termination
  by (relation "measure (\<lambda>(_, _, _, len, _, _). unat len)") (simp_all add: chunk_decreases)

declare pt_copyout_loop.simps [simp del]

definition pt_copyout :: "u32 \<Rightarrow> u32 \<Rightarrow> u32 \<Rightarrow> u32 \<Rightarrow> ('a mpt_scheme, u32) kprog" where
  "pt_copyout kva pmap_id uva len =
     (if \<not> (VM_USERLO \<le> uva \<and> uva + len \<le> VM_USERHI) then kreturn 0
      else if kva + len > VM_USERHI then kreturn 0
      else pt_copyout_loop kva pmap_id uva len 0)"

function pt_memset :: "u32 \<Rightarrow> u32 \<Rightarrow> u32 \<Rightarrow> u32 \<Rightarrow> u32 \<Rightarrow> ('a mpt_scheme, u32) kprog" where
  "pt_memset pmap_id va c len n0 s =
     (if len = 0 then Inr (n0, s)
      else kbind (pt_translate pmap_id va) (\<lambda>pa t.
        let n = chunk pa len in
        pt_memset pmap_id (va + n) c (len - n) (n0 + n) (t\<lparr>phys_mem := memset pa c n (phys_mem t)\<rparr>)) s)"
  by pat_completeness auto
termination
  by (relation "measure (\<lambda>(_, _, _, len, _, _). unat len)") (simp_all add: chunk_decreases)

declare pt_memset.simps [simp del]

section \<open>elf.c\<close>

abbreviation (input) ELF_MAGIC :: u32 where "ELF_MAGIC \<equiv> 0x464C457F"

definition load16 :: "memory \<Rightarrow> u32 \<Rightarrow> u32" where
  "load16 m a = ucast (m a) + ucast (m (a + 1)) * 256"

definition e_entry :: "memory \<Rightarrow> u32 \<Rightarrow> u32" where "e_entry m eh = load32 m (eh + 24)"
definition e_phoff :: "memory \<Rightarrow> u32 \<Rightarrow> u32" where "e_phoff m eh = load32 m (eh + 28)"
definition e_shoff :: "memory \<Rightarrow> u32 \<Rightarrow> u32" where "e_shoff m eh = load32 m (eh + 32)"
definition e_phnum :: "memory \<Rightarrow> u32 \<Rightarrow> u32" where "e_phnum m eh = load16 m (eh + 44)"
definition e_shstrndx :: "memory \<Rightarrow> u32 \<Rightarrow> u32" where "e_shstrndx m eh = load16 m (eh + 50)"

record proghdr =
  p_type :: u32
  p_offset :: u32
  p_va :: u32
  p_filesz :: u32
  p_memsz :: u32
  p_flags :: u32

definition read_proghdr :: "memory \<Rightarrow> u32 \<Rightarrow> proghdr" where
  "read_proghdr m ph =
     \<lparr>p_type = load32 m ph, p_offset = load32 m (ph + 4), p_va = load32 m (ph + 8),
      p_filesz = load32 m (ph + 16), p_memsz = load32 m (ph + 20), p_flags = load32 m (ph + 24)\<rparr>"

text \<open>One page of a segment: a whole page of the file, the last part of the file, or zeroes.\<close>

definition elf_page :: "u32 \<Rightarrow> u32 \<Rightarrow> u32 \<Rightarrow> u32 \<Rightarrow> u32 \<Rightarrow> u32 \<Rightarrow> ('a mpt_scheme, unit) kprog" where
  "elf_page pid prm zva filesz va fa =
     kthen (alloc_page pid va prm)
     (if va < rounddown zva PAGESIZE then kthen (pt_copyout fa pid va PAGESIZE) (kreturn ())
      else if va < zva \<and> filesz \<noteq> 0 then
        kthen (pt_memset pid va 0 PAGESIZE 0) (kthen (pt_copyout fa pid va (zva - va)) (kreturn ()))
      else kthen (pt_memset pid va 0 PAGESIZE 0) (kreturn ()))"

text \<open>
  One program header. \<open>va\<close> and \<open>eva\<close> are multiples of the page size, so the loop
  \<^verbatim>\<open>for (; va < eva; va += PAGESIZE, fa += PAGESIZE)\<close> runs \<open>(eva - va) div PAGESIZE\<close> times.
\<close>

definition elf_segment :: "u32 \<Rightarrow> u32 \<Rightarrow> proghdr \<Rightarrow> ('a mpt_scheme, unit) kprog" where
  "elf_segment eh pid ph =
     kwhen (p_type ph = 1)
       (let fa = eh + rounddown (p_offset ph) PAGESIZE;
            va = rounddown (p_va ph) PAGESIZE;
            zva = p_va ph + p_filesz ph;
            eva = roundup (p_va ph + p_memsz ph) PAGESIZE;
            prm = (if p_flags ph AND 2 \<noteq> 0 then PTE_U OR PTE_P OR PTE_W else PTE_U OR PTE_P)
        in kfor 0 (if va < eva then (eva - va) div PAGESIZE else 0)
             (\<lambda>k. elf_page pid prm zva (p_filesz ph) (va + k * PAGESIZE) (fa + k * PAGESIZE)))"

definition elf_load :: "u32 \<Rightarrow> u32 \<Rightarrow> ('a mpt_scheme, unit) kprog" where
  "elf_load exe pid =
     kbind (kgets phys_mem) (\<lambda>m.
     let sh = exe + e_shoff m exe;
         ph = exe + e_phoff m exe
     in
     kthen (kassert (load32 m exe = ELF_MAGIC) (Panic ''elf_load''))
     (kthen (kassert (e_shstrndx m exe \<noteq> 0) (Panic ''elf_load''))
     (kthen (kassert (load32 m (sh + e_shstrndx m exe * 40 + 4) = 3) (Panic ''elf_load''))
     (kfor 0 (e_phnum m exe) (\<lambda>i.
        kbind (kgets (\<lambda>s. read_proghdr (phys_mem s) (ph + i * 32))) (elf_segment exe pid))))))"

definition elf_entry :: "u32 \<Rightarrow> ('a mpt_scheme, u32) kprog" where
  "elf_entry exe =
     kbind (kgets phys_mem) (\<lambda>m.
     kthen (kassert (load32 m exe = ELF_MAGIC) (Panic ''elf_entry'')) (kreturn (e_entry m exe)))"

section \<open>Writing into a page of a process\<close>

lemma mod_page_less: "(v :: u32) mod 4096 < 4096"
  by (simp add: word_less_nat_alt unat_mod)

lemma mmu_user_page:
  assumes ok: "vm_ok s" and p: "p < NUM_IDS" and acc: "mmu_user s p va = Some pa"
  shows "pa div 4096 \<in> owned_pages s" and "pa mod 4096 = va mod 4096"
    and "0x40000000 \<le> unat pa" and "unat pa < 0xF0000000"
    and "user_dir r d \<Longrightarrow> PDirPool s r d \<noteq> 0 \<Longrightarrow> PDirPool s r d div 4096 \<noteq> pa div 4096"
proof -
  let ?pg = "page_at (PDirPool s) (phys_mem s)" and ?x = "Leaf p (pde_of va) (pte_of va)"
  have inv: "vm_inv (owned_pages s) (PDirPool s) (phys_mem s) (IDPTbl_addr s)"
    using ok by (simp add: vm_ok_def)
  note x = mmu_user_leaf [OF inv p acc]
  have own: "?pg ?x \<in> owned_pages s" using vm_invD(2) [OF inv x(1)] .
  have no: "page_no (?pg ?x)" using vm_invD(1) [OF inv own] by simp
  have pa: "pa div 4096 = ?pg ?x" "pa mod 4096 = va mod 4096"
    using x(2) page_sum(1,2) [OF no mod_page_less] by simp_all
  show "pa div 4096 \<in> owned_pages s" "pa mod 4096 = va mod 4096" using own pa by simp_all
  have "0x40000 \<le> unat pa div 4096" "unat pa div 4096 < 0xF0000"
    using vm_invD(1) [OF inv own [folded pa(1)]] by (simp_all add: word_le_nat_alt word_less_nat_alt unat_div)
  then show "0x40000000 \<le> unat pa" "unat pa < 0xF0000000" by linarith+
  show "PDirPool s r d div 4096 \<noteq> pa div 4096" if "user_dir r d" "PDirPool s r d \<noteq> 0"
    using vm_invD(3) [OF inv x(1), of "Dir r d"] that by (auto simp: pa page_at_def)
qed

lemma mmu_user_data:
  assumes ok: "vm_ok s" and p: "p < NUM_IDS" and acc: "mmu_user s p va = Some pa"
    and same: "same_outside (pa div 4096) (phys_mem s) m'"
  shows "vm_ok (s\<lparr>phys_mem := m'\<rparr>)" and "q < NUM_IDS \<Longrightarrow> mmu_user (s\<lparr>phys_mem := m'\<rparr>) q vb = mmu_user s q vb"
proof -
  have inv: "vm_inv (owned_pages s) (PDirPool s) (phys_mem s) (IDPTbl_addr s)"
    using ok by (simp add: vm_ok_def)
  note pg = mmu_user_page [OF ok p acc]
  have inv': "vm_inv (owned_pages s) (PDirPool s) m' (IDPTbl_addr s)"
    using pg by (intro vm_inv_data(3) [OF inv same]) auto
  then show "vm_ok (s\<lparr>phys_mem := m'\<rparr>)"
    using ok by (simp add: vm_ok_def mat_ok_def perms_ok_def owned_pages_def)
  assume q: "q < NUM_IDS"
  let ?d = "pde_of vb" and ?j = "pte_of vb"
  show "mmu_user (s\<lparr>phys_mem := m'\<rparr>) q vb = mmu_user s q vb"
  proof (cases "user_dir q ?d \<and> PDirPool s q ?d \<noteq> 0")
    case True
    then have "load32 m' (entry_at (PDirPool s q ?d div 4096) ?j) =
        load32 (phys_mem s) (entry_at (PDirPool s q ?d div 4096) ?j)"
      using pg(5) [of q ?d] by (intro load32_same_outside [OF same _ page_no_div pte_of_less]) blast
    then show ?thesis by (simp add: mmu_user_def Let_def ptbl_addr_entry)
  next
    case False
    have "mmu_user t q vb = None" if "vm_inv A (PDirPool t) (phys_mem t) (IDPTbl_addr t)"
      "PDirPool t = PDirPool s" for t :: "'a mpt_scheme" and A
      using mmu_user_leaf(1) [OF that(1) q] that(2) False by (cases "mmu_user t q vb") auto
    then show ?thesis
      using inv inv' by simp
  qed
qed

text \<open>Inside one page, consecutive virtual addresses have consecutive physical addresses.\<close>

lemma same_page:
  fixes va i :: u32
  assumes "unat i < 4096 - unat va mod 4096"
  shows "(va + i) div 4096 = va div 4096" and "(va + i) mod 4096 = va mod 4096 + i"
    and "unat (va + i) = unat va + unat i"
proof -
  have dm: "unat va = 4096 * (unat va div 4096) + unat va mod 4096" by simp
  have lim: "unat va div 4096 < 1048576" using unat_u32_less [of va] by (simp add: less_mult_imp_div_less)
  have "4096 * (unat va div 4096) \<le> 4096 * 1048575" using lim by (intro mult_left_mono) simp_all
  then have "unat va + unat i < 4294967296" using assms dm by linarith
  then show u: "unat (va + i) = unat va + unat i" by (simp add: unat_word_ariths)
  define q r where "q = unat va div 4096" and "r = unat va mod 4096 + unat i"
  have e: "unat va + unat i = r + 4096 * q" and r: "r < 4096" using dm assms by (simp_all add: q_def r_def)
  have "(r + 4096 * q) div 4096 = q" "(r + 4096 * q) mod 4096 = r" using r by simp_all
  then have "(unat va + unat i) div 4096 = unat va div 4096" "(unat va + unat i) mod 4096 = unat va mod 4096 + unat i"
    unfolding e by (simp_all only: q_def r_def)
  moreover have "unat (va mod 4096 + i) = unat va mod 4096 + unat i"
    using assms by (simp add: unat_word_ariths unat_mod)
  ultimately show "(va + i) div 4096 = va div 4096" "(va + i) mod 4096 = va mod 4096 + i"
    by (simp_all add: word_unat_eq_iff unat_div unat_mod u)
qed

lemma mmu_user_next:
  assumes "mmu_user s p va = Some pa" and i: "unat i < 4096 - unat va mod 4096"
  shows "mmu_user s p (va + i) = Some (pa + i)"
proof -
  have "unat v div 4194304 = unat (v div 4096) div 1024" for v :: u32
    using div_mult2_eq [of "unat v" 4096 1024] by (simp add: unat_div)
  then have "pde_of (va + i) = pde_of va" "pte_of (va + i) = pte_of va"
    using same_page(1) [OF i] by (simp_all add: pde_of_def pte_of_def word_unat_eq_iff unat_div [of _ 4194304] unat_mod)
  then show ?thesis
    using assms same_page(2) [OF i] by (auto simp: mmu_user_def Let_def split: if_splits)
qed

lemma mmu_user_unique:
  assumes ok: "vm_ok s" and p: "p < NUM_IDS" and q: "q < NUM_IDS"
    and v: "mmu_user s p v = Some a" and w: "mmu_user s q w = Some a"
  shows "p = q" and "v = w"
proof -
  have inv: "vm_inv (owned_pages s) (PDirPool s) (phys_mem s) (IDPTbl_addr s)"
    using ok by (simp add: vm_ok_def)
  note lv = mmu_user_leaf [OF inv p v] and lw = mmu_user_leaf [OF inv q w]
  have low: "v mod 4096 = w mod 4096" using mmu_user_page(2) [OF ok p v] mmu_user_page(2) [OF ok q w] by simp
  have "page_at (PDirPool s) (phys_mem s) (Leaf p (pde_of v) (pte_of v)) =
      page_at (PDirPool s) (phys_mem s) (Leaf q (pde_of w) (pte_of w))"
    using lv(2) lw(2) page_sum(1) [OF _ mod_page_less] vm_invD(1) [OF inv vm_invD(2) [OF inv lv(1)]]
      vm_invD(1) [OF inv vm_invD(2) [OF inv lw(1)]] by metis
  then have eq: "Leaf p (pde_of v) (pte_of v) = Leaf q (pde_of w) (pte_of w)"
    by (rule vm_invD(3) [OF inv lv(1) lw(1)])
  then show "p = q" by simp
  have "v div 4096 = w div 4096" using eq vpn_split [of v] vpn_split [of w] by simp
  with low show "v = w" by (metis word_mod_div_equality)
qed

lemma in_range_offset:
  assumes "in_range d n a"
  shows "a = d + (a - d)" and "unat (a - d) < n"
  using assms by (auto simp: in_range_def unat_sub word_le_nat_alt)

text \<open>A write that stays in one user page.\<close>

lemma write_in_page:
  assumes "\<And>a. \<not> in_range pa n a \<Longrightarrow> m' a = m a" and "n \<le> 4096 - unat pa mod 4096"
  shows "same_outside (pa div 4096) m m'"
  unfolding same_outside_def
proof (intro allI impI)
  fix a
  assume "a div 4096 \<noteq> pa div 4096"
  moreover have "a div 4096 = pa div 4096" if "in_range pa n a"
    using in_range_offset [OF that] same_page(1) [of "a - pa" pa] assms(2) by simp
  ultimately show "m' a = m a" using assms(1) by blast
qed

lemma pt_translate_mapped:
  assumes "p < NUM_IDS" and acc: "mmu_user s p va = Some pa"
  shows "pt_translate p va s = Inr (pa, s)"
proof -
  have e: "PDirPool s p (pde_of va) \<noteq> 0" and l: "load32 (phys_mem s) (ptbl_addr (PDirPool s p (pde_of va)) (pte_of va)) AND 5 = 5"
    and pa: "pa = (load32 (phys_mem s) (ptbl_addr (PDirPool s p (pde_of va)) (pte_of va)) AND 0xfffff000) + va mod 4096"
    using acc by (auto simp: mmu_user_def Let_def split: if_splits)
  have "load32 (phys_mem s) (ptbl_addr (PDirPool s p (pde_of va)) (pte_of va)) AND 1 =
      (load32 (phys_mem s) (ptbl_addr (PDirPool s p (pde_of va)) (pte_of va)) AND 5) AND 1"
    by (simp add: and.assoc)
  then have one: "load32 (phys_mem s) (ptbl_addr (PDirPool s p (pde_of va)) (pte_of va)) AND 1 \<noteq> 0"
    using l by simp
  have "kwp (pt_translate p va) (\<lambda>r t. r = pa \<and> t = s) s"
    using assms(1) e one pa pde_of_less [of va] pte_of_less [of va]
    by (simp add: pt_translate_def get_ptbl_entry_by_va_def get_ptbl_entry_def wp)
  then show ?thesis by (auto elim: kwpE)
qed

definition user_mapped :: "'a mpt_scheme \<Rightarrow> u32 \<Rightarrow> u32 \<Rightarrow> nat \<Rightarrow> bool" where
  "user_mapped s p uva n \<longleftrightarrow> (\<forall>i. unat i < n \<longrightarrow> mmu_user s p (uva + i) \<noteq> None)"

text \<open>
  The \<open>n\<close> bytes at \<open>uva\<close> of the process are \<open>f 0, f 1, ...\<close> in memory \<open>m\<close>, and no other byte of
  memory changes.
\<close>

definition written :: "'a mpt_scheme \<Rightarrow> u32 \<Rightarrow> u32 \<Rightarrow> (u32 \<Rightarrow> u8) \<Rightarrow> nat \<Rightarrow> memory \<Rightarrow> bool" where
  "written s p uva f n m \<longleftrightarrow>
     (\<forall>i pa. unat i < n \<longrightarrow> mmu_user s p (uva + i) = Some pa \<longrightarrow> m pa = f i) \<and>
     (\<forall>a. (\<forall>i. unat i < n \<longrightarrow> mmu_user s p (uva + i) \<noteq> Some a) \<longrightarrow> m a = phys_mem s a)"

lemma written_step:
  assumes ok: "vm_ok s" and p: "p < NUM_IDS" and acc: "mmu_user s p uva = Some pa"
    and n: "unat n \<le> 4096 - unat uva mod 4096" and nl: "n \<le> len"
    and m1: "\<And>i. unat i < unat n \<Longrightarrow> m1 (pa + i) = f i" "\<And>a. \<not> in_range pa (unat n) a \<Longrightarrow> m1 a = phys_mem s a"
    and same: "\<And>v. mmu_user (s\<lparr>phys_mem := m1\<rparr>) p v = mmu_user s p v"
    and rest: "written (s\<lparr>phys_mem := m1\<rparr>) p (uva + n) (\<lambda>j. f (n + j)) (unat (len - n)) m"
  shows "written s p uva f (unat len) m"
proof -
  have len: "unat (len - n) = unat len - unat n" "unat n \<le> unat len"
    using nl by (simp_all add: unat_sub word_le_nat_alt)
  have rest': "m pa' = f (n + j)" if "unat j < unat len - unat n" "mmu_user s p (uva + n + j) = Some pa'" for j pa'
    using rest that by (simp add: written_def len same)
  have frame': "m a = m1 a" if "\<And>j. unat j < unat len - unat n \<Longrightarrow> mmu_user s p (uva + n + j) \<noteq> Some a" for a
    using rest that by (simp add: written_def len same)
  have first: "mmu_user s p (uva + i) = Some (pa + i)" if "unat i < unat n" for i
    using mmu_user_next [OF acc] that n by simp
  have inj: "i = j" if "mmu_user s p (uva + i) = Some a" "mmu_user s p (uva + j) = Some a" for i j a
    using mmu_user_unique(2) [OF ok p p that] by simp
  have sum: "unat (n + j) = unat n + unat j" if "unat j < unat len - unat n" for j
    using that unat_u32_less [of len] by (simp add: unat_word_ariths)
  have low: "m pa' = f i" if i: "unat i < unat n" "mmu_user s p (uva + i) = Some pa'" for i pa'
  proof -
    have pa': "pa' = pa + i" using first [OF i(1)] i(2) by simp
    have "m pa' = m1 pa'"
    proof (rule frame')
      fix j :: u32
      assume j: "unat j < unat len - unat n"
      show "mmu_user s p (uva + n + j) \<noteq> Some pa'"
        using inj [OF i(2), of "n + j"] sum [OF j] i(1) by (auto simp: add.assoc)
    qed
    then show ?thesis using m1(1) [OF i(1)] by (simp add: pa')
  qed
  have high: "m pa' = f i" if i: "\<not> unat i < unat n" "unat i < unat len" "mmu_user s p (uva + i) = Some pa'" for i pa'
  proof -
    have "unat (i - n) = unat i - unat n" using i(1) by (simp add: unat_sub word_le_nat_alt)
    then show ?thesis using rest' [of "i - n" pa'] i by (simp add: less_diff_iff)
  qed
  have frame: "m a = phys_mem s a" if a: "\<forall>i. unat i < unat len \<longrightarrow> mmu_user s p (uva + i) \<noteq> Some a" for a
  proof -
    have "m a = m1 a"
    proof (rule frame')
      fix j :: u32
      assume "unat j < unat len - unat n"
      then show "mmu_user s p (uva + n + j) \<noteq> Some a" using a sum [of j] by (auto simp: add.assoc)
    qed
    moreover have "\<not> in_range pa (unat n) a"
    proof
      assume "in_range pa (unat n) a"
      note off = in_range_offset [OF this]
      then show False using first [OF off(2)] a len(2) off by (metis less_le_trans)
    qed
    ultimately show ?thesis using m1(2) by simp
  qed
  show ?thesis
    unfolding written_def using low high frame by blast
qed

lemma chunk_in_page: "pa mod 4096 = uva mod 4096 \<Longrightarrow> unat (chunk pa len) \<le> 4096 - unat uva mod 4096"
  using unat_page_rest [of pa] by (auto simp: chunk_def word_less_nat_alt word_unat_eq_iff unat_mod)

text \<open>One round of a loop that writes user pages.\<close>

lemma user_round:
  assumes ok: "vm_ok s" and p: "p < NUM_IDS" and acc: "mmu_user s p uva = Some pa"
    and n: "n = chunk pa len" and m1: "\<And>a. \<not> in_range pa (unat n) a \<Longrightarrow> m1 a = phys_mem s a"
    and map: "user_mapped s p uva (unat len)"
  shows "vm_ok (s\<lparr>phys_mem := m1\<rparr>)" and "q < NUM_IDS \<Longrightarrow> mmu_user (s\<lparr>phys_mem := m1\<rparr>) q v = mmu_user s q v"
    and "user_mapped (s\<lparr>phys_mem := m1\<rparr>) p (uva + n) (unat (len - n))"
    and "unat n \<le> 4096 - unat uva mod 4096" and "unat pa + unat n \<le> 4294967296"
proof -
  have md: "pa mod 4096 = uva mod 4096" using mmu_user_page(2) [OF ok p acc] .
  then have md': "unat pa mod 4096 = unat uva mod 4096" by (simp add: word_unat_eq_iff unat_mod)
  show np: "unat n \<le> 4096 - unat uva mod 4096" using chunk_in_page [OF md] n by simp
  have "same_outside (pa div 4096) (phys_mem s) m1" using write_in_page [OF m1] np md' by simp
  note data = mmu_user_data [OF ok p acc this]
  show "vm_ok (s\<lparr>phys_mem := m1\<rparr>)" by (rule data)
  show "q < NUM_IDS \<Longrightarrow> mmu_user (s\<lparr>phys_mem := m1\<rparr>) q v = mmu_user s q v" by (rule data)
  have "unat pa < 0xF0000000" using mmu_user_page(4) [OF ok p acc] .
  then show "unat pa + unat n \<le> 4294967296" using np by simp
  have len: "unat (len - n) = unat len - unat n" using chunk_le [of pa len] n by (simp add: unat_sub word_le_nat_alt)
  show "user_mapped (s\<lparr>phys_mem := m1\<rparr>) p (uva + n) (unat (len - n))"
    unfolding user_mapped_def
  proof (intro allI impI)
    fix i :: u32
    assume i: "unat i < unat (len - n)"
    then have "unat (n + i) < unat len" using len unat_u32_less [of len] by (simp add: unat_word_ariths)
    then show "mmu_user (s\<lparr>phys_mem := m1\<rparr>) p (uva + n + i) \<noteq> None"
      using map data(2) [OF p] by (simp add: user_mapped_def add.assoc)
  qed
qed

definition user_write :: "'a mpt_scheme \<Rightarrow> u32 \<Rightarrow> u32 \<Rightarrow> (u32 \<Rightarrow> u8) \<Rightarrow> u32 \<Rightarrow> memory \<Rightarrow> bool" where
  "user_write s p uva f len m \<longleftrightarrow> written s p uva f (unat len) m \<and> vm_ok (s\<lparr>phys_mem := m\<rparr>) \<and>
     (\<forall>q<NUM_IDS. \<forall>v. mmu_user (s\<lparr>phys_mem := m\<rparr>) q v = mmu_user s q v)"

lemma first_page:
  assumes "user_mapped s p uva (unat len)" and "len \<noteq> 0"
  obtains pa where "mmu_user s p uva = Some pa"
proof -
  have "0 < unat len" using assms(2) by (simp add: word_neq_0_conv word_less_nat_alt)
  then have "mmu_user s p (uva + 0) \<noteq> None" using assms(1) unfolding user_mapped_def by (metis unsigned_0)
  then show thesis using that by auto
qed

lemma user_write_nothing: "vm_ok s \<Longrightarrow> user_write s p uva f 0 (phys_mem s)"
  by (simp add: user_write_def written_def)

lemma pt_copyout_loop_run:
  assumes "vm_ok s" and p: "p < NUM_IDS" and "user_mapped s p uva (unat len)"
    and "unat kva + unat len \<le> 0x40000000"
  shows "\<exists>m. pt_copyout_loop kva p uva len tot s = Inr (tot + len, s\<lparr>phys_mem := m\<rparr>) \<and>
     user_write s p uva (\<lambda>i. phys_mem s (kva + i)) len m"
  using assms(1,3,4)
proof (induction "unat len" arbitrary: kva uva len tot s rule: less_induct)
  case less
  note ok = less.prems(1) and map = less.prems(2) and kva = less.prems(3)
  show ?case
  proof (cases "len = 0")
    case True
    then show ?thesis
      using user_write_nothing [OF ok] by (auto simp: pt_copyout_loop.simps intro!: exI [of _ "phys_mem s"])
  next
    case False
    from first_page [OF map False] obtain pa where acc: "mmu_user s p uva = Some pa" .
    define n where "n = chunk pa len"
    define m1 where "m1 = memcpy pa kva n (phys_mem s)"
    have le: "n \<le> len" "unat n \<le> unat len" using chunk_le [of pa len] by (simp_all add: n_def word_le_nat_alt)
    have sub: "unat (len - n) = unat len - unat n" using le(1) by (simp add: unat_sub)
    have lt: "unat (len - n) < unat len" using chunk_decreases [OF False] by (simp add: n_def)
    have lp: "unat pa + unat n \<le> 4294967296" using user_round(5) [OF ok p acc n_def _ map, of "phys_mem s"] by simp
    have m1: "m1 = copied pa kva (unat n) (phys_mem s)"
      using memmove_copied [OF lp, of kva] kva le by (simp add: m1_def memcpy_def)
    have out: "m1 a = phys_mem s a" if "\<not> in_range pa (unat n) a" for a using that by (simp add: m1 copied_def)
    have round: "vm_ok (s\<lparr>phys_mem := m1\<rparr>)" "\<And>q v. q < NUM_IDS \<Longrightarrow> mmu_user (s\<lparr>phys_mem := m1\<rparr>) q v = mmu_user s q v"
      "user_mapped (s\<lparr>phys_mem := m1\<rparr>) p (uva + n) (unat (len - n))" "unat n \<le> 4096 - unat uva mod 4096"
      using user_round [OF ok p acc n_def _ map, of m1] out by blast+
    have k: "unat (kva + n) = unat kva + unat n" using kva le by (simp add: unat_word_ariths)
    have kk: "unat (kva + n) + unat (len - n) \<le> 0x40000000" unfolding k sub using kva le(2) by simp
    have kern: "m1 (kva + i) = phys_mem s (kva + i)" if "unat i < unat len" for i
    proof -
      have "unat (kva + i) < 0x40000000" using that kva by (simp add: unat_word_ariths)
      then show ?thesis using mmu_user_page(3) [OF ok p acc] out by (simp add: in_range_def)
    qed
    have "\<exists>m. pt_copyout_loop (kva + n) p (uva + n) (len - n) (tot + n) (s\<lparr>phys_mem := m1\<rparr>) =
        Inr (tot + n + (len - n), (s\<lparr>phys_mem := m1\<rparr>)\<lparr>phys_mem := m\<rparr>) \<and>
        user_write (s\<lparr>phys_mem := m1\<rparr>) p (uva + n) (\<lambda>i. phys_mem (s\<lparr>phys_mem := m1\<rparr>) (kva + n + i)) (len - n) m"
      by (rule less.hyps [OF lt round(1,3) kk])
    then obtain m where run: "pt_copyout_loop (kva + n) p (uva + n) (len - n) (tot + n) (s\<lparr>phys_mem := m1\<rparr>) =
        Inr (tot + len, s\<lparr>phys_mem := m\<rparr>)"
      and w: "user_write (s\<lparr>phys_mem := m1\<rparr>) p (uva + n) (\<lambda>i. m1 (kva + n + i)) (len - n) m"
      by auto
    have "written (s\<lparr>phys_mem := m1\<rparr>) p (uva + n) (\<lambda>j. phys_mem s (kva + (n + j))) (unat (len - n)) m"
      unfolding written_def
    proof (intro conjI allI impI)
      fix j :: u32 and pa'
      assume j: "unat j < unat (len - n)" "mmu_user (s\<lparr>phys_mem := m1\<rparr>) p (uva + n + j) = Some pa'"
      then have "unat (n + j) < unat len"
        using sub le unat_u32_less [of len] by (simp add: unat_word_ariths)
      then show "m pa' = phys_mem s (kva + (n + j))"
        using w j kern [of "n + j"] by (simp add: user_write_def written_def add.assoc)
    qed (use w in \<open>simp add: user_write_def written_def\<close>)
    moreover have "m1 (pa + i) = phys_mem s (kva + i)" if "unat i < unat n" for i
    proof -
      have "unat (pa + i) = unat pa + unat i" using that lp by (simp add: unat_word_ariths)
      then show ?thesis using that by (simp add: m1 copied_def in_range_def)
    qed
    ultimately have "written s p uva (\<lambda>i. phys_mem s (kva + i)) (unat len) m"
      using out round(2) [OF p] by (intro written_step [OF ok p acc round(4) le(1)])
    moreover have "mmu_user (s\<lparr>phys_mem := m\<rparr>) q v = mmu_user s q v" if "q < NUM_IDS" for q v
      using w round(2) [OF that, of v] that by (simp add: user_write_def)
    ultimately have "user_write s p uva (\<lambda>i. phys_mem s (kva + i)) len m"
      using w by (simp add: user_write_def)
    moreover have "pt_copyout_loop kva p uva len tot s = Inr (tot + len, s\<lparr>phys_mem := m\<rparr>)"
      using False run pt_translate_mapped [OF p acc]
      by (simp add: pt_copyout_loop.simps [of kva p uva len tot s] kbind_Inr Let_def n_def m1_def)
    ultimately show ?thesis by blast
  qed
qed

section \<open>Writing into a kernel buffer\<close>

text \<open>A kernel buffer: below the user range and apart from the identity table.\<close>

definition kbuf_ok :: "'a mpt_scheme \<Rightarrow> u32 \<Rightarrow> nat \<Rightarrow> bool" where
  "kbuf_ok s kva n \<longleftrightarrow> unat kva + n \<le> 0x40000000 \<and>
     (unat kva + n \<le> unat (IDPTbl_addr s) \<or> unat (IDPTbl_addr s) + 0x400000 \<le> unat kva)"

lemma load32_same_page:
  assumes "\<And>a. a div 4096 = pg \<Longrightarrow> m' a = m a" and "page_no pg" and "j < 1024"
  shows "load32 m' (entry_at pg j) = load32 m (entry_at pg j)"
proof -
  have "m' (entry_at pg j + of_nat k) = m (entry_at pg j + of_nat k)" if "k < 4" for k
    using assms(1) entry_bytes_page [OF assms(2,3) that] by blast
  from this [of 0] this [of 1] this [of 2] this [of 3] show ?thesis by (simp add: load32_def)
qed

lemma vm_inv_same_tables:
  assumes inv: "vm_inv A pd m b"
    and tab: "\<And>p d j. user_dir p d \<Longrightarrow> pd p d \<noteq> 0 \<Longrightarrow> j < 1024 \<Longrightarrow>
        load32 m' (entry_at (pd p d div 4096) j) = load32 m (entry_at (pd p d div 4096) j)"
    and ids: "\<And>d j. d < 1024 \<Longrightarrow> j < 1024 \<Longrightarrow>
        load32 m' (entry_at (b div 4096 + d) j) = load32 m (entry_at (b div 4096 + d) j)"
  shows "vm_inv A pd m' b"
proof -
  have live: "live pd m' = live pd m"
  proof
    show "live pd m' x = live pd m x" for x by (cases x) (auto simp: tab)
  qed
  have "entry_of pd m' x = entry_of pd m x" if "live pd m x" for x
    using that by (cases x) (auto simp: tab)
  then have pg: "page_at pd m' x = page_at pd m x" if "live pd m x" for x
    using that by (simp add: page_at_def)
  have "inj_on (page_at pd m') {x. live pd m x} \<longleftrightarrow> inj_on (page_at pd m) {x. live pd m x}"
    by (rule inj_on_cong) (simp add: pg)
  then show ?thesis
    using inv ids unfolding vm_inv_def live by (auto simp: pg)
qed

lemma kernel_write:
  assumes ok: "vm_ok s" and k: "kbuf_ok s kva n" and out: "\<And>a. \<not> in_range kva n a \<Longrightarrow> m' a = phys_mem s a"
  shows "vm_ok (s\<lparr>phys_mem := m'\<rparr>)" and "q < NUM_IDS \<Longrightarrow> mmu_user (s\<lparr>phys_mem := m'\<rparr>) q vb = mmu_user s q vb"
proof -
  let ?b = "IDPTbl_addr s"
  have inv: "vm_inv (owned_pages s) (PDirPool s) (phys_mem s) ?b"
    using ok by (simp add: vm_ok_def)
  have user: "m' a = phys_mem s a" if "0x40000 \<le> unat a div 4096" for a
  proof -
    have "0x40000000 \<le> unat a" using that by linarith
    then show ?thesis using k out [of a] by (simp add: kbuf_ok_def in_range_def)
  qed
  have tab: "load32 m' (entry_at (PDirPool s p d div 4096) j) = load32 (phys_mem s) (entry_at (PDirPool s p d div 4096) j)"
    if "user_dir p d" "PDirPool s p d \<noteq> 0" "j < 1024" for p d j
  proof (rule load32_same_page [OF _ page_no_div that(3)])
    fix a :: u32
    assume a: "a div 4096 = PDirPool s p d div 4096"
    have "PDirPool s p d div 4096 \<in> owned_pages s"
      using vm_invD(2) [OF inv, of "Dir p d"] that by (simp add: page_at_def)
    then have "VM_USERLO_PI \<le> a div 4096" using vm_invD(1) [OF inv] a by simp
    then show "m' a = phys_mem s a" by (intro user) (simp add: word_le_nat_alt unat_div)
  qed
  have bb: "unat ?b mod 4096 = 0" "unat ?b \<le> 0x3fc00000"
    using inv by (simp_all add: vm_inv_def word_unat_eq_iff unat_mod word_le_nat_alt)
  have ids: "load32 m' (entry_at (?b div 4096 + d) j) = load32 (phys_mem s) (entry_at (?b div 4096 + d) j)"
    if "d < 1024" "j < 1024" for d j
  proof (rule load32_same_page [OF _ id_page(1) [OF inv that(1)] that(2)])
    fix a :: u32
    assume a: "a div 4096 = ?b div 4096 + d"
    have "unat d < 1024" using that(1) by (simp add: word_less_nat_alt)
    then have "unat a div 4096 = unat ?b div 4096 + unat d"
      using arg_cong [OF a, of unat] bb(2) by (simp add: unat_div unat_word_ariths)
    moreover have "unat ?b = 4096 * (unat ?b div 4096)" using bb(1) by auto
    moreover have "4096 * (unat a div 4096) \<le> unat a" "unat a < 4096 * (unat a div 4096) + 4096" by simp_all
    ultimately have "unat ?b \<le> unat a" "unat a < unat ?b + 0x400000"
      using \<open>unat d < 1024\<close> by linarith+
    then show "m' a = phys_mem s a" using k by (intro out) (auto simp: kbuf_ok_def in_range_def)
  qed
  have inv': "vm_inv (owned_pages s) (PDirPool s) m' ?b"
    by (rule vm_inv_same_tables [OF inv tab ids])
  then show "vm_ok (s\<lparr>phys_mem := m'\<rparr>)"
    using ok by (simp add: vm_ok_def mat_ok_def perms_ok_def owned_pages_def)
  assume q: "q < NUM_IDS"
  show "mmu_user (s\<lparr>phys_mem := m'\<rparr>) q vb = mmu_user s q vb"
  proof (cases "user_dir q (pde_of vb) \<and> PDirPool s q (pde_of vb) \<noteq> 0")
    case True
    then show ?thesis using tab [OF _ _ pte_of_less] by (simp add: mmu_user_def Let_def ptbl_addr_entry)
  next
    case False
    have "mmu_user t q vb = None" if "vm_inv A (PDirPool t) (phys_mem t) (IDPTbl_addr t)"
      "PDirPool t = PDirPool s" for t :: "'a mpt_scheme" and A
      using mmu_user_leaf(1) [OF that(1) q] that(2) False by (cases "mmu_user t q vb") auto
    then show ?thesis using inv inv' by simp
  qed
qed

definition copied_in :: "'a mpt_scheme \<Rightarrow> u32 \<Rightarrow> u32 \<Rightarrow> u32 \<Rightarrow> u32 \<Rightarrow> memory \<Rightarrow> bool" where
  "copied_in s p uva kva len m \<longleftrightarrow>
     (\<forall>i pa. unat i < unat len \<longrightarrow> mmu_user s p (uva + i) = Some pa \<longrightarrow> m (kva + i) = phys_mem s pa) \<and>
     (\<forall>a. \<not> in_range kva (unat len) a \<longrightarrow> m a = phys_mem s a)"

lemma copied_in_step:
  assumes ok: "vm_ok s" and p: "p < NUM_IDS" and acc: "mmu_user s p uva = Some pa"
    and n: "unat n \<le> 4096 - unat uva mod 4096" and nl: "n \<le> len" and k: "kbuf_ok s kva (unat len)"
    and m1: "m1 = copied kva pa (unat n) (phys_mem s)"
    and same: "\<And>v. mmu_user (s\<lparr>phys_mem := m1\<rparr>) p v = mmu_user s p v"
    and rest: "copied_in (s\<lparr>phys_mem := m1\<rparr>) p (uva + n) (kva + n) (len - n) m"
  shows "copied_in s p uva kva len m"
proof -
  have len: "unat (len - n) = unat len - unat n" "unat n \<le> unat len"
    using nl by (simp_all add: unat_sub word_le_nat_alt)
  have kk: "unat (kva + i) = unat kva + unat i" if "unat i \<le> unat len" for i
    using that k by (simp add: kbuf_ok_def unat_word_ariths)
  have rest': "m (kva + n + j) = m1 pa'" if "unat j < unat len - unat n" "mmu_user s p (uva + n + j) = Some pa'" for j pa'
    using rest that by (simp add: copied_in_def len same)
  have frame': "m a = m1 a" if "\<not> in_range (kva + n) (unat len - unat n) a" for a
    using rest that by (simp add: copied_in_def len)
  have "m (kva + i) = phys_mem s pa'" if i: "unat i < unat len" "mmu_user s p (uva + i) = Some pa'" for i pa'
  proof (cases "unat i < unat n")
    case True
    then have "pa' = pa + i" using mmu_user_next [OF acc, of i] i(2) n by simp
    moreover have "m (kva + i) = m1 (kva + i)"
      using True kk [of i] kk [of n] i(1) len(2) by (intro frame') (simp add: in_range_def)
    ultimately show ?thesis
      using True kk [of i] i(1) by (simp add: m1 copied_def in_range_def)
  next
    case False
    then have j: "unat (i - n) = unat i - unat n" by (simp add: unat_sub word_le_nat_alt)
    have "0x40000000 \<le> unat pa'" using mmu_user_page(3) [OF ok p i(2)] .
    then have "m1 pa' = phys_mem s pa'"
      using k len(2) by (simp add: m1 copied_def in_range_def kbuf_ok_def)
    then show ?thesis using rest' [of "i - n" pa'] i False j by (simp add: less_diff_iff)
  qed
  moreover have "m a = phys_mem s a" if a: "\<not> in_range kva (unat len) a" for a
  proof -
    have "m a = m1 a" using a kk [of n] len(2) by (intro frame') (auto simp: in_range_def)
    then show ?thesis using a len(2) by (auto simp: m1 copied_def in_range_def)
  qed
  ultimately show ?thesis by (simp add: copied_in_def)
qed

lemma pt_copyin_loop_run:
  assumes "vm_ok s" and p: "p < NUM_IDS" and "user_mapped s p uva (unat len)" and "kbuf_ok s kva (unat len)"
  shows "\<exists>m. pt_copyin_loop p uva kva len tot s = Inr (tot + len, s\<lparr>phys_mem := m\<rparr>) \<and> copied_in s p uva kva len m"
  using assms(1,3,4)
proof (induction "unat len" arbitrary: kva uva len tot s rule: less_induct)
  case less
  note ok = less.prems(1) and map = less.prems(2) and kva = less.prems(3)
  show ?case
  proof (cases "len = 0")
    case True
    then show ?thesis
      by (auto simp: pt_copyin_loop.simps copied_in_def intro!: exI [of _ "phys_mem s"])
  next
    case False
    from first_page [OF map False] obtain pa where acc: "mmu_user s p uva = Some pa" .
    define n where "n = chunk pa len"
    define m1 where "m1 = memcpy kva pa n (phys_mem s)"
    have le: "n \<le> len" "unat n \<le> unat len" using chunk_le [of pa len] by (simp_all add: n_def word_le_nat_alt)
    have sub: "unat (len - n) = unat len - unat n" using le(1) by (simp add: unat_sub)
    have lt: "unat (len - n) < unat len" using chunk_decreases [OF False] by (simp add: n_def)
    note round = user_round [OF ok p acc n_def _ map, of "phys_mem s", simplified]
    have m1: "m1 = copied kva pa (unat n) (phys_mem s)"
      using memmove_copied [of kva n pa] round(5) kva le by (simp add: m1_def memcpy_def kbuf_ok_def)
    have kn: "kbuf_ok s kva (unat n)" using kva le by (auto simp: kbuf_ok_def)
    have out: "m1 a = phys_mem s a" if "\<not> in_range kva (unat n) a" for a using that by (simp add: m1 copied_def)
    have w: "vm_ok (s\<lparr>phys_mem := m1\<rparr>)" "\<And>v. mmu_user (s\<lparr>phys_mem := m1\<rparr>) p v = mmu_user s p v"
      using kernel_write [OF ok kn out] p by blast+
    have map': "user_mapped (s\<lparr>phys_mem := m1\<rparr>) p (uva + n) (unat (len - n))"
      using round(3) w(2) by (simp add: user_mapped_def)
    have "unat (kva + n) = unat kva + unat n" using kva le by (simp add: kbuf_ok_def unat_word_ariths)
    then have kva': "kbuf_ok (s\<lparr>phys_mem := m1\<rparr>) (kva + n) (unat (len - n))"
      unfolding kbuf_ok_def sub using kva le(2) by (auto simp: kbuf_ok_def)
    obtain m where run: "pt_copyin_loop p (uva + n) (kva + n) (len - n) (tot + n) (s\<lparr>phys_mem := m1\<rparr>) =
        Inr (tot + len, s\<lparr>phys_mem := m\<rparr>)"
      and rest: "copied_in (s\<lparr>phys_mem := m1\<rparr>) p (uva + n) (kva + n) (len - n) m"
      using less.hyps [OF lt w(1) map' kva', of "tot + n"] by auto
    have "copied_in s p uva kva len m"
      by (rule copied_in_step [OF ok p acc round(4) le(1) kva m1 w(2) rest])
    moreover have "pt_copyin_loop p uva kva len tot s = Inr (tot + len, s\<lparr>phys_mem := m\<rparr>)"
      using False run pt_translate_mapped [OF p acc]
      by (simp add: pt_copyin_loop.simps [of p uva kva len tot s] kbind_Inr Let_def n_def m1_def)
    ultimately show ?thesis by blast
  qed
qed

lemma pt_memset_run:
  assumes "vm_ok s" and p: "p < NUM_IDS" and "user_mapped s p uva (unat len)"
  shows "\<exists>m. pt_memset p uva c len tot s = Inr (tot + len, s\<lparr>phys_mem := m\<rparr>) \<and>
     user_write s p uva (\<lambda>_. ucast c) len m"
  using assms(1,3)
proof (induction "unat len" arbitrary: uva len tot s rule: less_induct)
  case less
  note ok = less.prems(1) and map = less.prems(2)
  show ?case
  proof (cases "len = 0")
    case True
    then show ?thesis
      using user_write_nothing [OF ok] by (auto simp: pt_memset.simps intro!: exI [of _ "phys_mem s"])
  next
    case False
    from first_page [OF map False] obtain pa where acc: "mmu_user s p uva = Some pa" .
    define n where "n = chunk pa len"
    define m1 where "m1 = memset pa c n (phys_mem s)"
    have le: "n \<le> len" using chunk_le [of pa len] by (simp add: n_def)
    have lt: "unat (len - n) < unat len" using chunk_decreases [OF False] by (simp add: n_def)
    have lp: "unat pa + unat n \<le> 4294967296" using user_round(5) [OF ok p acc n_def _ map, of "phys_mem s"] by simp
    have m1: "m1 = filled pa (ucast c) (unat n) (phys_mem s)"
      using memset_filled [OF lp] by (simp add: m1_def)
    have out: "m1 a = phys_mem s a" if "\<not> in_range pa (unat n) a" for a using that by (simp add: m1 filled_def)
    have round: "vm_ok (s\<lparr>phys_mem := m1\<rparr>)" "\<And>q v. q < NUM_IDS \<Longrightarrow> mmu_user (s\<lparr>phys_mem := m1\<rparr>) q v = mmu_user s q v"
      "user_mapped (s\<lparr>phys_mem := m1\<rparr>) p (uva + n) (unat (len - n))" "unat n \<le> 4096 - unat uva mod 4096"
      using user_round [OF ok p acc n_def _ map, of m1] out by blast+
    obtain m where run: "pt_memset p (uva + n) c (len - n) (tot + n) (s\<lparr>phys_mem := m1\<rparr>) = Inr (tot + len, s\<lparr>phys_mem := m\<rparr>)"
      and w: "user_write (s\<lparr>phys_mem := m1\<rparr>) p (uva + n) (\<lambda>_. ucast c) (len - n) m"
      using less.hyps [OF lt round(1,3), of "tot + n"] by auto
    have "written (s\<lparr>phys_mem := m1\<rparr>) p (uva + n) (\<lambda>_. ucast c) (unat (len - n)) m"
      using w by (simp add: user_write_def)
    moreover have "m1 (pa + i) = ucast c" if "unat i < unat n" for i
    proof -
      have "unat (pa + i) = unat pa + unat i" using that lp by (simp add: unat_word_ariths)
      then show ?thesis using that by (simp add: m1 filled_def in_range_def)
    qed
    ultimately have "written s p uva (\<lambda>_. ucast c) (unat len) m"
      using out round(2) [OF p] by (intro written_step [OF ok p acc round(4) le])
    moreover have "mmu_user (s\<lparr>phys_mem := m\<rparr>) q v = mmu_user s q v" if "q < NUM_IDS" for q v
      using w round(2) [OF that, of v] that by (simp add: user_write_def)
    ultimately have "user_write s p uva (\<lambda>_. ucast c) len m"
      using w by (simp add: user_write_def)
    moreover have "pt_memset p uva c len tot s = Inr (tot + len, s\<lparr>phys_mem := m\<rparr>)"
      using False run pt_translate_mapped [OF p acc]
      by (simp add: pt_memset.simps [of p uva c len tot s] kbind_Inr Let_def n_def m1_def)
    ultimately show ?thesis by blast
  qed
qed

text \<open>No page: the entry stays 0, and the copy goes to the first physical page.\<close>

lemma pt_translate_no_room:
  assumes "p < NUM_IDS" and "PDirPool s p (pde_of va) = 0" and "usage (CONTAINER s p) = quota (CONTAINER s p)"
    and "lock_free (pt_lk s)" and "ks_magic s = KSTACK_MAGIC"
  shows "pt_translate p va s = Inr (va mod 4096, s)"
proof -
  have "kwp (pt_translate p va) (\<lambda>r t. r = va mod 4096 \<and> t = s) s"
    using assms pde_of_less [of va]
    by (simp add: pt_translate_def get_ptbl_entry_by_va_def alloc_page_def container_alloc_def wp)
  then show ?thesis by (auto elim: kwpE)
qed

section \<open>Properties\<close>



text \<open>
  C37: \<^verbatim>\<open>pt_copyout\<close> ignores a failed \<^verbatim>\<open>alloc_page\<close>. For a process that has used up its quota and
  has no page table for the address, a copy that fits in one page reports success and has
  overwritten physical memory from \<open>uva mod 4096\<close> on, in the first page of the machine.
\<close>

theorem pt_copyout_no_room:
  assumes "p < NUM_IDS" and "PDirPool s p (pde_of uva) = 0" and "usage (CONTAINER s p) = quota (CONTAINER s p)"
    and "lock_free (pt_lk s)" and "ks_magic s = KSTACK_MAGIC"
    and "VM_USERLO \<le> uva" and "uva + len \<le> VM_USERHI" and "len \<le> PAGESIZE - uva mod PAGESIZE"
    and "unat kva + unat len \<le> 0x40000000"
  shows "pt_copyout kva p uva len s =
     Inr (len, s\<lparr>phys_mem := copied (uva mod PAGESIZE) kva (unat len) (phys_mem s)\<rparr>)"
proof (cases "len = 0")
  case True
  moreover have "copied d k 0 m = m" for d k m by (simp add: copied_def)
  moreover have "\<not> kva + len > VM_USERHI"
    using assms(9) by (simp add: word_less_nat_alt unat_word_ariths)
  ultimately show ?thesis using assms by (simp add: pt_copyout_def pt_copyout_loop.simps)
next
  case False
  have md: "uva mod 4096 mod 4096 = uva mod 4096" by (simp add: word_unat_eq_iff unat_mod)
  have c: "chunk (uva mod 4096) len = len"
    using assms(8) by (auto simp: chunk_def md)
  have le: "unat len \<le> 4096 - unat uva mod 4096"
    using assms(8) unat_page_rest [of uva] by (simp add: word_le_nat_alt)
  have "memcpy (uva mod 4096) kva len (phys_mem s) = copied (uva mod 4096) kva (unat len) (phys_mem s)"
    unfolding memcpy_def using le assms(9) by (intro memmove_copied) (simp_all add: unat_mod)
  moreover have "\<not> kva + len > VM_USERHI"
    using assms(9) by (simp add: word_less_nat_alt unat_word_ariths)
  ultimately show ?thesis
    using assms(6,7) False pt_translate_no_room [OF assms(1-5)]
    by (simp add: pt_copyout_def pt_copyout_loop.simps kbind_Inr Let_def c)
qed

section \<open>Witnesses\<close>

lemma demo_mapped: "user_mapped vm_demo 1 0x40000010 4"
  unfolding user_mapped_def
proof (intro allI impI)
  fix i :: u32
  assume "unat i < 4"
  then show "mmu_user vm_demo 1 (0x40000010 + i) \<noteq> None"
    using mmu_user_next [OF vm_demo_walk(1), of i] by simp
qed



theorem pt_copyout_no_room_witness:
  "pt_copyout 0x600000 3 0x40000010 4 vm_demo =
     Inr (4, vm_demo\<lparr>phys_mem := copied (0x40000010 mod PAGESIZE) 0x600000 (unat (4 :: u32)) (phys_mem vm_demo)\<rparr>)"
  by (rule pt_copyout_no_room)
     (simp_all add: vm_demo_def demo_dirs_def Let_def kern_dirs_def init_dir_def pde_of_def demo_defs)

end
