(* ===== verification/Strings.thy ===== *)
theory Strings
  imports Memory
begin

text \<open>
  The string routines of the kernel (kern/lib/string.c) and of the user library
  (user/lib/string.c, user/lib/atoi.c).

  A \<^verbatim>\<open>char *\<close> argument is the list of bytes from the pointer to the end of the object it
  points into; a routine that would read past that end returns \<open>None\<close>. A pointer result into
  the argument is the list from there on. A routine that fills a destination returns the bytes
  it writes there.
\<close>

section \<open>Comparison and search\<close>

fun strncmp :: "u8 list \<Rightarrow> u8 list \<Rightarrow> nat \<Rightarrow> int option" where
  "strncmp p q 0 = Some 0"
| "strncmp (a # p) (b # q) (Suc n) =
     (if a \<noteq> 0 \<and> a = b then strncmp p q n else Some (uint a - uint b))"
| "strncmp _ _ (Suc n) = None"

fun strcmp :: "u8 list \<Rightarrow> u8 list \<Rightarrow> int option" where
  "strcmp (a # p) (b # q) = (if a \<noteq> 0 \<and> a = b then strcmp p q else Some (uint a - uint b))"
| "strcmp _ _ = None"

fun strnlen :: "u8 list \<Rightarrow> nat \<Rightarrow> nat option" where
  "strnlen s 0 = Some 0"
| "strnlen [] (Suc n) = None"
| "strnlen (c # s) (Suc n) = (if c \<noteq> 0 then map_option Suc (strnlen s n) else Some 0)"

fun strlen :: "u8 list \<Rightarrow> nat option" where
  "strlen [] = None"
| "strlen (c # s) = (if c \<noteq> 0 then map_option Suc (strlen s) else Some 0)"

text \<open>\<open>Some None\<close> is the null pointer.\<close>

fun strchr :: "u8 list \<Rightarrow> u8 \<Rightarrow> u8 list option option" where
  "strchr [] c = None"
| "strchr (x # s) c = (if x = 0 then Some None else if x = c then Some (Some (x # s)) else strchr s c)"

fun strfind :: "u8 list \<Rightarrow> u8 \<Rightarrow> u8 list option" where
  "strfind [] c = None"
| "strfind (x # s) c = (if x = 0 \<or> x = c then Some (x # s) else strfind s c)"

fun memchr :: "u8 list \<Rightarrow> u8 \<Rightarrow> nat \<Rightarrow> u8 list option option" where
  "memchr s c 0 = Some None"
| "memchr [] c (Suc n) = None"
| "memchr (x # s) c (Suc n) = (if x = c then Some (Some (x # s)) else memchr s c n)"

section \<open>Copying\<close>

text \<open>The kernel's \<^verbatim>\<open>strncpy\<close>: copy up to the terminator, then a second loop of zeroes.\<close>

fun strncpy :: "u8 list \<Rightarrow> nat \<Rightarrow> u8 list option" where
  "strncpy t 0 = Some []"
| "strncpy [] (Suc n) = None"
| "strncpy (c # t) (Suc n) = (if c \<noteq> 0 then map_option ((#) c) (strncpy t n) else Some (0 # replicate n 0))"

text \<open>The user library's: one loop, whose source pointer stops at the terminator.\<close>

fun user_strncpy :: "u8 list \<Rightarrow> nat \<Rightarrow> u8 list option" where
  "user_strncpy src 0 = Some []"
| "user_strncpy [] (Suc n) = None"
| "user_strncpy (c # t) (Suc n) = map_option ((#) c) (user_strncpy (if c \<noteq> 0 then t else c # t) n)"

fun strcpy :: "u8 list \<Rightarrow> u8 list option" where
  "strcpy [] = None"
| "strcpy (c # src) = (if c \<noteq> 0 then map_option ((#) c) (strcpy src) else Some [c])"

text \<open>\<open>strlcpy_loop src n\<close>: the loop with \<open>n\<close> the value of \<^verbatim>\<open>--size\<close>.\<close>

fun strlcpy_loop :: "u8 list \<Rightarrow> nat \<Rightarrow> u8 list option" where
  "strlcpy_loop src 0 = Some [0]"
| "strlcpy_loop [] (Suc n) = None"
| "strlcpy_loop (c # src) (Suc n) = (if c \<noteq> 0 then map_option ((#) c) (strlcpy_loop src n) else Some [0])"

definition strlcpy :: "u8 list \<Rightarrow> nat \<Rightarrow> (nat \<times> u8 list) option" where
  "strlcpy src n = (if n = 0 then Some (0, []) else map_option (\<lambda>w. (length w - 1, w)) (strlcpy_loop src (n - 1)))"

section \<open>Numbers\<close>

fun skip_blanks :: "u8 list \<Rightarrow> u8 list" where
  "skip_blanks (c # s) = (if c = 0x20 \<or> c = 9 then skip_blanks s else c # s)"
| "skip_blanks [] = []"

definition digit_val :: "u8 \<Rightarrow> u32 option" where
  "digit_val c =
     (if 0x30 \<le> c \<and> c \<le> 0x39 then Some (ucast (c - 0x30))
      else if 0x61 \<le> c \<and> c \<le> 0x7a then Some (ucast (c - 0x61) + 10)
      else if 0x41 \<le> c \<and> c \<le> 0x5a then Some (ucast (c - 0x41) + 10)
      else None)"

text \<open>The digit loop: 32-bit arithmetic that wraps, as the comment in the source says.\<close>

fun strtol_digits :: "u32 \<Rightarrow> u8 list \<Rightarrow> u32 \<Rightarrow> (u32 \<times> u8 list) option" where
  "strtol_digits base [] val = None"
| "strtol_digits base (c # s) val =
     (case digit_val c of
        None \<Rightarrow> Some (val, c # s)
      | Some dig \<Rightarrow> if base \<le>s dig then Some (val, c # s) else strtol_digits base s (val * base + dig))"

definition strtol_sign :: "u8 list \<Rightarrow> (bool \<times> u8 list) option" where
  "strtol_sign s = (case s of [] \<Rightarrow> None
     | c # t \<Rightarrow> Some (if c = 0x2b then (False, t) else if c = 0x2d then (True, t) else (False, s)))"

text \<open>\<^verbatim>\<open>s[1]\<close> is read only when \<^verbatim>\<open>s[0]\<close> is a zero digit.\<close>

definition strtol_base :: "u8 list \<Rightarrow> u32 \<Rightarrow> (u8 list \<times> u32) option" where
  "strtol_base s base = (case s of [] \<Rightarrow> None
     | c # t \<Rightarrow>
       if (base = 0 \<or> base = 16) \<and> c = 0x30 then
         (case t of [] \<Rightarrow> None
          | x # u \<Rightarrow> Some (if x = 0x78 then (u, 16) else if base = 0 then (t, 8) else (s, base)))
       else Some (s, if base = 0 then 10 else base))"

definition strtol :: "u8 list \<Rightarrow> u32 \<Rightarrow> (u32 \<times> u8 list) option" where
  "strtol s base =
     Option.bind (strtol_sign (skip_blanks s)) (\<lambda>(neg, s1).
     Option.bind (strtol_base s1 base) (\<lambda>(s2, base).
     map_option (\<lambda>(val, e). (if neg then - val else val, e)) (strtol_digits base s2 0)))"

text \<open>\<^verbatim>\<open>atoi\<close> returns the number of characters it consumed and stores the value; \<open>Some (0, None)\<close> stores nothing.\<close>

fun atoi_digits :: "u8 list \<Rightarrow> u32 \<Rightarrow> nat \<Rightarrow> (u32 \<times> nat) option" where
  "atoi_digits [] acc loc = None"
| "atoi_digits (c # s) acc loc =
     (if 0x30 \<le> c \<and> c \<le> 0x39 then atoi_digits s (acc * 10 + ucast (c - 0x30)) (Suc loc) else Some (acc, loc))"

definition atoi :: "u8 list \<Rightarrow> (nat \<times> u32 option) option" where
  "atoi buf = (case buf of [] \<Rightarrow> None
     | c # t \<Rightarrow>
       let sign = c = 0x2b \<or> c = 0x2d; start = (if sign then 1 else 0) in
       Option.bind (atoi_digits (if sign then t else buf) 0 start) (\<lambda>(acc, loc).
         if start = loc then Some (0, None)
         else Some (loc, Some (if c = 0x2d then - acc else acc))))"

text \<open>The user library has its own copy of these, word for word.\<close>

definition user_strncmp :: "u8 list \<Rightarrow> u8 list \<Rightarrow> nat \<Rightarrow> int option" where
  "user_strncmp = strncmp"

definition user_strcmp :: "u8 list \<Rightarrow> u8 list \<Rightarrow> int option" where
  "user_strcmp = strcmp"

definition user_strnlen :: "u8 list \<Rightarrow> nat \<Rightarrow> nat option" where
  "user_strnlen = strnlen"

definition user_strchr :: "u8 list \<Rightarrow> u8 \<Rightarrow> u8 list option option" where
  "user_strchr = strchr"

section \<open>Terminated strings\<close>

text \<open>The bytes before the terminator, and an array that holds one.\<close>

definition cstr :: "u8 list \<Rightarrow> u8 list" where
  "cstr s = takeWhile (\<lambda>c. c \<noteq> 0) s"

lemma cstr_simps [simp]: "cstr [] = []" "cstr (c # s) = (if c = 0 then [] else c # cstr s)"
  by (auto simp: cstr_def)

lemma cstr_nonzero: "0 \<notin> set (cstr s)"
  by (induction s) auto

lemma cstr_append: "0 \<notin> set xs \<Longrightarrow> cstr (xs @ 0 # ys) = xs"
  by (induction xs) auto

lemma strlen_cstr: "0 \<in> set s \<Longrightarrow> strlen s = Some (length (cstr s))"
  by (induction s) auto

lemma strnlen_cstr: "0 \<in> set s \<or> n \<le> length s \<Longrightarrow> strnlen s n = Some (min n (length (cstr s)))"
  by (induction s n rule: strnlen.induct) auto

text \<open>\<^verbatim>\<open>strncmp\<close> decides equality of the strings cut to \<open>n\<close> bytes.\<close>

lemma strncmp_eq:
  assumes "0 \<in> set p \<or> n \<le> length p" and "0 \<in> set q \<or> n \<le> length q"
  shows "\<exists>r. strncmp p q n = Some r \<and> (r = 0 \<longleftrightarrow> take n (cstr p) = take n (cstr q))"
  using assms
proof (induction p q n rule: strncmp.induct)
  case (2 a p b q n)
  have u: "uint a = uint b \<longleftrightarrow> a = b" by (simp add: word_uint_eq_iff)
  show ?case
  proof (cases "a \<noteq> 0 \<and> a = b")
    case True
    then show ?thesis using 2 by auto
  next
    case False
    then show ?thesis using u by auto
  qed
qed auto

lemma strcmp_eq:
  assumes "0 \<in> set p" and "0 \<in> set q"
  shows "\<exists>r. strcmp p q = Some r \<and> (r = 0 \<longleftrightarrow> cstr p = cstr q)"
  using assms
proof (induction p q rule: strcmp.induct)
  case (1 a p b q)
  have u: "uint a = uint b \<longleftrightarrow> a = b" by (simp add: word_uint_eq_iff)
  show ?case
  proof (cases "a \<noteq> 0 \<and> a = b")
    case True
    then show ?thesis using 1 by auto
  next
    case False
    then show ?thesis using u by auto
  qed
qed auto

lemma strncpy_cstr:
  assumes "0 \<in> set t \<or> n \<le> length t"
  shows "strncpy t n = Some (take n (cstr t) @ replicate (n - length (cstr t)) 0)"
  using assms by (induction t n rule: strncpy.induct) auto

lemma user_strncpy_zero: "user_strncpy (0 # t) n = Some (replicate n 0)"
  by (induction n) auto

lemma user_strncpy_same: "user_strncpy t n = strncpy t n"
  by (induction t n rule: strncpy.induct) (auto simp: user_strncpy_zero)

lemma strlcpy_loop_cstr:
  assumes "0 \<in> set s \<or> n \<le> length s"
  shows "strlcpy_loop s n = Some (take n (cstr s) @ [0])"
  using assms by (induction s n rule: strlcpy_loop.induct) auto

end
