(* ===== verification/Printfmt.thy ===== *)
theory Printfmt
  imports Strings
begin

text \<open>
  Formatted output: the formatter shared by kernel and user programs (kern/lib/printfmt.c,
  user/lib/printfmt.c), the kernel's \<^verbatim>\<open>dprintf\<close> (kern/lib/dprintf.c) and the user library's
  \<^verbatim>\<open>printf\<close> (user/lib/printf.c).

  A formatter run is the list of characters it hands to \<^verbatim>\<open>putch\<close>, in order. The format is the list
  of bytes from the pointer on, terminator included; \<open>args\<close> are the 32-bit words of the argument
  list; \<open>mem p\<close> is the string at pointer \<open>p\<close>. \<open>None\<close> is a run that reads past the end of the
  format, of the argument words or of a string. Field widths and precisions are unbounded integers.
\<close>

section \<open>Numbers\<close>

definition digit_char :: "u64 \<Rightarrow> u8" where
  "digit_char d = (if d < 10 then 0x30 + ucast d else 0x57 + ucast d)"

definition pad :: "int \<Rightarrow> u8 \<Rightarrow> u8 list" where
  "pad n c = replicate (nat n) c"

text \<open>\<open>base\<close> is 8, 10 or 16 in every call; the recursion needs it to be greater than 1.\<close>

function printnum :: "u64 \<Rightarrow> u64 \<Rightarrow> int \<Rightarrow> u8 \<Rightarrow> u8 list" where
  "printnum num base width padc =
     (if num \<ge> base \<and> 1 < base then printnum (num div base) base (width - 1) padc
      else pad (width - 1) padc) @ [digit_char (num mod base)]"
  by pat_completeness auto
termination
proof (relation "measure (\<lambda>(num, _, _, _). unat num)")
  fix num base :: u64 and width padc
  assume "num \<ge> base \<and> 1 < base"
  then have "unat base \<le> unat num" "1 < unat base" by (auto simp: word_le_nat_alt word_less_nat_alt)
  then have "unat num div unat base < unat num" by (intro div_less_dividend) auto
  then show "((num div base, base, width - 1, padc), num, base, width, padc) \<in> measure (\<lambda>(num, _, _, _). unat num)"
    by (simp add: unat_div)
qed simp

declare printnum.simps [simp del]

definition getuint :: "u32 list \<Rightarrow> nat \<Rightarrow> (u64 \<times> u32 list) option" where
  "getuint ap lflag =
     (if lflag \<ge> 2 then (case ap of lo # hi # r \<Rightarrow> Some (ucast lo + push_bit 32 (ucast hi), r) | _ \<Rightarrow> None)
      else (case ap of w # r \<Rightarrow> Some (ucast w, r) | _ \<Rightarrow> None))"

definition getint :: "u32 list \<Rightarrow> nat \<Rightarrow> (u64 \<times> u32 list) option" where
  "getint ap lflag =
     (if lflag \<ge> 2 then (case ap of lo # hi # r \<Rightarrow> Some (ucast lo + push_bit 32 (ucast hi), r) | _ \<Rightarrow> None)
      else (case ap of w # r \<Rightarrow> Some (scast w, r) | _ \<Rightarrow> None))"

section \<open>The escape sequence\<close>

record fspec =
  padc :: u8
  fwidth :: int
  precision :: int
  lflag :: nat
  altflag :: bool

definition fspec0 :: fspec where
  "fspec0 = \<lparr>padc = 0x20, fwidth = -1, precision = -1, lflag = 0, altflag = False\<rparr>"

fun width_digits :: "u8 list \<Rightarrow> int \<Rightarrow> (int \<times> u8 list) option" where
  "width_digits [] n = None"
| "width_digits (c # t) n =
     (if c < 0x30 \<or> c > 0x39 then Some (n, c # t) else width_digits t (n * 10 + uint c - 0x30))"

definition process_precision :: "int \<Rightarrow> fspec \<Rightarrow> fspec" where
  "process_precision n f = (if fwidth f < 0 then f\<lparr>fwidth := n, precision := -1\<rparr> else f\<lparr>precision := n\<rparr>)"

lemma width_digits_shorter: "width_digits t n = Some (m, r) \<Longrightarrow> length r \<le> length t"
  by (induction t n rule: width_digits.induct) (auto split: if_splits)

text \<open>The flags, width, precision and length of one escape, up to the conversion character.\<close>

function escape :: "fspec \<Rightarrow> u8 list \<Rightarrow> u32 list \<Rightarrow> (fspec \<times> u8 \<times> u8 list \<times> u32 list) option" where
  "escape f [] ap = None"
| "escape f (c # t) ap =
     (if c = 0x2d then escape (f\<lparr>padc := 0x2d\<rparr>) t ap
      else if c = 0x30 then escape (f\<lparr>padc := 0x30\<rparr>) t ap
      else if 0x31 \<le> c \<and> c \<le> 0x39 then
        (case width_digits t (uint c - 0x30) of None \<Rightarrow> None
         | Some (n, r) \<Rightarrow> escape (process_precision n f) r ap)
      else if c = 0x2a then
        (case ap of [] \<Rightarrow> None | w # ap' \<Rightarrow> escape (process_precision (sint w) f) t ap')
      else if c = 0x2e then escape (if fwidth f < 0 then f\<lparr>fwidth := 0\<rparr> else f) t ap
      else if c = 0x23 then escape (f\<lparr>altflag := True\<rparr>) t ap
      else if c = 0x6c then escape (f\<lparr>lflag := lflag f + 1\<rparr>) t ap
      else Some (f, c, t, ap))"
  by pat_completeness auto
termination
  by (relation "measure (\<lambda>(_, t, _). length t)") (auto dest: width_digits_shorter)

lemma escape_shorter: "escape f t ap = Some (g, c, r, ap') \<Longrightarrow> length r < length t"
proof (induction f t ap rule: escape.induct)
  case (2 f c t ap)
  then show ?case
    by (auto split: if_splits option.splits list.splits dest!: width_digits_shorter)
       (metis less_SucI less_le_trans)
qed simp

section \<open>Conversions\<close>

text \<open>The characters of \<^verbatim>\<open>%s\<close>, with what is left of the width after them.\<close>

fun put_string :: "bool \<Rightarrow> int \<Rightarrow> int \<Rightarrow> u8 list \<Rightarrow> (u8 list \<times> int) option" where
  "put_string alt prec width [] = None"
| "put_string alt prec width (c # p) =
     (if c = 0 \<or> prec = 0 then Some ([], width)
      else map_option (\<lambda>(out, w). ((if alt \<and> (c < 0x20 \<or> c > 0x7e) then 0x3f else c) # out, w))
             (put_string alt (if prec < 0 then prec else prec - 1) (width - 1) p))"

definition null_string :: "u8 list" where
  "null_string = [0x28, 0x6e, 0x75, 0x6c, 0x6c, 0x29, 0]"

definition fmt_string :: "fspec \<Rightarrow> u8 list \<Rightarrow> u8 list option" where
  "fmt_string f p =
     Option.bind
       (if fwidth f > 0 \<and> padc f \<noteq> 0x2d
        then map_option (\<lambda>n. (pad (fwidth f - int n) (padc f), min 0 (fwidth f - int n)))
               (if precision f < 0 then strlen p else strnlen p (nat (precision f)))
        else Some ([], fwidth f)) (\<lambda>(before, w).
     map_option (\<lambda>(out, w). before @ out @ pad w 0x20) (put_string (altflag f) (precision f) w p))"

text \<open>
  One conversion: \<open>None\<close> when an argument is missing, \<open>Some None\<close> when the character is no
  conversion. \<open>sol\<close> is the preprocessor condition \<^verbatim>\<open>SOL >= 1\<close> of the user library's copy, without
  which \<^verbatim>\<open>%o\<close> prints a placeholder.
\<close>

definition convert :: "(u32 \<Rightarrow> u8 list) \<Rightarrow> bool \<Rightarrow> fspec \<Rightarrow> u8 \<Rightarrow> u32 list \<Rightarrow> (u8 list \<times> u32 list) option option" where
  "convert mem sol f c ap =
     (if c = 0x63 then (case ap of [] \<Rightarrow> None | w # r \<Rightarrow> Some (Some ([ucast w], r)))
      else if c = 0x73 then
        (case ap of [] \<Rightarrow> None
         | w # r \<Rightarrow> map_option (\<lambda>out. Some (out, r)) (fmt_string f (if w = 0 then null_string else mem w)))
      else if c = 0x64 then
        map_option (\<lambda>(num, r). Some
          (if num <s 0 then 0x2d # printnum (- num) 10 (fwidth f) (padc f) else printnum num 10 (fwidth f) (padc f), r))
          (getint ap (lflag f))
      else if c = 0x75 then map_option (\<lambda>(num, r). Some (printnum num 10 (fwidth f) (padc f), r)) (getuint ap (lflag f))
      else if c = 0x6f then
        (if sol then map_option (\<lambda>(num, r). Some (printnum num 8 (fwidth f) (padc f), r)) (getuint ap (lflag f))
         else Some (Some ([0x58, 0x58, 0x58], ap)))
      else if c = 0x70 then
        (case ap of [] \<Rightarrow> None
         | w # r \<Rightarrow> Some (Some (0x30 # 0x78 # printnum (ucast w) 16 (fwidth f) (padc f), r)))
      else if c = 0x78 then map_option (\<lambda>(num, r). Some (printnum num 16 (fwidth f) (padc f), r)) (getuint ap (lflag f))
      else if c = 0x25 then Some (Some ([0x25], ap))
      else Some None)"

text \<open>An unknown conversion prints the percent sign and goes on right behind it.\<close>

function vprintfmt :: "(u32 \<Rightarrow> u8 list) \<Rightarrow> bool \<Rightarrow> u8 list \<Rightarrow> u32 list \<Rightarrow> u8 list option" where
  "vprintfmt mem sol [] ap = None"
| "vprintfmt mem sol (ch # t) ap =
     (if ch \<noteq> 0x25 then if ch = 0 then Some [] else map_option ((#) ch) (vprintfmt mem sol t ap)
      else case escape fspec0 t ap of None \<Rightarrow> None
        | Some (f, c, r, ap') \<Rightarrow>
          (case convert mem sol f c ap' of None \<Rightarrow> None
           | Some None \<Rightarrow> map_option ((#) 0x25) (vprintfmt mem sol t ap')
           | Some (Some (out, ap'')) \<Rightarrow> map_option ((@) out) (vprintfmt mem sol r ap'')))"
  by pat_completeness auto
termination
  by (relation "measure (\<lambda>(_, _, t, _). length t)") (auto dest: escape_shorter)

text \<open>The user library's copy differs only in \<^verbatim>\<open>%o\<close>.\<close>

definition user_printnum :: "u64 \<Rightarrow> u64 \<Rightarrow> int \<Rightarrow> u8 \<Rightarrow> u8 list" where
  "user_printnum = printnum"

definition user_getuint :: "u32 list \<Rightarrow> nat \<Rightarrow> (u64 \<times> u32 list) option" where
  "user_getuint = getuint"

definition user_getint :: "u32 list \<Rightarrow> nat \<Rightarrow> (u64 \<times> u32 list) option" where
  "user_getint = getint"

definition user_vprintfmt :: "(u32 \<Rightarrow> u8 list) \<Rightarrow> u8 list \<Rightarrow> u32 list \<Rightarrow> u8 list option" where
  "user_vprintfmt mem = vprintfmt mem False"

section \<open>Where the characters go\<close>

text \<open>\<^verbatim>\<open>sprintputch\<close>: \<open>room\<close> is \<^verbatim>\<open>ebuf - buf\<close>.\<close>

definition sprintputch :: "u8 \<Rightarrow> u8 list \<times> nat \<times> nat \<Rightarrow> u8 list \<times> nat \<times> nat" where
  "sprintputch ch b = (case b of (buf, room, cnt) \<Rightarrow>
     (if room > 0 then (buf @ [ch], room - 1, cnt + 1) else (buf, room, cnt + 1)))"

text \<open>The bytes written to the buffer and the result, for a buffer of size \<open>n\<close>.\<close>

definition vsnprintf :: "nat \<Rightarrow> (u32 \<Rightarrow> u8 list) \<Rightarrow> u8 list \<Rightarrow> u32 list \<Rightarrow> (u8 list \<times> nat) option" where
  "vsnprintf n mem fmt ap =
     map_option (\<lambda>out. case fold sprintputch out ([], n - 1, 0) of (buf, room, cnt) \<Rightarrow> (buf @ [0], cnt))
       (user_vprintfmt mem fmt ap)"

definition vsprintf :: "(u32 \<Rightarrow> u8 list) \<Rightarrow> u8 list \<Rightarrow> u32 list \<Rightarrow> (u8 list \<times> nat) option" where
  "vsprintf mem fmt ap =
     map_option (\<lambda>out. case fold sprintputch out ([], 0xffffffff, 0) of (buf, room, cnt) \<Rightarrow> (buf @ [0], cnt))
       (user_vprintfmt mem fmt ap)"

abbreviation (input) CONSOLE_BUFFER_SIZE :: nat where "CONSOLE_BUFFER_SIZE \<equiv> 512"

text \<open>
  The kernel's \<^verbatim>\<open>putch\<close>: the pending characters, what has gone to \<^verbatim>\<open>cons_putc\<close> so far, the count.
  \<^verbatim>\<open>cputs\<close> stops at the first zero byte.
\<close>

definition dputch :: "u8 \<Rightarrow> u8 list \<times> u8 list \<times> nat \<Rightarrow> u8 list \<times> u8 list \<times> nat" where
  "dputch ch b = (case b of (buf, out, cnt) \<Rightarrow>
     (if length buf + 1 = CONSOLE_BUFFER_SIZE - 1 then ([], out @ cstr (buf @ [ch]), cnt + 1)
      else (buf @ [ch], out, cnt + 1)))"

definition vdprintf :: "(u32 \<Rightarrow> u8 list) \<Rightarrow> u8 list \<Rightarrow> u32 list \<Rightarrow> (u8 list \<times> nat) option" where
  "vdprintf mem fmt ap =
     map_option (\<lambda>chars. case fold dputch chars ([], [], 0) of (buf, out, cnt) \<Rightarrow> (out @ cstr buf, cnt))
       (vprintfmt mem True fmt ap)"

abbreviation (input) MAX_BUF :: nat where "MAX_BUF \<equiv> 4096"

text \<open>The user library's \<^verbatim>\<open>putch\<close>: every full buffer is one \<^verbatim>\<open>puts\<close> system call.\<close>

definition uputch :: "u8 \<Rightarrow> u8 list \<times> u8 list list \<times> nat \<Rightarrow> u8 list \<times> u8 list list \<times> nat" where
  "uputch ch b = (case b of (buf, calls, cnt) \<Rightarrow>
     (if length buf + 1 = MAX_BUF - 1 then ([], calls @ [buf @ [ch]], cnt + 1)
      else (buf @ [ch], calls, cnt + 1)))"

definition vcprintf :: "(u32 \<Rightarrow> u8 list) \<Rightarrow> u8 list \<Rightarrow> u32 list \<Rightarrow> (u8 list list \<times> nat) option" where
  "vcprintf mem fmt ap =
     map_option (\<lambda>chars. case fold uputch chars ([], [], 0) of (buf, calls, cnt) \<Rightarrow> (calls @ [buf], cnt))
       (user_vprintfmt mem fmt ap)"

section \<open>Printed digits\<close>

section \<open>Printed numbers are read back\<close>

lemma ucast_u8_u32: "unat (d :: u64) < 256 \<Longrightarrow> (ucast (ucast d :: u8) :: u32) = ucast d"
  by (simp add: word_unat_eq_iff unat_small_ucast)

lemma digit_char_dec:
  assumes "d < 10"
  shows "0x30 \<le> digit_char d \<and> digit_char d \<le> 0x39 \<and> (ucast (digit_char d - 0x30) :: u32) = ucast d"
proof -
  have d: "unat d < 10" using assms by (simp add: word_less_nat_alt)
  then have c: "digit_char d = 0x30 + ucast d" using assms by (simp add: digit_char_def)
  moreover have "unat (digit_char d) = 48 + unat d"
    using d by (simp add: c unat_plus_if' unat_small_ucast)
  ultimately show ?thesis using d by (simp add: word_le_nat_alt ucast_u8_u32)
qed

lemma digit_char_val:
  assumes "d < 16"
  shows "digit_val (digit_char d) = Some (ucast d)"
proof (cases "d < 10")
  case True
  then show ?thesis using digit_char_dec [OF True] by (simp add: digit_val_def)
next
  case False
  have d: "10 \<le> unat d" "unat d < 16" using assms False by (simp_all add: word_less_nat_alt)
  have c: "digit_char d = 0x57 + ucast d" using False by (simp add: digit_char_def)
  moreover have "unat (digit_char d) = 87 + unat d"
    using d by (simp add: c unat_plus_if' unat_small_ucast)
  moreover have "(ucast (ucast d - 10 :: u8) :: u32) + 10 = ucast d"
    using d by (simp add: word_unat_eq_iff unat_plus_if' unat_sub_if' unat_small_ucast)
  ultimately show ?thesis using d by (simp add: digit_val_def word_le_nat_alt)
qed

lemma mod_less_base: "1 < (base :: u64) \<Longrightarrow> num mod base < base"
  by (simp add: word_less_nat_alt unat_mod)


lemma ucast_of_nat_unat: "(ucast (x :: u64) :: u32) = of_nat (unat x)"
  by simp

lemma ucast_div_mod: "(ucast (num div base) :: u32) * ucast base + ucast (num mod base) = ucast (num :: u64)"
proof -
  have "(of_nat (unat num) :: u32) = of_nat (unat num div unat base * unat base + unat num mod unat base)" by (simp only: div_mult_mod_eq)
  then show ?thesis by (simp only: ucast_of_nat_unat unat_div unat_mod of_nat_add of_nat_mult)
qed

lemma ucast_div_mod_assoc:
  "acc * ucast base ^ Suc n + ucast (num :: u64) = (acc * ucast base ^ n + ucast (num div base)) * ucast base + (ucast (num mod base) :: u32)"
  using ucast_div_mod [of num base] by (simp add: algebra_simps)

lemma atoi_digits_printnum:
  "base = 10 \<Longrightarrow> width \<le> 1 \<Longrightarrow>
   atoi_digits (printnum num base width c @ t) acc loc =
   atoi_digits t (acc * 10 ^ length (printnum num base width c) + ucast num) (loc + length (printnum num base width c))"
proof (induction num base width c arbitrary: t acc loc rule: printnum.induct)
  case (1 num base width c)
  let ?d = "digit_char (num mod base)"
  have m: "num mod base < 10" using mod_less_base [of base num] 1(2) by (simp add: word_less_nat_alt)
  note d = digit_char_dec [OF m]
  show ?case
  proof (cases "base \<le> num")
    case True
    let ?p = "printnum (num div base) base (width - 1) c"
    have p: "printnum num base width c = ?p @ [?d]" using True 1(2) by (subst printnum.simps) simp
    have "atoi_digits (printnum num base width c @ t) acc loc = atoi_digits (?d # t) (acc * 10 ^ length ?p + ucast (num div base)) (loc + length ?p)"
      unfolding p append.assoc using True 1 by simp
    also have "\<dots> = atoi_digits t ((acc * 10 ^ length ?p + ucast (num div base)) * 10 + ucast (num mod base)) (Suc (loc + length ?p))"
      using d by simp
    also have "(acc * 10 ^ length ?p + ucast (num div base)) * 10 + ucast (num mod base) = acc * 10 ^ Suc (length ?p) + ucast num"
      using ucast_div_mod_assoc [of acc base "length ?p" num] 1(2) by (simp del: distrib_right_numeral)
    finally show ?thesis by (simp add: p del: power_Suc)
  next
    case False
    then have p: "printnum num base width c = [?d]" using 1(2,3) by (subst printnum.simps) (simp add: pad_def)
    have "num mod base = num" using False by (simp add: word_mod_less_divisor not_le unat_mod word_unat_eq_iff word_less_nat_alt)
    then show ?thesis using d 1(2) p by simp
  qed
qed

lemma strtol_digits_printnum:
  "base = ucast b \<Longrightarrow> 1 < b \<Longrightarrow> b \<le> 16 \<Longrightarrow> width \<le> 1 \<Longrightarrow>
   strtol_digits b (printnum num base width c @ t) acc =
   strtol_digits b t (acc * b ^ length (printnum num base width c) + ucast num)"
proof (induction num base width c arbitrary: t acc rule: printnum.induct)
  case (1 num base width c)
  let ?d = "digit_char (num mod base)"
  have b: "1 < base" "base \<le> 16" "ucast base = b"
    using 1(2,3,4) by (simp_all add: word_less_nat_alt word_le_nat_alt unat_small_ucast word_unat_eq_iff)
  have lt: "num mod base < base" using mod_less_base b by simp
  have m: "num mod base < 16" using lt b by simp
  have u: "unat (num mod base) < unat base" "unat base = unat b" "unat b \<le> 16"
    using lt 1(2,4) by (simp_all add: word_less_nat_alt word_le_nat_alt unat_small_ucast)
  have "int (unat (num mod base)) < int (unat b)" using u by linarith
  then have s: "\<not> b \<le>s ucast (num mod base)"
    using u by (simp add: word_sle_eq sint_small unat_small_ucast)
  note d = digit_char_val [OF m]
  show ?case
  proof (cases "base \<le> num")
    case True
    let ?p = "printnum (num div base) base (width - 1) c"
    have p: "printnum num base width c = ?p @ [?d]" using True b by (subst printnum.simps) simp
    have "strtol_digits b (printnum num base width c @ t) acc = strtol_digits b (?d # t) (acc * b ^ length ?p + ucast (num div base))"
      unfolding p append.assoc using True 1 b by simp
    also have "\<dots> = strtol_digits b t ((acc * b ^ length ?p + ucast (num div base)) * b + ucast (num mod base))"
      using d s by simp
    also have "(acc * b ^ length ?p + ucast (num div base)) * b + ucast (num mod base) = acc * b ^ Suc (length ?p) + ucast num"
      using ucast_div_mod_assoc [of acc base "length ?p" num] b(3) by simp
    finally show ?thesis by (simp add: p del: power_Suc)
  next
    case False
    then have p: "printnum num base width c = [?d]" using b 1(5) by (subst printnum.simps) (simp add: pad_def)
    have "num mod base = num" using False by (simp add: word_mod_less_divisor not_le unat_mod word_unat_eq_iff word_less_nat_alt)
    then show ?thesis using d s by (simp add: p)
  qed
qed

lemma printnum_minus: "printnum num base w c = d # p \<Longrightarrow> w \<le> 1 \<Longrightarrow> 1 < base \<Longrightarrow> base \<le> 16 \<Longrightarrow> digit_val d \<noteq> None"
proof (induction num base w c arbitrary: p rule: printnum.induct)
  case (1 num base w c)
  have m: "num mod base < 16" using mod_less_base 1(4,5) by (meson order.strict_trans2)
  show ?case
  proof (cases "base \<le> num")
    case True
    then have e: "printnum (num div base) base (w - 1) c @ [digit_char (num mod base)] = d # p"
      using 1(2,4) by (subst (asm) printnum.simps) simp
    then show ?thesis
    proof (cases "printnum (num div base) base (w - 1) c")
      case Nil
      then show ?thesis using e digit_char_val [OF m] by simp
    next
      case (Cons d' p')
      then show ?thesis using e 1(1) [of p'] True 1(3-5) by simp
    qed
  next
    case False
    then show ?thesis using 1(2,3) digit_char_val [OF m]
      by (subst (asm) printnum.simps) (simp add: pad_def)
  qed
qed

lemma printnum_nonempty: "printnum num base w c \<noteq> []"
  by (subst printnum.simps) simp

section \<open>What the formatter promises\<close>

lemma vprintfmt_percent_d:
  "vprintfmt mem sol [0x25, 0x64, 0] [w] =
   Some (if (scast w :: u64) <s 0 then 0x2d # printnum (- scast w) 10 (-1) 0x20 else printnum (scast w) 10 (-1) 0x20)"
  by (simp add: fspec0_def convert_def getint_def)

lemma ucast_uminus: "(ucast (- (x :: u64)) :: u32) = - ucast x"
proof transfer
  fix x :: int
  have "take_bit 32 (- take_bit 64 x) = take_bit 32 (- take_bit 32 (take_bit 64 x))" by (simp only: take_bit_minus)
  also have "\<dots> = take_bit 32 (- x)" by (simp add: take_bit_minus)
  finally show "take_bit LENGTH(32) (take_bit LENGTH(64) (- x)) = take_bit LENGTH(32) (- take_bit LENGTH(64) x)" by simp
qed

lemma scast_back: "(ucast (scast (w :: u32) :: u64) :: u32) = w" "(ucast (- (scast w :: u64)) :: u32) = - w"
proof -
  show "(ucast (scast w :: u64) :: u32) = w" by transfer (simp add: take_bit_signed_take_bit)
  then show "(ucast (- (scast w :: u64)) :: u32) = - w" by (simp add: ucast_uminus)
qed

lemma atoi_printnum:
  assumes "width \<le> 1"
  shows "atoi (printnum num 10 width c @ [0]) = Some (length (printnum num 10 width c), Some (ucast num))"
    "atoi (0x2d # printnum num 10 width c @ [0]) = Some (Suc (length (printnum num 10 width c)), Some (- ucast num))"
proof -
  obtain d p where p: "printnum num 10 width c = d # p"
    using printnum_nonempty [of num 10 width c] by (cases "printnum num 10 width c") auto
  have "digit_val d \<noteq> None" using printnum_minus [OF p assms] by simp
  then have "d \<noteq> 0x2b" "d \<noteq> 0x2d" by (auto simp: digit_val_def)
  then show "atoi (printnum num 10 width c @ [0]) = Some (length (printnum num 10 width c), Some (ucast num))"
    using atoi_digits_printnum [of 10 width num c "[0]" 0 0] assms by (simp add: atoi_def p)
  show "atoi (0x2d # printnum num 10 width c @ [0]) = Some (Suc (length (printnum num 10 width c)), Some (- ucast num))"
    using atoi_digits_printnum [of 10 width num c "[0]" 0 1] assms by (simp add: atoi_def p)
qed

lemma strtol_printnum:
  assumes "width \<le> 1"
  shows "strtol (printnum num 10 width c @ [0]) 10 = Some (ucast num, [0])"
    "strtol (0x2d # printnum num 10 width c @ [0]) 10 = Some (- ucast num, [0])"
proof -
  obtain d p where p: "printnum num 10 width c = d # p"
    using printnum_nonempty [of num 10 width c] by (cases "printnum num 10 width c") auto
  have "digit_val d \<noteq> None" using printnum_minus [OF p assms] by simp
  then have d: "d \<noteq> 0x2b" "d \<noteq> 0x2d" "d \<noteq> 0x20" "d \<noteq> 9" by (auto simp: digit_val_def)
  have s: "strtol_digits 10 (d # p @ [0]) 0 = Some (ucast num, [0])"
    using strtol_digits_printnum [of 10 10 width num c "[0]" 0] assms by (simp add: p digit_val_def)
  show "strtol (printnum num 10 width c @ [0]) 10 = Some (ucast num, [0])"
    using d s by (simp add: strtol_def strtol_sign_def strtol_base_def p)
  show "strtol (0x2d # printnum num 10 width c @ [0]) 10 = Some (- ucast num, [0])"
    using d s by (simp add: strtol_def strtol_sign_def strtol_base_def p)
qed

text \<open>
  C17: Printing and parsing a number are inverse: for every 32-bit word, what \<^verbatim>\<open>%d\<close> prints (in the
  kernel's formatter and in the user library's) is read back by \<^verbatim>\<open>atoi\<close> as the same word, with every
  character consumed, and by \<^verbatim>\<open>strtol\<close> in base 10, which stops exactly at the terminator.
\<close>

theorem printed_number_roundtrip:
  "\<exists>out. vprintfmt mem sol [0x25, 0x64, 0] [w] = Some out \<and>
     atoi (out @ [0]) = Some (length out, Some w) \<and> strtol (out @ [0]) 10 = Some (w, [0])"
proof (cases "(scast w :: u64) <s 0")
  case True
  then show ?thesis
    using atoi_printnum(2) [of "-1" "- scast w" "0x20"] strtol_printnum(2) [of "-1" "- scast w" "0x20"]
    by (simp add: vprintfmt_percent_d scast_back del: vprintfmt.simps)
next
  case False
  then show ?thesis
    using atoi_printnum(1) [of "-1" "scast w" "0x20"] strtol_printnum(1) [of "-1" "scast w" "0x20"]
    by (simp add: vprintfmt_percent_d scast_back del: vprintfmt.simps)
qed

lemma fold_sprintputch:
  "fold sprintputch out (buf, room, cnt) = (buf @ take room out, room - length out, cnt + length out)"
  by (induction out arbitrary: buf room cnt) (auto simp: sprintputch_def take_Cons')



lemma fold_dputch:
  assumes "0 \<notin> set chars" "0 \<notin> set buf" "length buf < 511"
  shows "\<exists>buf' out'. fold dputch chars (buf, out, cnt) = (buf', out', cnt + length chars) \<and> 0 \<notin> set buf'
    \<and> out' @ buf' = out @ buf @ chars"
  using assms
proof (induction chars arbitrary: buf out cnt)
  case (Cons c chars)
  have s: "cstr (buf @ [c]) = buf @ [c]" using Cons.prems by (induction buf) auto
  then show ?case
    using Cons.IH [of "[]" "out @ buf @ [c]" "cnt + 1"] Cons.IH [of "buf @ [c]" out "cnt + 1"] Cons.prems
    by (cases "Suc (length buf) = 511") (auto simp: dputch_def)
qed simp

lemma cstr_id: "0 \<notin> set xs \<Longrightarrow> cstr xs = xs"
  by (induction xs) auto

text \<open>The console receives exactly the characters of the formatter, whatever the buffering.\<close>

lemma vdprintf_transparent:
  assumes "vprintfmt mem True fmt ap = Some out" "0 \<notin> set out"
  shows "vdprintf mem fmt ap = Some (out, length out)"
  using fold_dputch [OF assms(2), of "[]" "[]" 0] assms(1) by (auto simp: vdprintf_def cstr_id)

lemma fold_uputch:
  assumes "length buf < 4095" "\<forall>x \<in> set calls. length x < 4096"
  shows "\<exists>buf' calls'. fold uputch chars (buf, calls, cnt) = (buf', calls', cnt + length chars)
    \<and> length buf' < 4095 \<and> (\<forall>x \<in> set calls'. length x < 4096) \<and> concat calls' @ buf' = concat calls @ buf @ chars"
  using assms
proof (induction chars arbitrary: buf calls cnt)
  case (Cons c chars)
  then show ?case
    using Cons.IH [of "[]" "calls @ [buf @ [c]]" "cnt + 1"] Cons.IH [of "buf @ [c]" calls "cnt + 1"]
    by (cases "Suc (length buf) = 4095") (auto simp: uputch_def)
qed simp

text \<open>
  The system calls of the user library's \<^verbatim>\<open>printf\<close> carry, one after the other, exactly the
  characters of the formatter, each call fits the 4096-byte buffer, and the result counts them; the
  kernel's \<^verbatim>\<open>dprintf\<close> hands the console exactly the characters of its formatter.
\<close>

theorem printf_transparent:
  assumes "vprintfmt mem False fmt ap = Some out" "vprintfmt mem True fmt ap = Some kout" "0 \<notin> set kout"
  shows "(\<exists>calls. vcprintf mem fmt ap = Some (calls, length out) \<and> concat calls = out \<and> (\<forall>x \<in> set calls. length x < 4096))
    \<and> vdprintf mem fmt ap = Some (kout, length kout)"
  using fold_uputch [of "[]" "[]" out 0] vdprintf_transparent [OF assms(2,3)] assms(1)
  by (auto simp: vcprintf_def user_vprintfmt_def)

theorem printf_transparent_witness:
  "(\<exists>calls. vcprintf (\<lambda>_. [0]) [0x25, 0x6f, 0] [8] = Some (calls, 3) \<and> concat calls = [0x58, 0x58, 0x58] \<and> (\<forall>x \<in> set calls. length x < 4096))
    \<and> vdprintf (\<lambda>_. [0]) [0x25, 0x6f, 0] [8] = Some ([0x31, 0x30], 2)"
proof -
  have "printnum 1 8 (-2) 0x20 = [0x31]"
    by (subst printnum.simps) (simp add: digit_char_def pad_def word_le_nat_alt)
  then have "printnum 8 8 (-1) 0x20 = [0x31, 0x30]"
    by (subst printnum.simps) (simp add: digit_char_def)
  then have "vprintfmt (\<lambda>_. [0]) False [0x25, 0x6f, 0] [8] = Some [0x58, 0x58, 0x58]"
    "vprintfmt (\<lambda>_. [0]) True [0x25, 0x6f, 0] [8] = Some [0x31, 0x30]"
    by (simp_all add: fspec0_def convert_def getuint_def)
  from printf_transparent [OF this] show ?thesis by (simp add: numeral_3_eq_3)
qed

end
