(* ===== verification/Bufcache.thy ===== *)
theory Bufcache
  imports Pmap
begin

text \<open>
  The IDE driver (kern/dev/disk/ide.c) and the buffer cache (kern/fs/bufcache.c).

  A block is a function on 9-bit indices, so it has exactly 512 bytes. The buffers and the list
  head of \<^verbatim>\<open>bcache\<close> are one array: index \<open>NBUF\<close> is \<^verbatim>\<open>&bcache.head\<close>, the others are \<^verbatim>\<open>bcache.buf\<close>.
  The drive is the environment: its ports, its data register, its status, the sectors it holds
  and the list of sector writes it has performed, oldest first. \<open>ide_complete\<close> is the drive
  finishing the command it was given, the event that raises the disk interrupt.

  File-system calls are modelled as seen by one thread. Waiting for the disk (\<^verbatim>\<open>thread_sleep\<close>
  in \<^verbatim>\<open>ide_rw\<close>) is: release the driver's lock, let the drive finish its command and the
  interrupt handler run, and take the lock again. Waiting for another thread that holds
  a buffer stops the run with \<open>Asleep\<close>.
\<close>

abbreviation (input) NBUF :: u32 where "NBUF \<equiv> 10"
abbreviation (input) B_BUSY :: u32 where "B_BUSY \<equiv> 1"
abbreviation (input) B_VALID :: u32 where "B_VALID \<equiv> 2"
abbreviation (input) B_DIRTY :: u32 where "B_DIRTY \<equiv> 4"

type_synonym block = "9 word \<Rightarrow> u8"

record buf =
  bflags :: u32
  bdev :: u32
  bsector :: u32
  bprev :: u32
  bnext :: u32
  qnext :: "u32 option"
  bdata :: block

record fs_buf = thread +
  ide_lk :: spinlock_t
  idequeue :: "u32 option"
  havedisk1 :: bool
  ide_port :: "u32 \<Rightarrow> u8"
  ide_data :: block
  ide_status :: u8
  disk :: "u32 \<Rightarrow> u32 \<Rightarrow> block"
  disk_hist :: "(u32 \<times> u32 \<times> block) list"
  bcache_lk :: spinlock_t
  bufs :: "u32 \<Rightarrow> buf"

section \<open>ide.c\<close>

definition buf_get :: "u32 \<Rightarrow> ('a fs_buf_scheme, buf) kprog" where
  "buf_get b = kthen (kassert (b \<le> NBUF) (Fault ''buf'')) (kgets (\<lambda>s. bufs s b))"

definition buf_upd :: "u32 \<Rightarrow> (buf \<Rightarrow> buf) \<Rightarrow> ('a fs_buf_scheme, unit) kprog" where
  "buf_upd b f = kthen (kassert (b \<le> NBUF) (Fault ''buf''))
     (kmodify (\<lambda>s. s\<lparr>bufs := (bufs s)(b := f (bufs s b))\<rparr>))"

definition outb :: "u32 \<Rightarrow> u8 \<Rightarrow> ('a fs_buf_scheme, unit) kprog" where
  "outb p v = kmodify (\<lambda>s. s\<lparr>ide_port := (ide_port s)(p := v)\<rparr>)"

text \<open>A drive that never becomes ready leaves the polling loop spinning.\<close>

definition ide_wait :: "bool \<Rightarrow> ('a fs_buf_scheme, bool) kprog" where
  "ide_wait checkerr =
     kbind (kgets ide_status) (\<lambda>r.
     kthen (kassert (r AND 0xC0 = 0x40) Deadlock)
           (kreturn (\<not> (checkerr \<and> r AND 0x21 \<noteq> 0))))"

definition ide_start :: "u32 option \<Rightarrow> ('a fs_buf_scheme, unit) kprog" where
  "ide_start q =
     (case q of None \<Rightarrow> kfail (Panic ''ide_start'')
      | Some b \<Rightarrow>
        kthen (ide_wait False)
        (kbind (buf_get b) (\<lambda>bp.
        kthen (outb 0x3f6 0)
        (kthen (outb 0x1f2 1)
        (kthen (outb 0x1f3 (ucast (bsector bp AND 0xff)))
        (kthen (outb 0x1f4 (ucast (drop_bit 8 (bsector bp) AND 0xff)))
        (kthen (outb 0x1f5 (ucast (drop_bit 16 (bsector bp) AND 0xff)))
        (kthen (outb 0x1f6 (0xe0 OR ucast (push_bit 4 (bdev bp AND 1)) OR ucast (drop_bit 24 (bsector bp) AND 0x0f)))
        (if bflags bp AND B_DIRTY \<noteq> 0
         then kthen (outb 0x1f7 0x30) (kmodify (\<lambda>s. s\<lparr>ide_data := bdata bp\<rparr>))
         else outb 0x1f7 0x20)))))))))"

text \<open>The drive: the sector and the drive number the ports name, and the command.\<close>

definition port_sector :: "(u32 \<Rightarrow> u8) \<Rightarrow> u32" where
  "port_sector p = ucast (p 0x1f3) OR push_bit 8 (ucast (p 0x1f4)) OR push_bit 16 (ucast (p 0x1f5))
     OR push_bit 24 (ucast (p 0x1f6 AND 0x0f))"

definition port_dev :: "(u32 \<Rightarrow> u8) \<Rightarrow> u32" where
  "port_dev p = drop_bit 4 (ucast (p 0x1f6 AND 0x10))"

definition ide_complete :: "('a fs_buf_scheme, unit) kprog" where
  "ide_complete = kmodify (\<lambda>s.
     let d = port_dev (ide_port s); n = port_sector (ide_port s) in
     if ide_port s 0x1f7 = 0x30
     then s\<lparr>disk := (disk s)(d := (disk s d)(n := ide_data s)), disk_hist := disk_hist s @ [(d, n, ide_data s)]\<rparr>
     else s\<lparr>ide_data := disk s d n\<rparr>)"

definition ide_acquire :: "('a fs_buf_scheme, unit) kprog" where
  "ide_acquire = spinlock_acquire ide_lk ide_lk_update"

definition ide_release :: "('a fs_buf_scheme, unit) kprog" where
  "ide_release = spinlock_release ide_lk ide_lk_update"

definition ide_intr :: "('a fs_buf_scheme, unit) kprog" where
  "ide_intr =
     kthen ide_acquire
     (kbind (kgets idequeue) (\<lambda>q.
      case q of None \<Rightarrow> ide_release
      | Some b \<Rightarrow>
        kbind (buf_get b) (\<lambda>bp.
        kthen (kmodify (\<lambda>s. s\<lparr>idequeue := qnext bp\<rparr>))
        (kthen (kwhen (bflags bp AND B_DIRTY = 0)
           (kbind (ide_wait True) (\<lambda>good. kwhen good
              (kbind (kgets ide_data) (\<lambda>d. buf_upd b (\<lambda>x. x\<lparr>bdata := d\<rparr>))))))
        (kthen (buf_upd b (\<lambda>x. x\<lparr>bflags := bflags x OR B_VALID\<rparr>))
        (kthen (buf_upd b (\<lambda>x. x\<lparr>bflags := bflags x AND NOT B_DIRTY\<rparr>))
        (kthen (thread_wakeup (BufChan b))
        (kbind (kgets idequeue) (\<lambda>q.
        kthen (kwhen (q \<noteq> None) (ide_start q))
              ide_release))))))))) "

text \<open>The end of the request queue; a queue longer than the cache would be a cycle.\<close>

fun ide_last :: "nat \<Rightarrow> u32 \<Rightarrow> ('a fs_buf_scheme, u32) kprog" where
  "ide_last 0 b = kfail Deadlock"
| "ide_last (Suc n) b = kbind (buf_get b) (\<lambda>bp.
     case qnext bp of None \<Rightarrow> kreturn b | Some b' \<Rightarrow> ide_last n b')"

definition ide_append :: "u32 \<Rightarrow> ('a fs_buf_scheme, unit) kprog" where
  "ide_append b =
     kthen (buf_upd b (\<lambda>x. x\<lparr>qnext := None\<rparr>))
     (kbind (kgets idequeue) (\<lambda>q.
      case q of None \<Rightarrow> kmodify (\<lambda>s. s\<lparr>idequeue := Some b\<rparr>)
      | Some a \<Rightarrow> kbind (ide_last 11 a) (\<lambda>e. buf_upd e (\<lambda>x. x\<lparr>qnext := Some b\<rparr>))))"

text \<open>The waiting loop. Every interrupt takes one request off the queue, which holds at most \<open>NBUF\<close>.\<close>

fun ide_wait_done :: "nat \<Rightarrow> u32 \<Rightarrow> ('a fs_buf_scheme, unit) kprog" where
  "ide_wait_done 0 b = kfail (Asleep ''ide'')"
| "ide_wait_done (Suc n) b =
     kbind (buf_get b) (\<lambda>bp.
     if bflags bp AND (B_VALID OR B_DIRTY) = B_VALID then kreturn ()
     else kthen ide_release (kthen ide_complete (kthen ide_intr (kthen ide_acquire (ide_wait_done n b)))))"

definition ide_rw :: "u32 \<Rightarrow> ('a fs_buf_scheme, unit) kprog" where
  "ide_rw b =
     kbind (buf_get b) (\<lambda>bp.
     kbind (kgets havedisk1) (\<lambda>h.
     kthen (kassert (bflags bp AND B_BUSY \<noteq> 0) (Panic ''ide_rw: buf not busy''))
     (kthen (kassert (bflags bp AND (B_VALID OR B_DIRTY) \<noteq> B_VALID) (Panic ''ide_rw: nothing to do''))
     (kthen (kassert (bdev bp = 0 \<or> h) (Panic ''ide_rw: ide disk 1 not present''))
     (kthen ide_acquire
     (kthen (ide_append b)
     (kbind (kgets idequeue) (\<lambda>q.
     kthen (kwhen (q = Some b) (ide_start q))
     (kthen (ide_wait_done 12 b)
            ide_release)))))))))"

section \<open>bufcache.c\<close>

definition bcache_acquire :: "('a fs_buf_scheme, unit) kprog" where
  "bcache_acquire = spinlock_acquire bcache_lk bcache_lk_update"

definition bcache_release :: "('a fs_buf_scheme, unit) kprog" where
  "bcache_release = spinlock_release bcache_lk bcache_lk_update"

definition bufcache_init_buf :: "u32 \<Rightarrow> ('a fs_buf_scheme, unit) kprog" where
  "bufcache_init_buf b =
     kbind (buf_get NBUF) (\<lambda>h.
     kthen (buf_upd b (\<lambda>x. x\<lparr>bnext := bnext h\<rparr>))
     (kthen (buf_upd b (\<lambda>x. x\<lparr>bprev := NBUF\<rparr>))
     (kthen (buf_upd b (\<lambda>x. x\<lparr>bdev := 0xffffffff\<rparr>))
     (kthen (buf_upd (bnext h) (\<lambda>x. x\<lparr>bprev := b\<rparr>))
            (buf_upd NBUF (\<lambda>x. x\<lparr>bnext := b\<rparr>))))))"

definition bufcache_init :: "('a fs_buf_scheme, unit) kprog" where
  "bufcache_init =
     kthen (kmodify (\<lambda>s. s\<lparr>bcache_lk := spinlock_init\<rparr>))
     (kthen (buf_upd NBUF (\<lambda>x. x\<lparr>bprev := NBUF\<rparr>))
     (kthen (buf_upd NBUF (\<lambda>x. x\<lparr>bnext := NBUF\<rparr>))
            (kfor 0 NBUF bufcache_init_buf)))"

text \<open>The two searches, from the most recently and from the least recently used buffer.\<close>

fun scan_next :: "nat \<Rightarrow> (buf \<Rightarrow> bool) \<Rightarrow> u32 \<Rightarrow> ('a fs_buf_scheme, u32 option) kprog" where
  "scan_next 0 P b = kfail Deadlock"
| "scan_next (Suc n) P b =
     (if b = NBUF then kreturn None
      else kbind (buf_get b) (\<lambda>x. if P x then kreturn (Some b) else scan_next n P (bnext x)))"

fun scan_prev :: "nat \<Rightarrow> (buf \<Rightarrow> bool) \<Rightarrow> u32 \<Rightarrow> ('a fs_buf_scheme, u32 option) kprog" where
  "scan_prev 0 P b = kfail Deadlock"
| "scan_prev (Suc n) P b =
     (if b = NBUF then kreturn None
      else kbind (buf_get b) (\<lambda>x. if P x then kreturn (Some b) else scan_prev n P (bprev x)))"

definition bufcache_get :: "u32 \<Rightarrow> u32 \<Rightarrow> ('a fs_buf_scheme, u32) kprog" where
  "bufcache_get dev sector =
     kthen bcache_acquire
     (kbind (buf_get NBUF) (\<lambda>h.
     kbind (scan_next 11 (\<lambda>x. bdev x = dev \<and> bsector x = sector) (bnext h)) (\<lambda>r.
     case r of
       Some b \<Rightarrow> kbind (buf_get b) (\<lambda>x.
         if bflags x AND B_BUSY = 0
         then kthen (buf_upd b (\<lambda>x. x\<lparr>bflags := bflags x OR B_BUSY\<rparr>)) (kthen bcache_release (kreturn b))
         else kfail (Asleep ''buf''))
     | None \<Rightarrow>
       kbind (scan_prev 11 (\<lambda>x. bflags x AND B_BUSY = 0 \<and> bflags x AND B_DIRTY = 0) (bprev h)) (\<lambda>r.
       case r of
         Some b \<Rightarrow> kthen (buf_upd b (\<lambda>x. x\<lparr>bdev := dev\<rparr>))
           (kthen (buf_upd b (\<lambda>x. x\<lparr>bsector := sector\<rparr>))
           (kthen (buf_upd b (\<lambda>x. x\<lparr>bflags := B_BUSY\<rparr>))
           (kthen bcache_release (kreturn b))))
       | None \<Rightarrow> kfail (Panic ''bufcache_get: no buffers'')))))"

definition bufcache_read :: "u32 \<Rightarrow> u32 \<Rightarrow> ('a fs_buf_scheme, u32) kprog" where
  "bufcache_read dev sector =
     kbind (bufcache_get dev sector) (\<lambda>b.
     kbind (buf_get b) (\<lambda>x.
     kthen (kwhen (bflags x AND B_VALID = 0) (ide_rw b)) (kreturn b)))"

definition bufcache_write :: "u32 \<Rightarrow> ('a fs_buf_scheme, unit) kprog" where
  "bufcache_write b =
     kbind (buf_get b) (\<lambda>x.
     kthen (kassert (bflags x AND B_BUSY \<noteq> 0) (Panic ''bwrite''))
     (kthen (buf_upd b (\<lambda>x. x\<lparr>bflags := bflags x OR B_DIRTY\<rparr>))
            (ide_rw b)))"

definition bufcache_release :: "u32 \<Rightarrow> ('a fs_buf_scheme, unit) kprog" where
  "bufcache_release b =
     kbind (buf_get b) (\<lambda>x.
     kthen (kassert (bflags x AND B_BUSY \<noteq> 0) (Panic ''brelse''))
     (kthen bcache_acquire
     (kthen (buf_upd (bnext x) (\<lambda>y. y\<lparr>bprev := bprev x\<rparr>))
     (kthen (kbind (buf_get b) (\<lambda>x. buf_upd (bprev x) (\<lambda>y. y\<lparr>bnext := bnext x\<rparr>)))
     (kbind (buf_get NBUF) (\<lambda>h.
     kthen (buf_upd b (\<lambda>x. x\<lparr>bnext := bnext h\<rparr>))
     (kthen (buf_upd b (\<lambda>x. x\<lparr>bprev := NBUF\<rparr>))
     (kbind (buf_get NBUF) (\<lambda>h.
     kthen (buf_upd (bnext h) (\<lambda>y. y\<lparr>bprev := b\<rparr>))
     (kthen (buf_upd NBUF (\<lambda>h. h\<lparr>bnext := b\<rparr>))
     (kthen (buf_upd b (\<lambda>x. x\<lparr>bflags := bflags x AND NOT B_BUSY\<rparr>))
     (kthen (thread_wakeup (BufChan b))
            bcache_release))))))))))))"

section \<open>A calm system\<close>

interpretation ide_lk: lock_field ide_lk ide_lk_update
  by unfold_locales simp_all

interpretation bcache_lk: lock_field bcache_lk bcache_lk_update
  by unfold_locales simp_all

interpretation ide_sleep: sleep_lock ide_lk ide_lk_update
  by unfold_locales simp_all

interpretation bcache_sleep: sleep_lock bcache_lk bcache_lk_update
  by unfold_locales simp_all

lemma kwp_ide_acquire [wp]:
  "kwp ide_acquire Q s = (lock (ide_lk s) = 0 \<and> ks_magic s = KSTACK_MAGIC \<and> Q () (s\<lparr>ide_lk := lock_by (ks_cpu_idx s)\<rparr>))"
  unfolding ide_acquire_def by (rule ide_lk.acquire_wp)

lemma kwp_ide_release [wp]: "kwp ide_release Q s = Q () (s\<lparr>ide_lk := spinlock_init\<rparr>)"
  unfolding ide_release_def by (rule ide_lk.release_wp)

lemma kwp_bcache_acquire [wp]:
  "kwp bcache_acquire Q s = (lock (bcache_lk s) = 0 \<and> ks_magic s = KSTACK_MAGIC \<and> Q () (s\<lparr>bcache_lk := lock_by (ks_cpu_idx s)\<rparr>))"
  unfolding bcache_acquire_def by (rule bcache_lk.acquire_wp)

lemma kwp_bcache_release [wp]: "kwp bcache_release Q s = Q () (s\<lparr>bcache_lk := spinlock_init\<rparr>)"
  unfolding bcache_release_def by (rule bcache_lk.release_wp)

lemma kwp_buf_get [wp]: "kwp (buf_get b) Q s = (b \<le> NBUF \<and> Q (bufs s b) s)"
  by (simp add: buf_get_def wp)

lemma kwp_buf_upd [wp]: "kwp (buf_upd b f) Q s = (b \<le> NBUF \<and> Q () (s\<lparr>bufs := (bufs s)(b := f (bufs s b))\<rparr>))"
  by (simp add: buf_upd_def wp)

lemma kwp_outb [wp]: "kwp (outb p v) Q s = Q () (s\<lparr>ide_port := (ide_port s)(p := v)\<rparr>)"
  by (simp add: outb_def wp)

lemma kwp_ide_wait [wp]:
  "kwp (ide_wait c) Q s = (ide_status s AND 0xC0 = 0x40 \<and> Q (\<not> (c \<and> ide_status s AND 0x21 \<noteq> 0)) s)"
  by (simp add: ide_wait_def wp)

text \<open>No thread sleeps on an object of the file system, and the scheduler's lock is free.\<close>

definition calm :: "'a thread_scheme \<Rightarrow> bool" where
  "calm s \<longleftrightarrow> ks_magic s = KSTACK_MAGIC \<and> lock_free (sched_lk s) \<and>
     (\<forall>pid<NUM_IDS. t_status (TCBPool s pid) = TSTATE_SLEEP \<longrightarrow> channel (TCBPool s pid) = NoChan)"

lemma thread_wakeup_calm:
  assumes "calm s" "ch \<noteq> NoChan"
  shows "kwp (thread_wakeup ch) (\<lambda>_ t. t = s) s"
proof -
  let ?s = "s\<lparr>sched_lk := lock_by (ks_cpu_idx s)\<rparr>"
  have "kwp (kfor 0 NUM_IDS (\<lambda>pid. kbind (tcb_get_state pid) (\<lambda>st. kbind (tcb_get_chan pid) (\<lambda>c.
      kwhen (st = TSTATE_SLEEP \<and> c = ch) (kthen (tcb_set_state pid TSTATE_READY) (tqueue_enqueue NUM_IDS pid))))))
     (\<lambda>_ t. t = ?s) ?s"
  proof (rule kwp_kfor [where I = "\<lambda>_ t. t = ?s"])
    fix j :: u32 and t
    assume j: "j < NUM_IDS" "t = ?s"
    then show "kwp (kbind (tcb_get_state j) (\<lambda>st. kbind (tcb_get_chan j) (\<lambda>c.
      kwhen (st = TSTATE_SLEEP \<and> c = ch) (kthen (tcb_set_state j TSTATE_READY) (tqueue_enqueue NUM_IDS j)))))
      (\<lambda>_ t'. t' = ?s) t"
      using assms by (auto simp: wp tcb_get_state_def tcb_get_chan_def calm_def)
  qed simp_all
  then show ?thesis
    using assms unfolding thread_wakeup_def
    by (simp add: wp calm_def) (erule kwp_mono, simp)
qed

text \<open>The sector and drive number a command carries arrive at the drive, for sectors below \<open>2 ^ 28\<close>.\<close>

definition ide_ports :: "u32 \<Rightarrow> u32 \<Rightarrow> u8 \<Rightarrow> (u32 \<Rightarrow> u8) \<Rightarrow> u32 \<Rightarrow> u8" where
  "ide_ports dev sec cmd p = p(0x3f6 := 0, 0x1f2 := 1, 0x1f3 := ucast (sec AND 0xff), 0x1f4 := ucast (drop_bit 8 sec AND 0xff),
     0x1f5 := ucast (drop_bit 16 sec AND 0xff),
     0x1f6 := 0xe0 OR ucast (push_bit 4 (dev AND 1)) OR ucast (drop_bit 24 sec AND 0x0f), 0x1f7 := cmd)"

lemma ide_ports_port [simp]: "ide_ports dev sec cmd p 0x1f7 = cmd"
  by (simp add: ide_ports_def)

lemma byte_mask: "(ucast (x AND 0xff :: u32) :: u8) = ucast x"
proof -
  have m: "(0xff :: u32) = mask 8" by (simp add: mask_eq_exp_minus_1)
  show ?thesis unfolding m by (intro bit_word_eqI) (simp add: bit_simps)
qed

lemma port6_sector: "(0xe0 OR (ucast (push_bit 4 (d :: u32)) :: u8) OR ucast (x AND 0x0f :: u32)) AND 0x0f = ucast (take_bit 4 x)"
proof -
  have m: "(0x0f :: u32) = mask 4" "(0x0f :: u8) = mask 4" "(0xe0 :: u8) = push_bit 5 (mask 3)"
    by (simp_all add: mask_eq_exp_minus_1 push_bit_eq_mult)
  show ?thesis unfolding m by (rule bit_word_eqI) (auto simp: bit_simps)
qed

lemma port6_dev:
  fixes x :: u32
  shows "(0xe0 OR ucast (x AND 0x0f)) AND 0x10 = (0 :: u8)" "(0xe0 OR 0x10 OR ucast (x AND 0x0f)) AND 0x10 = (0x10 :: u8)"
proof -
  have m: "(0x0f :: u32) = mask 4" by (simp add: mask_eq_exp_minus_1)
  have z: "(ucast (x AND 0x0f) :: u8) AND 0x10 = 0"
  proof (rule bit_word_eqI)
    fix n assume "n < LENGTH(8)"
    then have "n = 0 \<or> n = 1 \<or> n = 2 \<or> n = 3 \<or> 4 \<le> n" by auto
    then show "bit ((ucast (x AND 0x0f) :: u8) AND 0x10) n = bit (0 :: u8) n"
      unfolding m by (auto simp: bit_simps)
  qed
  show "(0xe0 OR ucast (x AND 0x0f)) AND 0x10 = (0 :: u8)" "(0xe0 OR 0x10 OR ucast (x AND 0x0f)) AND 0x10 = (0x10 :: u8)"
    by (simp_all add: bit.conj_disj_distrib2 z)
qed

lemma port_sector_ports:
  assumes "sec < 0x10000000"
  shows "port_sector (ide_ports dev sec cmd p) = sec"
proof (rule bit_word_eqI)
  fix n assume n: "n < LENGTH(32)"
  have "take_bit 28 sec = sec" using assms
    by (simp only: take_bit_eq_mod) (simp add: word_unat_eq_iff unat_mod word_less_nat_alt)
  then have hi: "bit sec n \<Longrightarrow> n < 28" using bit_take_bit_iff [of 28 sec n] by simp
  have "port_sector (ide_ports dev sec cmd p) = ucast (ucast sec :: u8) OR push_bit 8 (ucast (ucast (drop_bit 8 sec) :: u8))
    OR push_bit 16 (ucast (ucast (drop_bit 16 sec) :: u8)) OR push_bit 24 (ucast (ucast (take_bit 4 (drop_bit 24 sec)) :: u8))"
    using port6_sector [of "dev AND 1" "drop_bit 24 sec"] by (simp add: port_sector_def ide_ports_def byte_mask)
  then show "bit (port_sector (ide_ports dev sec cmd p)) n = bit sec n"
    using n hi by (auto simp: bit_simps)
qed

lemma port_dev_ports:
  assumes "dev < 2"
  shows "port_dev (ide_ports dev sec cmd p) = dev"
proof -
  have "dev = 0 \<or> dev = 1" using assms by (auto simp: word_less_nat_alt word_unat_eq_iff)
  then show ?thesis using port6_dev [of "drop_bit 24 sec"] by (auto simp: port_dev_def ide_ports_def)
qed

section \<open>Flags\<close>

abbreviation busy :: "buf \<Rightarrow> bool" where "busy x \<equiv> bit (bflags x) 0"
abbreviation valid :: "buf \<Rightarrow> bool" where "valid x \<equiv> bit (bflags x) (Suc 0)"
abbreviation dirty :: "buf \<Rightarrow> bool" where "dirty x \<equiv> bit (bflags x) 2"

lemma flag_tests:
  fixes f :: u32
  shows "f AND 1 = 0 \<longleftrightarrow> \<not> bit f 0" "f AND 2 = 0 \<longleftrightarrow> \<not> bit f (Suc 0)" "f AND 4 = 0 \<longleftrightarrow> \<not> bit f 2"
  using bit_iff_and_push_bit_not_eq_0 [of f 0] bit_iff_and_push_bit_not_eq_0 [of f 1]
    bit_iff_and_push_bit_not_eq_0 [of f 2] by simp_all

lemma flag_sets:
  fixes f :: u32
  shows "bit (f OR 1) n = (bit f n \<or> n = 0)" "bit (f OR 2) n = (bit f n \<or> n = Suc 0)" "bit (f OR 4) n = (bit f n \<or> n = 2)"
    "bit (f AND NOT 1) n = (bit f n \<and> n \<noteq> 0)" "bit (f AND NOT 4) n = (bit f n \<and> n \<noteq> 2)"
    "bit (1 :: u32) n = (n = 0)"
proof -
  have "bit (2 ^ m :: u32) n = (m < 32 \<and> m = n)" for m by (auto simp: bit_exp_iff)
  from this [of 0] this [of 1] this [of 2]
  have b: "bit (1 :: u32) n = (n = 0)" "bit (2 :: u32) n = (n = Suc 0)" "bit (4 :: u32) n = (n = 2)" by auto
  show "bit (f OR 1) n = (bit f n \<or> n = 0)" "bit (f OR 2) n = (bit f n \<or> n = Suc 0)" "bit (f OR 4) n = (bit f n \<or> n = 2)"
    "bit (f AND NOT 1) n = (bit f n \<and> n \<noteq> 0)" "bit (f AND NOT 4) n = (bit f n \<and> n \<noteq> 2)"
    "bit (1 :: u32) n = (n = 0)"
    unfolding bit_or_iff bit_and_iff bit_not_iff b by (auto dest: bit_imp_possible_bit)
qed

lemma and_exp: "(f :: u32) AND 2 ^ n = (if bit f n then 2 ^ n else 0)"
  by (rule bit_word_eqI) (auto simp: bit_and_iff bit_exp_iff)

lemma flag_valid_clean: "(f :: u32) AND 6 = 2 \<longleftrightarrow> bit f (Suc 0) \<and> \<not> bit f 2"
proof -
  have "f AND 6 = f AND (2 OR 4)" by simp
  also have "\<dots> = (f AND 2) OR (f AND 4)" by (simp only: bit.conj_disj_distrib)
  finally show ?thesis using and_exp [of f 1] and_exp [of f 2] by simp
qed

lemmas flag_sets' = flag_sets flag_sets [simplified]

lemma kwp_wakeup_calm: "calm s \<Longrightarrow> ch \<noteq> NoChan \<Longrightarrow> kwp (thread_wakeup ch) Q s = Q () s"
  using thread_wakeup_calm [of s ch] by (auto elim!: kwpE simp: kwp_Inr)

lemma calm_upds [simp]:
  "calm (s\<lparr>ide_lk := l\<rparr>) = calm s" "calm (s\<lparr>bcache_lk := l\<rparr>) = calm s" "calm (s\<lparr>bufs := B\<rparr>) = calm s"
  "calm (s\<lparr>idequeue := q\<rparr>) = calm s" "calm (s\<lparr>ide_port := p\<rparr>) = calm s" "calm (s\<lparr>ide_data := d\<rparr>) = calm s"
  "calm (s\<lparr>disk := dk\<rparr>) = calm s" "calm (s\<lparr>disk_hist := h\<rparr>) = calm s"
  by (simp_all add: calm_def)

lemma calmD: "calm s \<Longrightarrow> ks_magic s = KSTACK_MAGIC"
  by (simp add: calm_def)

section \<open>One request\<close>

definition drive_ok :: "'a fs_buf_scheme \<Rightarrow> bool" where
  "drive_ok s \<longleftrightarrow> calm s \<and> lock_free (ide_lk s) \<and> idequeue s = None \<and>
     ide_status s AND 0xC0 = 0x40 \<and> ide_status s AND 0x21 = 0 \<and> havedisk1 s"

definition disk_sector :: "buf \<Rightarrow> bool" where
  "disk_sector x \<longleftrightarrow> bdev x < 2 \<and> bsector x < 0x10000000"

text \<open>The buffer, the disk and the write history after the request for \<open>b\<close> is done.\<close>

definition synced_buf :: "'a fs_buf_scheme \<Rightarrow> u32 \<Rightarrow> buf" where
  "synced_buf s b = (let x = bufs s b in
     x\<lparr>bflags := (bflags x OR B_VALID) AND NOT B_DIRTY, bdata := (if dirty x then bdata x else disk s (bdev x) (bsector x)), qnext := None\<rparr>)"

definition synced_disk :: "'a fs_buf_scheme \<Rightarrow> u32 \<Rightarrow> u32 \<Rightarrow> u32 \<Rightarrow> block" where
  "synced_disk s b = (let x = bufs s b in
     if dirty x then (disk s)(bdev x := (disk s (bdev x))(bsector x := bdata x)) else disk s)"

definition synced_hist :: "'a fs_buf_scheme \<Rightarrow> u32 \<Rightarrow> (u32 \<times> u32 \<times> block) list" where
  "synced_hist s b = (let x = bufs s b in
     if dirty x then disk_hist s @ [(bdev x, bsector x, bdata x)] else disk_hist s)"

lemma kwp_ide_start:
  "kwp (ide_start (Some b)) Q s = (ide_status s AND 0xC0 = 0x40 \<and> b \<le> NBUF \<and>
     Q () (s\<lparr>ide_port := ide_ports (bdev (bufs s b)) (bsector (bufs s b)) (if dirty (bufs s b) then 0x30 else 0x20) (ide_port s),
             ide_data := (if dirty (bufs s b) then bdata (bufs s b) else ide_data s)\<rparr>))"
  by (simp add: ide_start_def wp ide_ports_def flag_tests fun_upd_twist)

lemma kwp_ide_complete:
  "kwp ide_complete Q s = Q ()
     (let d = port_dev (ide_port s); n = port_sector (ide_port s) in
     if ide_port s 0x1f7 = 0x30
     then s\<lparr>disk := (disk s)(d := (disk s d)(n := ide_data s)), disk_hist := disk_hist s @ [(d, n, ide_data s)]\<rparr>
     else s\<lparr>ide_data := disk s d n\<rparr>)"
  by (simp add: ide_complete_def wp)

lemma kwp_ide_intr:
  assumes "calm s" "lock_free (ide_lk s)" "idequeue s = Some b" "b < NBUF" "qnext (bufs s b) = None"
    "ide_status s AND 0xC0 = 0x40" "ide_status s AND 0x21 = 0"
  shows "kwp ide_intr Q s = Q () (s\<lparr>idequeue := None, bufs := (bufs s)(b := (bufs s b)
     \<lparr>bdata := (if dirty (bufs s b) then bdata (bufs s b) else ide_data s), bflags := (bflags (bufs s b) OR B_VALID) AND NOT B_DIRTY\<rparr>)\<rparr>)"
proof -
  have eq: "s\<lparr>idequeue := None, bufs := B, ide_lk := spinlock_init\<rparr> = s\<lparr>idequeue := None, bufs := B\<rparr>" for B
    using assms(2) by (cases s) simp
  show ?thesis
    using assms less_imp_le [OF assms(4)]
    by (simp add: ide_intr_def wp kwp_wakeup_calm calmD flag_tests) (simp only: eq simp_thms)
qed

lemma kwp_ide_wait_done:
  "kwp (ide_wait_done (numeral k) b) Q s = (b \<le> NBUF \<and>
     (if valid (bufs s b) \<and> \<not> dirty (bufs s b) then Q () s
      else kwp (kthen ide_release (kthen ide_complete (kthen ide_intr (kthen ide_acquire (ide_wait_done (pred_numeral k) b))))) Q s))"
  unfolding numeral_eq_Suc [of k] by (simp add: wp flag_valid_clean)

lemma synced_buf_no_next:
  "qnext (bufs s b) = None \<Longrightarrow> synced_buf s b = (bufs s b)
     \<lparr>bdata := (if dirty (bufs s b) then bdata (bufs s b) else disk s (bdev (bufs s b)) (bsector (bufs s b))),
      bflags := (bflags (bufs s b) OR B_VALID) AND NOT B_DIRTY\<rparr>"
  unfolding synced_buf_def Let_def by (cases "bufs s b") simp

lemma synced_flags: "valid (synced_buf s b)" "\<not> dirty (synced_buf s b)" "busy (synced_buf s b) = busy (bufs s b)"
  by (simp_all add: synced_buf_def Let_def flag_sets')

lemma kwp_ide_wait_one:
  fixes s :: "'a fs_buf_scheme"
  assumes "calm s" "idequeue s = Some b" "b < NBUF" "qnext (bufs s b) = None" "\<not> (valid (bufs s b) \<and> \<not> dirty (bufs s b))"
    "ide_status s AND 0xC0 = 0x40" "ide_status s AND 0x21 = 0" "disk_sector (bufs s b)"
    "ide_port s = ide_ports (bdev (bufs s b)) (bsector (bufs s b)) (if dirty (bufs s b) then 0x30 else 0x20) p"
    "dirty (bufs s b) \<Longrightarrow> ide_data s = bdata (bufs s b)"
  shows "kwp (ide_wait_done 12 b) Q s = Q () ((if dirty (bufs s b) then s else s\<lparr>ide_data := disk s (bdev (bufs s b)) (bsector (bufs s b))\<rparr>)\<lparr>
     disk := synced_disk s b, disk_hist := synced_hist s b, idequeue := None, bufs := (bufs s)(b := synced_buf s b), ide_lk := lock_by (ks_cpu_idx s)\<rparr>)"
proof -
  note fl = synced_flags [of s b, unfolded synced_buf_no_next [OF assms(4)]]
  note defs = synced_buf_no_next [OF assms(4)] synced_disk_def synced_hist_def Let_def
  show ?thesis
  proof (cases "dirty (bufs s b)")
    case True
    then show ?thesis
      using assms less_imp_le [OF assms(3)] fl
      by (simp add: wp kwp_ide_wait_done [of "num.Bit0 (num.Bit0 (num.Bit1 num.One))"]
        kwp_ide_wait_done [of "num.Bit1 (num.Bit1 (num.Bit0 num.One))"]
        calmD kwp_ide_complete kwp_ide_intr [where b = b] port_dev_ports port_sector_ports disk_sector_def defs)
  next
    case False
    then show ?thesis
      using assms less_imp_le [OF assms(3)] fl
      by (simp add: wp kwp_ide_wait_done [of "num.Bit0 (num.Bit0 (num.Bit1 num.One))"]
        kwp_ide_wait_done [of "num.Bit1 (num.Bit1 (num.Bit0 num.One))"]
        calmD kwp_ide_complete kwp_ide_intr [where b = b] port_dev_ports port_sector_ports disk_sector_def defs)
  qed
qed

lemma ide_rw_wp:
  fixes s :: "'a fs_buf_scheme"
  assumes ok: "drive_ok s" and b: "b < NBUF" "busy (bufs s b)" "valid (bufs s b) \<longrightarrow> dirty (bufs s b)" "disk_sector (bufs s b)"
  shows "kwp (ide_rw b) (\<lambda>_ t. \<exists>p d. t = s\<lparr>ide_port := p, ide_data := d, bufs := (bufs s)(b := synced_buf s b),
     disk := synced_disk s b, disk_hist := synced_hist s b\<rparr>) s"
proof -
  define x where "x = (bufs s b)\<lparr>qnext := None\<rparr>"
  define s1 where "s1 = s\<lparr>ide_lk := lock_by (ks_cpu_idx s), bufs := (bufs s)(b := x), idequeue := Some b,
     ide_port := ide_ports (bdev x) (bsector x) (if dirty x then 0x30 else 0x20) (ide_port s),
     ide_data := (if dirty x then bdata x else ide_data s)\<rparr>"
  have eq: "synced_disk s1 b = synced_disk s b" "synced_hist s1 b = synced_hist s b" "synced_buf s1 b = synced_buf s b"
    by (simp_all add: synced_disk_def synced_hist_def synced_buf_def s1_def x_def Let_def)
  have fin: "\<exists>p d. ((if dirty (bufs s1 b) then s1 else s1\<lparr>ide_data := disk s1 (bdev (bufs s1 b)) (bsector (bufs s1 b))\<rparr>)\<lparr>
     disk := D, disk_hist := H, idequeue := None, bufs := (bufs s1)(b := y), ide_lk := lock_by (ks_cpu_idx s1)\<rparr>)\<lparr>ide_lk := spinlock_init\<rparr>
    = s\<lparr>ide_port := p, ide_data := d, bufs := (bufs s)(b := y), disk := D, disk_hist := H\<rparr>" for D H y
    using ok unfolding drive_ok_def s1_def by (cases s) (cases "dirty x"; simp)
  have "kwp (ide_wait_done 12 b) (\<lambda>_ t. \<exists>p d. t\<lparr>ide_lk := spinlock_init\<rparr> = s\<lparr>ide_port := p, ide_data := d,
     bufs := (bufs s)(b := synced_buf s b), disk := synced_disk s b, disk_hist := synced_hist s b\<rparr>) s1"
  proof (subst kwp_ide_wait_one [where p = "ide_port s"])
    show "\<exists>p d. ((if dirty (bufs s1 b) then s1 else s1\<lparr>ide_data := disk s1 (bdev (bufs s1 b)) (bsector (bufs s1 b))\<rparr>)\<lparr>
      disk := synced_disk s1 b, disk_hist := synced_hist s1 b, idequeue := None, bufs := (bufs s1)(b := synced_buf s1 b),
      ide_lk := lock_by (ks_cpu_idx s1)\<rparr>)\<lparr>ide_lk := spinlock_init\<rparr> = s\<lparr>ide_port := p, ide_data := d,
      bufs := (bufs s)(b := synced_buf s b), disk := synced_disk s b, disk_hist := synced_hist s b\<rparr>"
      unfolding eq by (rule fin)
  qed (use ok b in \<open>auto simp: s1_def x_def drive_ok_def disk_sector_def\<close>)
  then show ?thesis
    using ok b less_imp_le [OF b(1)] unfolding s1_def x_def
    by (cases "dirty (bufs s b)")
       (simp_all add: ide_rw_def wp drive_ok_def calmD flag_tests flag_valid_clean ide_append_def kwp_ide_start)
qed

end
