(* ===== verification/Bufcache_Spec.thy ===== *)
theory Bufcache_Spec
  imports Bufcache
begin

text \<open>
  What the buffer cache promises its clients. The doubly linked list of buffers represents a list,
  every sector has at most one cached copy, and a copy nobody holds is dirty or equal to the disk.
  \<open>content\<close> is the abstract view: an array of blocks. The last section states each operation
  against this view, with everything it leaves alone; the log rests on these lemmas only.
\<close>

section \<open>The list of buffers\<close>

text \<open>\<open>xs\<close> are the elements from \<open>a\<close> (exclusive) to \<open>z\<close> (exclusive), linked both ways.\<close>

fun chain :: "(u32 \<Rightarrow> u32) \<Rightarrow> (u32 \<Rightarrow> u32) \<Rightarrow> u32 \<Rightarrow> u32 list \<Rightarrow> u32 \<Rightarrow> bool" where
  "chain N P a [] z \<longleftrightarrow> N a = z \<and> P z = a"
| "chain N P a (x # xs) z \<longleftrightarrow> N a = x \<and> P x = a \<and> chain N P x xs z"

lemma chain_append: "chain N P a (xs @ x # ys) z \<longleftrightarrow> chain N P a xs x \<and> chain N P x ys z"
  by (induction xs arbitrary: a) auto

lemma chain_next: "chain N P a xs z \<Longrightarrow> N a = hd (xs @ [z])" and chain_prev: "chain N P a xs z \<Longrightarrow> P z = last (a # xs)"
  by (induction xs arbitrary: a) auto

lemma chain_cong:
  "chain N P a xs z \<Longrightarrow> (\<And>i. i \<in> insert a (set xs) \<Longrightarrow> N' i = N i) \<Longrightarrow> (\<And>i. i \<in> insert z (set xs) \<Longrightarrow> P' i = P i) \<Longrightarrow>
   chain N' P' a xs z"
  by (induction xs arbitrary: a) auto

lemma chain_unlink:
  assumes "chain N P a (us @ b # vs) z" "distinct (us @ b # vs)" "a \<notin> set (us @ b # vs)" "z \<notin> set (us @ b # vs)"
  shows "chain (N(P b := N b)) (P(N b := P b)) a (us @ vs) z"
  using assms
proof (induction us arbitrary: a)
  case Nil
  then show ?case by (cases vs) (auto intro: chain_cong)
next
  case (Cons u us)
  have c: "chain N P u (us @ b # vs) z" using Cons.prems(1) by simp
  have "P b \<in> set (u # us)" using c chain_prev [of N P u us b] by (auto simp: chain_append)
  moreover have "N b \<in> set (vs @ [z])" using c chain_next [of N P b vs z] hd_in_set [of "vs @ [z]"] by (auto simp: chain_append)
  ultimately show ?case using Cons.IH [of u] Cons.prems c by auto
qed

lemma chain_push:
  assumes "chain N P a xs z" "b \<notin> set xs" "a \<notin> set xs" "z \<notin> set xs" "b \<noteq> a" "b \<noteq> z" "distinct xs"
  shows "chain (N(b := N a, a := b)) (P(b := a, N a := b)) a (b # xs) z"
proof (cases xs)
  case Nil
  then show ?thesis using assms by auto
next
  case (Cons x ys)
  then have "chain N P x ys z" "N a = x" using assms by auto
  moreover have "chain (N(b := N a, a := b)) (P(b := a, N a := b)) x ys z"
    using assms Cons by (intro chain_cong [OF \<open>chain N P x ys z\<close>]) auto
  ultimately show ?thesis using assms Cons by auto
qed

abbreviation buf_ids :: "u32 list" where "buf_ids \<equiv> [0, 1, 2, 3, 4, 5, 6, 7, 8, 9]"

lemma buf_ids_iff: "b \<in> set buf_ids \<longleftrightarrow> b < NBUF"
proof
  assume "b < NBUF"
  then have "unat b < 10" by (simp add: word_less_nat_alt)
  then have "b \<in> of_nat ` {0..<10}" by (intro image_eqI [of _ _ "unat b"]) auto
  also have "of_nat ` {0..<10} = set (map of_nat [0..<10] :: u32 list)" by simp
  also have "map of_nat [0..<10] = buf_ids" by (simp add: upt_rec)
  finally show "b \<in> set buf_ids" .
qed (auto simp: word_less_nat_alt)

definition lru :: "(u32 \<Rightarrow> buf) \<Rightarrow> u32 list \<Rightarrow> bool" where
  "lru B xs \<longleftrightarrow> chain (\<lambda>i. bnext (B i)) (\<lambda>i. bprev (B i)) NBUF xs NBUF \<and> distinct xs \<and> set xs = {b. b < NBUF}"

lemma lru_length: "lru B xs \<Longrightarrow> length xs = 10"
proof -
  assume "lru B xs"
  then have "distinct xs" "set xs = set buf_ids" using buf_ids_iff by (auto simp: lru_def)
  then have "length xs = card (set buf_ids)" using distinct_card by metis
  then show ?thesis by simp
qed
section \<open>The cache invariant\<close>

abbreviation (input) no_dev :: u32 where "no_dev \<equiv> 0xffffffff"

lemma find_SomeD: "find P xs = Some x \<Longrightarrow> x \<in> set xs \<and> P x"
  by (induction xs) (auto split: if_splits)

lemma find_unique:
  "set xs = set ys \<Longrightarrow> (\<And>x y. x \<in> set ys \<Longrightarrow> y \<in> set ys \<Longrightarrow> P x \<Longrightarrow> P y \<Longrightarrow> x = y) \<Longrightarrow> find P xs = find P ys"
  by (cases "find P xs"; cases "find P ys"; simp) (auto simp: find_None_iff dest!: find_SomeD)

definition cached :: "(u32 \<Rightarrow> buf) \<Rightarrow> u32 \<Rightarrow> u32 \<Rightarrow> u32 option" where
  "cached B dev sec = find (\<lambda>b. bdev (B b) = dev \<and> bsector (B b) = sec) buf_ids"

text \<open>What a read of a sector is to see: the cached copy, or the disk.\<close>

definition content :: "'a fs_buf_scheme \<Rightarrow> u32 \<Rightarrow> u32 \<Rightarrow> block" where
  "content s dev sec = (if dev = no_dev then disk s dev sec
     else case cached (bufs s) dev sec of None \<Rightarrow> disk s dev sec | Some b \<Rightarrow> bdata (bufs s b))"

text \<open>
  Every sector is cached at most once, every cached copy is valid, and a copy that nobody holds
  and that is not dirty is what the disk has.
\<close>

definition cache_ok :: "(u32 \<Rightarrow> buf) \<Rightarrow> (u32 \<Rightarrow> u32 \<Rightarrow> block) \<Rightarrow> bool" where
  "cache_ok B D \<longleftrightarrow>
     (\<forall>b<NBUF. \<forall>c<NBUF. bdev (B b) \<noteq> no_dev \<and> bdev (B b) = bdev (B c) \<and> bsector (B b) = bsector (B c) \<longrightarrow> b = c) \<and>
     (\<forall>b<NBUF. bdev (B b) \<noteq> no_dev \<longrightarrow> disk_sector (B b) \<and> valid (B b)) \<and>
     (\<forall>b<NBUF. bdev (B b) \<noteq> no_dev \<and> \<not> busy (B b) \<and> \<not> dirty (B b) \<longrightarrow> bdata (B b) = D (bdev (B b)) (bsector (B b)))"

definition bc_ok :: "'a fs_buf_scheme \<Rightarrow> bool" where
  "bc_ok s \<longleftrightarrow> drive_ok s \<and> lock_free (bcache_lk s) \<and> (\<exists>xs. lru (bufs s) xs) \<and> cache_ok (bufs s) (disk s)"

lemma cached_Some: "cached B dev sec = Some b \<Longrightarrow> b < NBUF \<and> bdev (B b) = dev \<and> bsector (B b) = sec"
  unfolding cached_def by (drule find_SomeD) (simp only: buf_ids_iff [symmetric])

lemma cached_None: "cached B dev sec = None \<Longrightarrow> b < NBUF \<Longrightarrow> \<not> (bdev (B b) = dev \<and> bsector (B b) = sec)"
  unfolding cached_def find_None_iff by (simp only: buf_ids_iff [symmetric]) auto

lemma cachedI:
  assumes "cache_ok B D" "b < NBUF" "bdev (B b) = dev" "bsector (B b) = sec" "dev \<noteq> no_dev"
  shows "cached B dev sec = Some b"
  using assms cached_None [of B dev sec b] cached_Some [of B dev sec]
  by (cases "cached B dev sec") (auto simp: cache_ok_def)

lemma find_cached:
  assumes "cache_ok B D" "lru B xs" "dev \<noteq> no_dev"
  shows "find (\<lambda>b. bdev (B b) = dev \<and> bsector (B b) = sec) xs = cached B dev sec"
  unfolding cached_def
proof (rule find_unique)
  show e: "set xs = set buf_ids" using assms(2) buf_ids_iff by (auto simp: lru_def)
  fix x y assume "x \<in> set buf_ids" "y \<in> set buf_ids" "bdev (B x) = dev \<and> bsector (B x) = sec" "bdev (B y) = dev \<and> bsector (B y) = sec"
  then show "x = y" using assms(1,3) unfolding buf_ids_iff cache_ok_def by metis
qed

section \<open>The searches\<close>

lemma scan_next_wp:
  "chain (\<lambda>i. bnext (bufs s i)) P' a vs NBUF \<Longrightarrow> (\<forall>v \<in> set vs. v < NBUF) \<Longrightarrow> length vs < n \<Longrightarrow>
   kwp (scan_next n P (bnext (bufs s a))) Q s = Q (find (\<lambda>b. P (bufs s b)) vs) s"
proof (induction vs arbitrary: a n)
  case Nil
  then show ?case by (cases n) (auto simp: wp)
next
  case (Cons v vs)
  then obtain m where "n = Suc m" by (cases n) auto
  then show ?case using Cons by (auto simp: wp less_imp_le)
qed

lemma scan_prev_wp:
  "chain N' (\<lambda>i. bprev (bufs s i)) NBUF vs z \<Longrightarrow> (\<forall>v \<in> set vs. v < NBUF) \<Longrightarrow> length vs < n \<Longrightarrow>
   kwp (scan_prev n P (bprev (bufs s z))) Q s = Q (find (\<lambda>b. P (bufs s b)) (rev vs)) s"
proof (induction vs arbitrary: z n rule: rev_induct)
  case Nil
  then show ?case by (cases n) (auto simp: wp)
next
  case (snoc v vs)
  then obtain m where "n = Suc m" by (cases n) auto
  then show ?case using snoc by (auto simp: wp less_imp_le chain_append)
qed
section \<open>The operations\<close>

lemma bcache_lk_restore:
  "lock_free (bcache_lk s) \<Longrightarrow> s\<lparr>bufs := B, bcache_lk := spinlock_init\<rparr> = s\<lparr>bufs := B\<rparr>"
  by (cases s) simp

lemma bufcache_get_hit:
  assumes ok: "bc_ok s" and dev: "dev \<noteq> no_dev" and hit: "cached (bufs s) dev sec = Some b" "\<not> busy (bufs s b)"
  shows "kwp (bufcache_get dev sec) Q s = Q b (s\<lparr>bufs := (bufs s)(b := (bufs s b)\<lparr>bflags := bflags (bufs s b) OR B_BUSY\<rparr>)\<rparr>)"
proof -
  obtain xs where xs: "lru (bufs s) xs" using ok by (auto simp: bc_ok_def)
  have f: "find (\<lambda>b. bdev (bufs s b) = dev \<and> bsector (bufs s b) = sec) xs = Some b"
    using find_cached [OF _ xs dev] ok hit by (auto simp: bc_ok_def)
  let ?s = "s\<lparr>bcache_lk := lock_by (ks_cpu_idx s)\<rparr>"
  have "kwp (scan_next 11 (\<lambda>x. bdev x = dev \<and> bsector x = sec) (bnext (bufs ?s NBUF))) R ?s = R (Some b) ?s" for R
    using scan_next_wp [of ?s "\<lambda>i. bprev (bufs s i)" NBUF xs 11] xs lru_length [OF xs] f by (simp add: lru_def)
  then show ?thesis
    using ok cached_Some [OF hit(1)] hit less_imp_le [of b NBUF]
    by (simp add: bufcache_get_def wp bc_ok_def drive_ok_def calmD flag_tests bcache_lk_restore)
qed

lemma bufcache_get_miss:
  assumes ok: "bc_ok s" and dev: "dev \<noteq> no_dev" and xs: "lru (bufs s) xs" and miss: "cached (bufs s) dev sec = None"
    and b: "find (\<lambda>b. \<not> busy (bufs s b) \<and> \<not> dirty (bufs s b)) (rev xs) = Some b"
  shows "kwp (bufcache_get dev sec) Q s = Q b (s\<lparr>bufs := (bufs s)(b := (bufs s b)\<lparr>bdev := dev, bsector := sec, bflags := B_BUSY\<rparr>)\<rparr>)"
proof -
  have f: "find (\<lambda>b. bdev (bufs s b) = dev \<and> bsector (bufs s b) = sec) xs = None"
    using find_cached [OF _ xs dev] ok miss by (auto simp: bc_ok_def)
  let ?s = "s\<lparr>bcache_lk := lock_by (ks_cpu_idx s)\<rparr>"
  have "kwp (scan_next 11 (\<lambda>x. bdev x = dev \<and> bsector x = sec) (bnext (bufs ?s NBUF))) R ?s = R None ?s" for R
    using scan_next_wp [of ?s "\<lambda>i. bprev (bufs s i)" NBUF xs 11] xs lru_length [OF xs] f by (simp add: lru_def)
  moreover have "kwp (scan_prev 11 (\<lambda>x. \<not> busy x \<and> \<not> dirty x) (bprev (bufs ?s NBUF))) R ?s = R (Some b) ?s" for R
    using scan_prev_wp [of "\<lambda>i. bnext (bufs s i)" ?s xs NBUF 11] xs lru_length [OF xs] b by (simp add: lru_def)
  moreover have "b < NBUF" using find_SomeD [OF b] xs by (auto simp: lru_def)
  ultimately show ?thesis
    using ok less_imp_le [of b NBUF]
    by (simp add: bufcache_get_def wp bc_ok_def drive_ok_def calmD flag_tests bcache_lk_restore)
qed

definition got_buf :: "'a fs_buf_scheme \<Rightarrow> u32 \<Rightarrow> u32 \<Rightarrow> u32 \<Rightarrow> buf \<Rightarrow> bool" where
  "got_buf s dev sec b y \<longleftrightarrow> b < NBUF \<and>
     (case cached (bufs s) dev sec of Some c \<Rightarrow> b = c | None \<Rightarrow> \<not> busy (bufs s b) \<and> \<not> dirty (bufs s b)) \<and>
     bdev y = dev \<and> bsector y = sec \<and> busy y \<and> valid y \<and> bdata y = content s dev sec \<and>
     (dirty y \<longleftrightarrow> cached (bufs s) dev sec \<noteq> None \<and> dirty (bufs s b)) \<and>
     bnext y = bnext (bufs s b) \<and> bprev y = bprev (bufs s b)"

text \<open>A sector can be read when its buffer is free, or when there is a buffer to recycle.\<close>

definition available :: "(u32 \<Rightarrow> buf) \<Rightarrow> u32 \<Rightarrow> u32 \<Rightarrow> bool" where
  "available B dev sec \<longleftrightarrow> (case cached B dev sec of Some b \<Rightarrow> \<not> busy (B b) | None \<Rightarrow> \<exists>b<NBUF. \<not> busy (B b) \<and> \<not> dirty (B b))"

lemma bufcache_read_wp:
  assumes ok: "bc_ok s" and sec: "dev < 2" "sec < 0x10000000" and av: "available (bufs s) dev sec"
  shows "kwp (bufcache_read dev sec) (\<lambda>b t. \<exists>p d y. t = s\<lparr>ide_port := p, ide_data := d, bufs := (bufs s)(b := y)\<rparr> \<and> got_buf s dev sec b y) s"
proof (cases "cached (bufs s) dev sec")
  case (Some b)
  have b: "b < NBUF" "bdev (bufs s b) = dev" "bsector (bufs s b) = sec" "\<not> busy (bufs s b)"
    using cached_Some [OF Some] av Some by (auto simp: available_def)
  have dev: "dev \<noteq> no_dev" using sec(1) by auto
  then have v: "valid (bufs s b)" using ok b by (auto simp: bc_ok_def cache_ok_def)
  let ?y = "(bufs s b)\<lparr>bflags := bflags (bufs s b) OR B_BUSY\<rparr>"
  have "\<exists>p d. s\<lparr>bufs := (bufs s)(b := ?y)\<rparr> = s\<lparr>ide_port := p, ide_data := d, bufs := (bufs s)(b := ?y)\<rparr>"
    by (intro exI [of _ "ide_port s"] exI [of _ "ide_data s"]) simp
  moreover have "got_buf s dev sec b ?y"
    using b Some v dev by (simp add: got_buf_def flag_sets' content_def)
  ultimately show ?thesis
    using bufcache_get_hit [OF ok dev Some b(4)] b v less_imp_le [of b NBUF]
    by (simp add: bufcache_read_def wp flag_tests flag_sets') blast
next
  case None
  obtain xs where xs: "lru (bufs s) xs" using ok by (auto simp: bc_ok_def)
  obtain b where f: "find (\<lambda>b. \<not> busy (bufs s b) \<and> \<not> dirty (bufs s b)) (rev xs) = Some b"
    using av None xs by (cases "find (\<lambda>b. \<not> busy (bufs s b) \<and> \<not> dirty (bufs s b)) (rev xs)")
      (auto simp: available_def find_None_iff lru_def)
  have b: "b < NBUF" "\<not> busy (bufs s b)" "\<not> dirty (bufs s b)" using find_SomeD [OF f] xs by (auto simp: lru_def)
  have dev: "dev \<noteq> no_dev" using sec(1) by auto
  define x where "x = (bufs s b)\<lparr>bdev := dev, bsector := sec, bflags := B_BUSY\<rparr>"
  define s1 where "s1 = s\<lparr>bufs := (bufs s)(b := x)\<rparr>"
  have fl: "busy x" "\<not> valid x" "\<not> dirty x" by (simp_all add: x_def flag_sets')
  have "kwp (ide_rw b) (\<lambda>_ t. \<exists>p d y. t = s\<lparr>ide_port := p, ide_data := d, bufs := (bufs s)(b := y)\<rparr> \<and> got_buf s dev sec b y) s1"
  proof (rule kwp_mono [OF ide_rw_wp])
    show "drive_ok s1" "b < NBUF" "busy (bufs s1 b)" "valid (bufs s1 b) \<longrightarrow> dirty (bufs s1 b)" "disk_sector (bufs s1 b)"
      using ok b fl sec by (simp_all add: s1_def bc_ok_def drive_ok_def disk_sector_def x_def)
    fix u t
    assume "\<exists>p d. t = s1\<lparr>ide_port := p, ide_data := d, bufs := (bufs s1)(b := synced_buf s1 b), disk := synced_disk s1 b, disk_hist := synced_hist s1 b\<rparr>"
    then obtain p d where t: "t = s1\<lparr>ide_port := p, ide_data := d, bufs := (bufs s1)(b := synced_buf s1 b), disk := synced_disk s1 b, disk_hist := synced_hist s1 b\<rparr>"
      by blast
    have "t = s\<lparr>ide_port := p, ide_data := d, bufs := (bufs s)(b := synced_buf s1 b)\<rparr>"
      using fl unfolding t by (simp add: s1_def synced_disk_def synced_hist_def)
    moreover have "got_buf s dev sec b (synced_buf s1 b)"
      using b None fl synced_flags [of s1 b] dev
      by (simp add: got_buf_def content_def synced_buf_def s1_def x_def Let_def)
    ultimately show "\<exists>p d y. t = s\<lparr>ide_port := p, ide_data := d, bufs := (bufs s)(b := y)\<rparr> \<and> got_buf s dev sec b y" by blast
  qed
  then show ?thesis
    using bufcache_get_miss [OF ok dev xs None f] b fl less_imp_le [of b NBUF]
    by (simp add: bufcache_read_def wp flag_tests s1_def x_def)
qed

lemma lru_cong: "(\<And>i. bnext (B' i) = bnext (B i)) \<Longrightarrow> (\<And>i. bprev (B' i) = bprev (B i)) \<Longrightarrow> lru B' xs = lru B xs"
  by (simp add: lru_def)

lemma cache_okD:
  assumes "cache_ok B D" "b < NBUF" "bdev (B b) \<noteq> no_dev"
  shows "disk_sector (B b)" "valid (B b)" "\<not> busy (B b) \<Longrightarrow> \<not> dirty (B b) \<Longrightarrow> bdata (B b) = D (bdev (B b)) (bsector (B b))"
    "c < NBUF \<Longrightarrow> bdev (B c) = bdev (B b) \<Longrightarrow> bsector (B c) = bsector (B b) \<Longrightarrow> c = b"
  using assms unfolding cache_ok_def by metis+

text \<open>Changing one buffer, and perhaps the disk.\<close>

lemma cache_ok_upd:
  assumes ok: "cache_ok B D" and y: "disk_sector y" "valid y" "\<not> busy y \<Longrightarrow> \<not> dirty y \<Longrightarrow> bdata y = D' (bdev y) (bsector y)"
    and only: "\<And>c. c < NBUF \<Longrightarrow> c \<noteq> b \<Longrightarrow> \<not> (bdev (B c) = bdev y \<and> bsector (B c) = bsector y)"
    and D: "\<And>dev sec. \<not> (dev = bdev y \<and> sec = bsector y) \<Longrightarrow> D' dev sec = D dev sec"
  shows "cache_ok (B(b := y)) D'"
  unfolding cache_ok_def
proof (intro conjI allI impI)
  fix i j assume i: "i < NBUF" "j < NBUF"
    and e: "bdev ((B(b := y)) i) \<noteq> no_dev \<and> bdev ((B(b := y)) i) = bdev ((B(b := y)) j) \<and> bsector ((B(b := y)) i) = bsector ((B(b := y)) j)"
  show "i = j"
  proof (cases "i = b \<or> j = b")
    case True
    then show ?thesis using only [OF i(1)] only [OF i(2)] e by (cases "i = b"; cases "j = b") auto
  next
    case False
    then have "bdev (B i) \<noteq> no_dev" "bdev (B j) = bdev (B i)" "bsector (B j) = bsector (B i)" using e by auto
    from cache_okD(4) [OF ok i(1) this(1) i(2) this(2,3)] show ?thesis by (rule sym)
  qed
next
  fix i assume i: "i < NBUF" "bdev ((B(b := y)) i) \<noteq> no_dev"
  show "disk_sector ((B(b := y)) i)" "valid ((B(b := y)) i)"
    using i y cache_okD(1,2) [OF ok i(1)] by (cases "i = b"; simp)+
next
  fix i assume i: "i < NBUF" "bdev ((B(b := y)) i) \<noteq> no_dev \<and> \<not> busy ((B(b := y)) i) \<and> \<not> dirty ((B(b := y)) i)"
  show "bdata ((B(b := y)) i) = D' (bdev ((B(b := y)) i)) (bsector ((B(b := y)) i))"
    using i y(3) cache_okD(3) [OF ok i(1)] D [OF only [OF i(1)]] by (cases "i = b") simp_all
qed

lemma bc_ok_read:
  assumes ok: "bc_ok s" and sec: "dev < 2" "sec < 0x10000000" and y: "got_buf s dev sec b y"
  shows "bc_ok (s\<lparr>ide_port := p, ide_data := d, bufs := (bufs s)(b := y)\<rparr>)"
proof -
  have dev: "dev \<noteq> no_dev" using sec(1) by auto
  have c: "cache_ok (bufs s) (disk s)" using ok by (simp add: bc_ok_def)
  have "cache_ok ((bufs s)(b := y)) (disk s)"
  proof (rule cache_ok_upd [OF c])
    fix c assume c': "c < NBUF" "c \<noteq> b"
    show "\<not> (bdev (bufs s c) = bdev y \<and> bsector (bufs s c) = bsector y)"
      using y c' cached_None [OF _ c'(1)] cachedI [OF c c'(1) _ _ dev]
      by (cases "cached (bufs s) dev sec") (auto simp: got_buf_def)
  qed (use y sec in \<open>auto simp: got_buf_def disk_sector_def\<close>)
  moreover have "lru ((bufs s)(b := y)) xs = lru (bufs s) xs" for xs
    using y by (intro lru_cong) (auto simp: got_buf_def)
  ultimately show ?thesis using ok by (auto simp: bc_ok_def drive_ok_def)
qed

lemma bufcache_write_wp:
  assumes ok: "bc_ok s" and b: "b < NBUF" "busy (bufs s b)" "bdev (bufs s b) \<noteq> no_dev"
  defines "x \<equiv> bufs s b"
  shows "kwp (bufcache_write b) (\<lambda>_ t. \<exists>p d y. t = s\<lparr>ide_port := p, ide_data := d, bufs := (bufs s)(b := y),
      disk := (disk s)(bdev x := (disk s (bdev x))(bsector x := bdata x)), disk_hist := disk_hist s @ [(bdev x, bsector x, bdata x)]\<rparr> \<and>
      (\<exists>f. y = x\<lparr>bflags := f, qnext := None\<rparr>) \<and> busy y \<and> valid y \<and> \<not> dirty y) s"
proof -
  define s1 where "s1 = s\<lparr>bufs := (bufs s)(b := x\<lparr>bflags := bflags x OR B_DIRTY\<rparr>)\<rparr>"
  have x: "disk_sector x" "busy x" using ok b by (auto simp: x_def bc_ok_def cache_ok_def)
  have "kwp (ide_rw b) (\<lambda>_ t. \<exists>p d y. t = s\<lparr>ide_port := p, ide_data := d, bufs := (bufs s)(b := y),
      disk := (disk s)(bdev x := (disk s (bdev x))(bsector x := bdata x)), disk_hist := disk_hist s @ [(bdev x, bsector x, bdata x)]\<rparr> \<and>
      (\<exists>f. y = x\<lparr>bflags := f, qnext := None\<rparr>) \<and> busy y \<and> valid y \<and> \<not> dirty y) s1"
  proof (rule kwp_mono [OF ide_rw_wp])
    show "drive_ok s1" "b < NBUF" "busy (bufs s1 b)" "valid (bufs s1 b) \<longrightarrow> dirty (bufs s1 b)" "disk_sector (bufs s1 b)"
      using ok b x by (simp_all add: s1_def bc_ok_def drive_ok_def disk_sector_def flag_sets')
    fix u t
    assume "\<exists>p d. t = s1\<lparr>ide_port := p, ide_data := d, bufs := (bufs s1)(b := synced_buf s1 b), disk := synced_disk s1 b, disk_hist := synced_hist s1 b\<rparr>"
    then obtain p d where t: "t = s1\<lparr>ide_port := p, ide_data := d, bufs := (bufs s1)(b := synced_buf s1 b), disk := synced_disk s1 b, disk_hist := synced_hist s1 b\<rparr>"
      by blast
    have "t = s\<lparr>ide_port := p, ide_data := d, bufs := (bufs s)(b := synced_buf s1 b),
      disk := (disk s)(bdev x := (disk s (bdev x))(bsector x := bdata x)), disk_hist := disk_hist s @ [(bdev x, bsector x, bdata x)]\<rparr>"
      unfolding t by (simp add: s1_def synced_disk_def synced_hist_def flag_sets' Let_def)
    moreover have "synced_buf s1 b = x\<lparr>bflags := (bflags x OR B_DIRTY OR B_VALID) AND NOT B_DIRTY, qnext := None\<rparr>"
      by (simp add: synced_buf_def s1_def Let_def flag_sets' or.assoc)
    ultimately show "\<exists>p d y. t = s\<lparr>ide_port := p, ide_data := d, bufs := (bufs s)(b := y),
      disk := (disk s)(bdev x := (disk s (bdev x))(bsector x := bdata x)), disk_hist := disk_hist s @ [(bdev x, bsector x, bdata x)]\<rparr> \<and>
      (\<exists>f. y = x\<lparr>bflags := f, qnext := None\<rparr>) \<and> busy y \<and> valid y \<and> \<not> dirty y"
      using synced_flags [of s1 b] x by (intro exI [of _ p] exI [of _ d] exI [of _ "synced_buf s1 b"]) (auto simp: s1_def flag_sets')
  qed
  then show ?thesis
    using x b less_imp_le [of b NBUF] by (simp add: bufcache_write_def wp flag_tests s1_def x_def)
qed

lemma bc_ok_write:
  assumes ok: "bc_ok s" and b: "b < NBUF" and x: "x = bufs s b" "y = x\<lparr>bflags := f, qnext := None\<rparr>" "busy y" "valid y"
    and only: "bdev x \<noteq> no_dev"
  shows "bc_ok (s\<lparr>ide_port := p, ide_data := d, bufs := (bufs s)(b := y),
      disk := (disk s)(bdev x := (disk s (bdev x))(bsector x := bdata x)), disk_hist := h\<rparr>)"
proof -
  have c: "cache_ok (bufs s) (disk s)" using ok by (simp add: bc_ok_def)
  have "cache_ok ((bufs s)(b := y)) ((disk s)(bdev x := (disk s (bdev x))(bsector x := bdata x)))"
  proof (rule cache_ok_upd [OF c])
    fix c assume "c < NBUF" "c \<noteq> b"
    then show "\<not> (bdev (bufs s c) = bdev y \<and> bsector (bufs s c) = bsector y)"
      using cache_okD(4) [OF c b, of c] only x by auto
  qed (use x cache_okD [OF c b] only in \<open>auto simp: disk_sector_def\<close>)
  moreover have "lru ((bufs s)(b := y)) xs = lru (bufs s) xs" for xs
    using x by (intro lru_cong) auto
  ultimately show ?thesis using ok by (auto simp: bc_ok_def drive_ok_def)
qed

text \<open>Releasing a buffer moves it to the front of the list.\<close>

definition unlinked :: "(u32 \<Rightarrow> buf) \<Rightarrow> u32 \<Rightarrow> u32 \<Rightarrow> buf" where
  "unlinked B b = (let B1 = B(bnext (B b) := (B (bnext (B b)))\<lparr>bprev := bprev (B b)\<rparr>)
     in B1(bprev (B1 b) := (B1 (bprev (B1 b)))\<lparr>bnext := bnext (B1 b)\<rparr>))"

definition pushed :: "(u32 \<Rightarrow> buf) \<Rightarrow> u32 \<Rightarrow> u32 \<Rightarrow> buf" where
  "pushed B b = (let B1 = B(b := (B b)\<lparr>bnext := bnext (B NBUF)\<rparr>); B2 = B1(b := (B1 b)\<lparr>bprev := NBUF\<rparr>);
     B3 = B2(bnext (B2 NBUF) := (B2 (bnext (B2 NBUF)))\<lparr>bprev := b\<rparr>) in B3(NBUF := (B3 NBUF)\<lparr>bnext := b\<rparr>))"

text \<open>All of a buffer but its links.\<close>

definition body :: "buf \<Rightarrow> buf" where
  "body x = x\<lparr>bprev := 0, bnext := 0, qnext := None\<rparr>"

lemma body_eqD:
  assumes "body x = body y"
  shows "bflags x = bflags y" "bdev x = bdev y" "bsector x = bsector y" "bdata x = bdata y"
  using arg_cong [OF assms, of bflags] arg_cong [OF assms, of bdev] arg_cong [OF assms, of bsector] arg_cong [OF assms, of bdata]
  by (simp_all add: body_def)

lemma body_eqI:
  "bflags x = bflags y \<Longrightarrow> bdev x = bdev y \<Longrightarrow> bsector x = bsector y \<Longrightarrow> bdata x = bdata y \<Longrightarrow> body x = body y"
  by (cases x; cases y) (simp add: body_def)

lemma body_unlinked [simp]: "body (unlinked B b i) = body (B i)"
  by (simp add: unlinked_def body_def Let_def)

lemma body_pushed [simp]: "body (pushed B b i) = body (B i)"
  by (simp add: pushed_def body_def Let_def)

lemma links_unlinked:
  assumes "bnext (B b) \<noteq> b"
  shows "(\<lambda>i. bnext (unlinked B b i)) = (\<lambda>i. bnext (B i))(bprev (B b) := bnext (B b))"
    "(\<lambda>i. bprev (unlinked B b i)) = (\<lambda>i. bprev (B i))(bnext (B b) := bprev (B b))"
  using assms by (auto simp: unlinked_def Let_def)

lemma links_pushed:
  assumes "b \<noteq> NBUF"
  shows "(\<lambda>i. bnext (pushed B b i)) = (\<lambda>i. bnext (B i))(b := bnext (B NBUF), NBUF := b)"
    "(\<lambda>i. bprev (pushed B b i)) = (\<lambda>i. bprev (B i))(b := NBUF, bnext (B NBUF) := b)"
  using assms by (auto simp: pushed_def Let_def)

lemma lru_front:
  assumes lru: "lru B xs" and b: "b < NBUF"
  shows "lru (pushed (unlinked B b) b) (b # remove1 b xs)"
proof -
  let ?N = "\<lambda>i. bnext (B i)" and ?P = "\<lambda>i. bprev (B i)"
  have xs: "chain ?N ?P NBUF xs NBUF" "distinct xs" "set xs = {b. b < NBUF}" using lru by (auto simp: lru_def)
  then obtain us vs where e: "xs = us @ b # vs" using b by (metis mem_Collect_eq split_list)
  have r: "remove1 b xs = us @ vs" using xs(2) by (simp add: e remove1_append)
  have nb: "NBUF \<notin> set xs" "b \<noteq> NBUF" using xs(3) b by auto
  have "?N b = hd (vs @ [NBUF])" using chain_next [of ?N ?P b vs NBUF] xs(1) by (simp add: e chain_append)
  then have n: "?N b \<noteq> b" using xs(2) nb e by (cases vs) auto
  have "chain (?N(?P b := ?N b)) (?P(?N b := ?P b)) NBUF (us @ vs) NBUF"
    using xs nb by (intro chain_unlink) (simp_all add: e)
  then have "chain (\<lambda>i. bnext (unlinked B b i)) (\<lambda>i. bprev (unlinked B b i)) NBUF (us @ vs) NBUF"
    unfolding links_unlinked [of B b, OF n] .
  then have "chain (\<lambda>i. bnext (pushed (unlinked B b) b i)) (\<lambda>i. bprev (pushed (unlinked B b) b i)) NBUF (b # us @ vs) NBUF"
    unfolding links_pushed [of b, OF nb(2)] by (rule chain_push) (use xs nb in \<open>auto simp: e\<close>)
  then show ?thesis using xs unfolding r by (auto simp: lru_def e)
qed

lemma lru_neighbours:
  assumes lru: "lru B xs" and b: "b < NBUF"
  shows "bnext (B b) \<le> NBUF" "bprev (B b) \<le> NBUF" "bnext (B b) \<noteq> b" "bprev (B b) \<noteq> b" "bnext (unlinked B b NBUF) \<le> NBUF"
proof -
  let ?N = "\<lambda>i. bnext (B i)" and ?P = "\<lambda>i. bprev (B i)"
  have xs: "chain ?N ?P NBUF xs NBUF" "distinct xs" "set xs = {b. b < NBUF}" using lru by (auto simp: lru_def)
  then obtain us vs where e: "xs = us @ b # vs" using b by (metis mem_Collect_eq split_list)
  have i: "\<And>i. i \<in> set xs \<Longrightarrow> i \<le> NBUF" "NBUF \<notin> set xs" using xs(3) by auto
  have n: "?N b = hd (vs @ [NBUF])" "?P b = last (NBUF # us)"
    using chain_next [of ?N ?P b vs NBUF] chain_prev [of ?N ?P NBUF us b] xs(1) by (simp_all add: e chain_append)
  show m: "?N b \<le> NBUF" using n(1) i by (cases vs) (auto simp: e)
  show m2: "?N b \<noteq> b" using n(1) i(2) xs(2) by (cases vs) (auto simp: e)
  show "?P b \<le> NBUF" using n(2) i by (cases us rule: rev_cases) (auto simp: e)
  show "?P b \<noteq> b" using n(2) i(2) xs(2) by (cases us rule: rev_cases) (auto simp: e)
  have "?N NBUF = hd (xs @ [NBUF])" using chain_next [OF xs(1)] by simp
  then have "?N NBUF \<le> NBUF" using i by (cases xs) auto
  then show "bnext (unlinked B b NBUF) \<le> NBUF"
    using m fun_cong [OF links_unlinked(1) [of B b, OF m2], of NBUF] by simp
qed

lemma cache_ok_body:
  assumes "\<And>i. body (B' i) = body (B i)" "cache_ok B D"
  shows "cache_ok B' D"
  using assms(2) unfolding cache_ok_def disk_sector_def body_eqD [OF assms(1)] .

lemma bufcache_release_wp:
  assumes ok: "bc_ok s" and b: "b < NBUF" "busy (bufs s b)" "bdev (bufs s b) \<noteq> no_dev"
    and clean: "dirty (bufs s b) \<or> bdata (bufs s b) = disk s (bdev (bufs s b)) (bsector (bufs s b))"
  shows "kwp (bufcache_release b) (\<lambda>_ t. \<exists>B. t = s\<lparr>bufs := B\<rparr> \<and> bc_ok t \<and>
      (\<forall>i. body (B i) = body (((bufs s)(b := (bufs s b)\<lparr>bflags := bflags (bufs s b) AND NOT B_BUSY\<rparr>)) i)) \<and>
      (\<forall>xs. lru (bufs s) xs \<longrightarrow> lru B (b # remove1 b xs))) s"
proof -
  define B where "B = pushed (unlinked (bufs s) b) b"
  define B' where "B' = B(b := (B b)\<lparr>bflags := bflags (B b) AND NOT B_BUSY\<rparr>)"
  have run: "kwp (bufcache_release b) Q s = Q () (s\<lparr>bufs := B'\<rparr>)" for Q
  proof -
    obtain xs where xs: "lru (bufs s) xs" using ok by (auto simp: bc_ok_def)
    note l = lru_neighbours [OF xs b(1)]
    have nb: "b \<noteq> NBUF" "b \<le> NBUF" using b(1) by auto
    have u: "((bufs s)(bnext (bufs s b) := y)) b = bufs s b" for y using l(3) by simp
    have p: "((unlinked (bufs s) b)(b := y)) NBUF = unlinked (bufs s) b NBUF" for y using nb by simp
    have l5: "bnext (unlinked (bufs s) b NBUF) \<le> NBUF" by (rule l(5))
    note un = unlinked_def [of "bufs s" b, unfolded Let_def u, symmetric]
    show ?thesis
      using ok b l(1,2) l5 nb unfolding B'_def B_def pushed_def Let_def
      by (simp add: bufcache_release_def wp bc_ok_def drive_ok_def calmD flag_tests kwp_wakeup_calm bcache_lk_restore u un p
          del: fun_upd_apply)
  qed
  have body: "body (B' i) = body (((bufs s)(b := (bufs s b)\<lparr>bflags := bflags (bufs s b) AND NOT B_BUSY\<rparr>)) i)" for i
  proof (cases "i = b")
    case True
    have "body (B b) = body (bufs s b)" by (simp add: B_def)
    from body_eqD [OF this] True show ?thesis by (intro body_eqI) (simp_all add: B'_def)
  qed (simp add: B'_def B_def)
  have lru: "lru (bufs s) xs \<Longrightarrow> lru B' (b # remove1 b xs)" for xs
    using lru_front [OF _ b(1), of "bufs s" xs] lru_cong [of B' B] by (auto simp: B'_def B_def)
  let ?y = "(bufs s b)\<lparr>bflags := bflags (bufs s b) AND NOT B_BUSY\<rparr>"
  have c: "cache_ok (bufs s) (disk s)" using ok by (simp add: bc_ok_def)
  have "cache_ok ((bufs s)(b := ?y)) (disk s)"
  proof (rule cache_ok_upd [OF c])
    fix c assume "c < NBUF" "c \<noteq> b"
    then show "\<not> (bdev (bufs s c) = bdev ?y \<and> bsector (bufs s c) = bsector ?y)"
      using cache_okD(4) [OF c b(1) b(3), of c] by auto
  qed (use cache_okD [OF c b(1) b(3)] clean in \<open>auto simp: disk_sector_def flag_sets'\<close>)
  then have "cache_ok B' (disk s)" using cache_ok_body [of B' "(bufs s)(b := ?y)"] body by blast
  then have "bc_ok (s\<lparr>bufs := B'\<rparr>)"
    using ok lru by (auto simp: bc_ok_def drive_ok_def)
  then show ?thesis using run body lru by blast
qed

section \<open>The operations as their clients see them\<close>

definition hold :: "'a fs_buf_scheme \<Rightarrow> u32 \<Rightarrow> u32 \<Rightarrow> u32 \<Rightarrow> bool" where
  "hold s b dev sec \<longleftrightarrow> b < NBUF \<and> bdev (bufs s b) = dev \<and> bsector (bufs s b) = sec \<and> busy (bufs s b) \<and> dev \<noteq> no_dev"

text \<open>A step of the cache changes nothing outside the cache and the drive; \<open>bop b\<close> is one that touches only \<open>b\<close>.\<close>

definition frame :: "'a fs_buf_scheme \<Rightarrow> 'a fs_buf_scheme \<Rightarrow> bool" where
  "frame s t \<longleftrightarrow> (\<exists>p d B D H. t = s\<lparr>ide_port := p, ide_data := d, bufs := B, disk := D, disk_hist := H\<rparr>)"

definition bop :: "u32 \<Rightarrow> 'a fs_buf_scheme \<Rightarrow> 'a fs_buf_scheme \<Rightarrow> bool" where
  "bop b s t \<longleftrightarrow> frame s t \<and> bc_ok t \<and>
     (\<forall>c. c \<noteq> b \<longrightarrow> body (bufs t c) = body (bufs s c))"

lemma content_cached:
  "bc_ok s \<Longrightarrow> b < NBUF \<Longrightarrow> bdev (bufs s b) = dev \<Longrightarrow> bsector (bufs s b) = sec \<Longrightarrow> dev \<noteq> no_dev \<Longrightarrow>
   content s dev sec = bdata (bufs s b)"
  using cachedI [of "bufs s" "disk s" b dev sec] by (simp add: content_def bc_ok_def)

lemma content_uncached:
  "(\<And>b. b < NBUF \<Longrightarrow> \<not> (bdev (bufs s b) = dev \<and> bsector (bufs s b) = sec)) \<Longrightarrow> content s dev sec = disk s dev sec"
  using cached_Some [of "bufs s" dev sec] by (cases "cached (bufs s) dev sec") (auto simp: content_def)

lemma content_hold: "bc_ok s \<Longrightarrow> hold s b dev sec \<Longrightarrow> content s dev sec = bdata (bufs s b)"
  by (simp add: hold_def content_cached)

lemma content_clean:
  "bc_ok s \<Longrightarrow> b < NBUF \<Longrightarrow> \<not> busy (bufs s b) \<Longrightarrow> \<not> dirty (bufs s b) \<Longrightarrow>
   content s (bdev (bufs s b)) (bsector (bufs s b)) = disk s (bdev (bufs s b)) (bsector (bufs s b))"
  using content_cached [of s b] cache_okD(3) [of "bufs s" "disk s" b]
  by (cases "bdev (bufs s b) = no_dev") (simp_all add: bc_ok_def content_def)

text \<open>The same buffers up to the links and to the content of \<open>b\<close>.\<close>

lemma content_same:
  assumes "bc_ok s" "bc_ok t"
    and D: "\<And>dev sec. (\<forall>c<NBUF. \<not> (bdev (bufs s c) = dev \<and> bsector (bufs s c) = sec)) \<or> dev = no_dev \<Longrightarrow> disk t dev sec = disk s dev sec"
    and B: "\<And>c. c < NBUF \<Longrightarrow> bdev (bufs t c) = bdev (bufs s c) \<and> bsector (bufs t c) = bsector (bufs s c) \<and> bdata (bufs t c) = bdata (bufs s c)"
  shows "content t = content s"
proof (rule ext, rule ext)
  fix dev sec
  show "content t dev sec = content s dev sec"
  proof (cases "dev \<noteq> no_dev \<and> (\<exists>b<NBUF. bdev (bufs s b) = dev \<and> bsector (bufs s b) = sec)")
    case True
    then obtain b where "b < NBUF" "bdev (bufs s b) = dev" "bsector (bufs s b) = sec" "dev \<noteq> no_dev" by auto
    then show ?thesis using content_cached [OF assms(1), of b] content_cached [OF assms(2), of b] B [of b] by auto
  next
    case False
    then have "dev = no_dev \<or> content t dev sec = disk t dev sec \<and> content s dev sec = disk s dev sec"
      using content_uncached [of t dev sec] content_uncached [of s dev sec] B by auto
    then show ?thesis using D [of dev sec] False by (auto simp: content_def)
  qed
qed

lemma content_read:
  assumes ok: "bc_ok s" and t: "bc_ok t" "t = s\<lparr>ide_port := p, ide_data := d, bufs := (bufs s)(b := y)\<rparr>"
    and y: "got_buf s dev sec b y" and dev: "dev \<noteq> no_dev"
  shows "content t = content s"
proof (cases "cached (bufs s) dev sec")
  case (Some c)
  show ?thesis
    by (rule content_same [OF ok t(1)])
      (use t(2) y dev Some cached_Some [OF Some] content_cached [OF ok, of b dev sec] in \<open>auto simp: got_buf_def\<close>)
next
  case None
  have b: "b < NBUF" "\<not> busy (bufs s b)" "\<not> dirty (bufs s b)" using y None by (auto simp: got_buf_def)
  have new: "bdev (bufs t b) = dev" "bsector (bufs t b) = sec" "bdata (bufs t b) = content s dev sec"
    using y by (simp_all add: t(2) got_buf_def)
  have other: "bufs t c = bufs s c" if "c \<noteq> b" for c using that by (simp add: t(2))
  show ?thesis
  proof (rule ext, rule ext)
    fix dv sc
    show "content t dv sc = content s dv sc"
    proof (cases "(dv = dev \<and> sc = sec) \<or> dv = no_dev")
      case True
      then show ?thesis using content_cached [OF t(1) b(1) new(1,2) dev] new(3) dev t(2) by (auto simp: content_def)
    next
      case False
      show ?thesis
      proof (cases "\<exists>c<NBUF. c \<noteq> b \<and> bdev (bufs s c) = dv \<and> bsector (bufs s c) = sc")
        case True
        then obtain c where c: "c < NBUF" "c \<noteq> b" "bdev (bufs s c) = dv" "bsector (bufs s c) = sc" by auto
        then show ?thesis
          using content_cached [OF ok, of c] content_cached [OF t(1), of c] other [of c] False by auto
      next
        case no: False
        have "content t dv sc = disk t dv sc"
          by (rule content_uncached) (use no other new False in \<open>metis\<close>)
        moreover have "content s dv sc = disk s dv sc"
        proof (cases "bdev (bufs s b) = dv \<and> bsector (bufs s b) = sc")
          case True
          then show ?thesis using content_clean [OF ok b] by simp
        next
          case False
          then show ?thesis by (intro content_uncached) (use no in \<open>metis\<close>)
        qed
        ultimately show ?thesis by (simp add: t(2))
      qed
    qed
  qed
qed

lemma frame_refl [simp]: "frame s s"
  unfolding frame_def
  by (intro exI [of _ "ide_port s"] exI [of _ "ide_data s"] exI [of _ "bufs s"] exI [of _ "disk s"] exI [of _ "disk_hist s"]) simp

lemma frameI: "frame s (s\<lparr>ide_port := p, ide_data := d, bufs := B, disk := D, disk_hist := H\<rparr>)"
  unfolding frame_def by blast

lemma frame_bufs: "frame s (s\<lparr>bufs := B\<rparr>)"
  using frameI [where s = s and p = "ide_port s" and d = "ide_data s" and B = B and D = "disk s" and H = "disk_hist s"] by simp

lemma frame_trans: "frame s t \<Longrightarrow> frame t u \<Longrightarrow> frame s u"
  unfolding frame_def by (elim exE) (simp, blast)

lemma bopD:
  assumes "bop b s t"
  shows "frame s t" "bc_ok t" "\<And>c. c \<noteq> b \<Longrightarrow> bflags (bufs t c) = bflags (bufs s c)"
    "\<And>c. c \<noteq> b \<Longrightarrow> bdev (bufs t c) = bdev (bufs s c)" "\<And>c. c \<noteq> b \<Longrightarrow> bsector (bufs t c) = bsector (bufs s c)"
    "\<And>c. c \<noteq> b \<Longrightarrow> bdata (bufs t c) = bdata (bufs s c)"
    "\<And>c. c \<noteq> b \<Longrightarrow> hold t c dev sec = hold s c dev sec"
proof -
  show "frame s t" "bc_ok t" using assms by (simp_all add: bop_def)
  fix c assume "c \<noteq> b"
  then have "body (bufs t c) = body (bufs s c)" using assms by (simp add: bop_def)
  from body_eqD [OF this]
  show "bflags (bufs t c) = bflags (bufs s c)" "bdev (bufs t c) = bdev (bufs s c)" "bsector (bufs t c) = bsector (bufs s c)"
    "bdata (bufs t c) = bdata (bufs s c)" "hold t c dev sec = hold s c dev sec"
    by (simp_all add: hold_def)
qed

lemma read_seq:
  assumes ok: "bc_ok s" and sec: "dev < 2" "sec < 0x10000000" and av: "available (bufs s) dev sec"
  shows "kwp (bufcache_read dev sec) (\<lambda>b t. bop b s t \<and> hold t b dev sec \<and> content t = content s \<and> disk t = disk s \<and>
     disk_hist t = disk_hist s \<and> \<not> busy (bufs s b) \<and> (dirty (bufs t b) \<longrightarrow> dirty (bufs s b)) \<and>
     (dirty (bufs t b) \<or> content s dev sec = disk s dev sec)) s"
proof (rule kwp_mono [OF bufcache_read_wp [OF ok sec av]])
  fix b t
  assume "\<exists>p d y. t = s\<lparr>ide_port := p, ide_data := d, bufs := (bufs s)(b := y)\<rparr> \<and> got_buf s dev sec b y"
  then obtain p d y where t: "t = s\<lparr>ide_port := p, ide_data := d, bufs := (bufs s)(b := y)\<rparr>" and y: "got_buf s dev sec b y" by blast
  have dev: "dev \<noteq> no_dev" using sec(1) by auto
  have okt: "bc_ok t" unfolding t by (rule bc_ok_read [OF ok sec y])
  have "frame s t" using frameI [where s = s and p = p and d = d and B = "(bufs s)(b := y)" and D = "disk s" and H = "disk_hist s"] by (simp add: t)
  moreover have "\<not> busy (bufs s b)"
    using av y cached_Some [of "bufs s" dev sec] by (cases "cached (bufs s) dev sec") (auto simp: available_def got_buf_def)
  moreover have "dirty (bufs t b) \<or> content s dev sec = disk s dev sec"
  proof (cases "cached (bufs s) dev sec")
    case None
    then show ?thesis using content_uncached [of s dev sec] cached_None [OF None] by blast
  next
    case (Some c)
    then show ?thesis using y cached_Some [OF Some] content_clean [OF ok, of b] calculation(2) by (auto simp: got_buf_def t)
  qed
  ultimately show "bop b s t \<and> hold t b dev sec \<and> content t = content s \<and> disk t = disk s \<and>
     disk_hist t = disk_hist s \<and> \<not> busy (bufs s b) \<and> (dirty (bufs t b) \<longrightarrow> dirty (bufs s b)) \<and>
     (dirty (bufs t b) \<or> content s dev sec = disk s dev sec)"
    using okt content_read [OF ok okt t y dev] y dev by (auto simp: bop_def hold_def got_buf_def t)
qed

definition blk_write :: "(u32 \<Rightarrow> u32 \<Rightarrow> block) \<Rightarrow> u32 \<Rightarrow> u32 \<Rightarrow> block \<Rightarrow> u32 \<Rightarrow> u32 \<Rightarrow> block" where
  "blk_write D dev sec x = D(dev := (D dev)(sec := x))"

lemma blk_write_apply: "blk_write D dev sec x dv sc = (if dv = dev \<and> sc = sec then x else D dv sc)"
  by (simp add: blk_write_def)

lemma upd_seq:
  assumes ok: "bc_ok s" and h: "hold s b dev sec"
  shows "kwp (buf_upd b (\<lambda>x. x\<lparr>bdata := f x\<rparr>)) (\<lambda>_ t. bop b s t \<and> hold t b dev sec \<and> content t = blk_write (content s) dev sec (f (bufs s b)) \<and>
     disk t = disk s \<and> disk_hist t = disk_hist s \<and> bflags (bufs t b) = bflags (bufs s b)) s"
proof -
  define t where "t = s\<lparr>bufs := (bufs s)(b := (bufs s b)\<lparr>bdata := f (bufs s b)\<rparr>)\<rparr>"
  have b: "b < NBUF" "bdev (bufs s b) = dev" "bsector (bufs s b) = sec" "busy (bufs s b)" "dev \<noteq> no_dev"
    using h by (auto simp: hold_def)
  have c: "cache_ok (bufs s) (disk s)" using ok by (simp add: bc_ok_def)
  let ?y = "(bufs s b)\<lparr>bdata := f (bufs s b)\<rparr>"
  have nd: "bdev (bufs s b) \<noteq> no_dev" using b by simp
  have "cache_ok ((bufs s)(b := ?y)) (disk s)"
  proof (rule cache_ok_upd [OF c])
    fix c assume "c < NBUF" "c \<noteq> b"
    then show "\<not> (bdev (bufs s c) = bdev ?y \<and> bsector (bufs s c) = bsector ?y)"
      using cache_okD(4) [OF c b(1) nd, of c] by auto
  qed (use cache_okD(1,2) [OF c b(1) nd] b(4) in \<open>simp_all add: disk_sector_def\<close>)
  then have "cache_ok (bufs t) (disk t)" by (simp add: t_def)
  moreover have "lru (bufs t) xs = lru (bufs s) xs" for xs by (rule lru_cong) (simp_all add: t_def)
  ultimately have okt: "bc_ok t" using ok by (simp add: bc_ok_def drive_ok_def t_def)
  have "content t dv sc = blk_write (content s) dev sec (f (bufs s b)) dv sc" for dv sc
  proof (cases "dv = dev \<and> sc = sec")
    case True
    then show ?thesis using content_cached [OF okt b(1)] b by (simp add: blk_write_apply t_def)
  next
    case False
    have "cached (bufs t) dv sc = cached (bufs s) dv sc" unfolding cached_def t_def
      by (rule arg_cong [where f = "\<lambda>P. find P buf_ids"]) (auto simp: fun_eq_iff)
    moreover have "cached (bufs s) dv sc \<noteq> Some b" using False cached_Some [of "bufs s" dv sc b] b by auto
    ultimately show ?thesis using False
      by (auto simp: content_def blk_write_apply t_def split: option.splits)
  qed
  then have "content t = blk_write (content s) dev sec (f (bufs s b))" by (rule ext [OF ext])
  then show ?thesis
    using okt b frame_bufs [of s "bufs t"] by (auto simp: wp t_def bop_def hold_def less_imp_le)
qed

lemma write_seq:
  assumes ok: "bc_ok s" and h: "hold s b dev sec"
  shows "kwp (bufcache_write b) (\<lambda>_ t. bop b s t \<and> hold t b dev sec \<and> content t = content s \<and>
     disk t = blk_write (disk s) dev sec (content s dev sec) \<and> disk_hist t = disk_hist s @ [(dev, sec, content s dev sec)] \<and>
     \<not> dirty (bufs t b)) s"
proof -
  have b: "b < NBUF" "busy (bufs s b)" "bdev (bufs s b) \<noteq> no_dev" and id: "bdev (bufs s b) = dev" "bsector (bufs s b) = sec"
    using h by (auto simp: hold_def)
  have x: "content s dev sec = bdata (bufs s b)" by (rule content_hold [OF ok h])
  show ?thesis
  proof (rule kwp_mono [OF bufcache_write_wp [OF ok b]])
    fix u t
    assume "\<exists>p d y. t = s\<lparr>ide_port := p, ide_data := d, bufs := (bufs s)(b := y),
        disk := (disk s)(bdev (bufs s b) := (disk s (bdev (bufs s b)))(bsector (bufs s b) := bdata (bufs s b))),
        disk_hist := disk_hist s @ [(bdev (bufs s b), bsector (bufs s b), bdata (bufs s b))]\<rparr> \<and>
      (\<exists>f. y = (bufs s b)\<lparr>bflags := f, qnext := None\<rparr>) \<and> busy y \<and> valid y \<and> \<not> dirty y"
    then obtain p d y f where t: "t = s\<lparr>ide_port := p, ide_data := d, bufs := (bufs s)(b := y),
        disk := (disk s)(bdev (bufs s b) := (disk s (bdev (bufs s b)))(bsector (bufs s b) := bdata (bufs s b))),
        disk_hist := disk_hist s @ [(bdev (bufs s b), bsector (bufs s b), bdata (bufs s b))]\<rparr>"
      and y: "y = (bufs s b)\<lparr>bflags := f, qnext := None\<rparr>" "busy y" "valid y" "\<not> dirty y" by blast
    have okt: "bc_ok t" unfolding t by (rule bc_ok_write [OF ok b(1) refl y(1-3) b(3)])
    have "frame s t" unfolding t by (rule frameI)
    moreover have "content t = content s"
      by (rule content_same [OF ok okt]) (use b(1,3) y(1) in \<open>auto simp: t\<close>)
    ultimately show "bop b s t \<and> hold t b dev sec \<and> content t = content s \<and>
     disk t = blk_write (disk s) dev sec (content s dev sec) \<and> disk_hist t = disk_hist s @ [(dev, sec, content s dev sec)] \<and>
     \<not> dirty (bufs t b)"
      using okt b id y x by (auto simp: bop_def hold_def t blk_write_def)
  qed
qed

lemma release_seq:
  assumes ok: "bc_ok s" and h: "hold s b dev sec" and clean: "dirty (bufs s b) \<or> content s dev sec = disk s dev sec"
  shows "kwp (bufcache_release b) (\<lambda>_ t. bop b s t \<and> content t = content s \<and> disk t = disk s \<and> disk_hist t = disk_hist s \<and>
     \<not> busy (bufs t b) \<and> dirty (bufs t b) = dirty (bufs s b) \<and> bdev (bufs t b) = dev \<and> bsector (bufs t b) = sec) s"
proof -
  have b: "b < NBUF" "busy (bufs s b)" "bdev (bufs s b) \<noteq> no_dev" and id: "bdev (bufs s b) = dev" "bsector (bufs s b) = sec"
    using h by (auto simp: hold_def)
  have c: "dirty (bufs s b) \<or> bdata (bufs s b) = disk s (bdev (bufs s b)) (bsector (bufs s b))"
    using clean content_hold [OF ok h] id by auto
  show ?thesis
  proof (rule kwp_mono [OF bufcache_release_wp [OF ok b c]])
    fix u t
    assume "\<exists>B. t = s\<lparr>bufs := B\<rparr> \<and> bc_ok t \<and>
      (\<forall>i. body (B i) = body (((bufs s)(b := (bufs s b)\<lparr>bflags := bflags (bufs s b) AND NOT B_BUSY\<rparr>)) i)) \<and>
      (\<forall>xs. lru (bufs s) xs \<longrightarrow> lru B (b # remove1 b xs))"
    then obtain B where t: "t = s\<lparr>bufs := B\<rparr>" and okt: "bc_ok t"
      and B: "\<And>i. body (B i) = body (((bufs s)(b := (bufs s b)\<lparr>bflags := bflags (bufs s b) AND NOT B_BUSY\<rparr>)) i)" by blast
    have id': "bdev (B i) = bdev (bufs s i)" "bsector (B i) = bsector (bufs s i)" "bdata (B i) = bdata (bufs s i)" for i
      using body_eqD [OF B [of i]] by (auto split: if_splits)
    have "content t = content s" by (rule content_same [OF ok okt]) (simp_all add: t id')
    moreover have "bflags (B b) = bflags (bufs s b) AND NOT B_BUSY" using body_eqD(1) [OF B [of b]] by simp
    moreover have "body (B i) = body (bufs s i)" if "i \<noteq> b" for i using B [of i] that by simp
    ultimately show "bop b s t \<and> content t = content s \<and> disk t = disk s \<and> disk_hist t = disk_hist s \<and>
     \<not> busy (bufs t b) \<and> dirty (bufs t b) = dirty (bufs s b) \<and> bdev (bufs t b) = dev \<and> bsector (bufs t b) = sec"
      using okt frame_bufs [of s B] id by (auto simp: bop_def t flag_sets' id')
  qed
qed

text \<open>Nobody holds a buffer, and at least two are clean: a client can hold two at a time.\<close>

definition quiet :: "'a fs_buf_scheme \<Rightarrow> bool" where
  "quiet s \<longleftrightarrow> bc_ok s \<and> (\<forall>b<NBUF. \<not> busy (bufs s b))"

definition roomy :: "(u32 \<Rightarrow> buf) \<Rightarrow> bool" where
  "roomy B \<longleftrightarrow> (\<exists>a b. a \<noteq> b \<and> a < NBUF \<and> b < NBUF \<and> \<not> dirty (B a) \<and> \<not> dirty (B b))"

lemma quiet_available: "quiet s \<Longrightarrow> roomy (bufs s) \<Longrightarrow> available (bufs s) dev sec"
  using cached_Some [of "bufs s" dev sec] unfolding quiet_def roomy_def available_def
  by (auto split: option.splits)

lemma second_available:
  assumes "quiet s" "roomy (bufs s)" "bop b s t" "hold t b dev sec" "dirty (bufs t b) \<longrightarrow> dirty (bufs s b)" "\<not> (dev' = dev \<and> sec' = sec)"
  shows "available (bufs t) dev' sec'"
proof (cases "cached (bufs t) dev' sec'")
  case None
  obtain a where "a \<noteq> b" "a < NBUF" "\<not> dirty (bufs s a)" using assms(2) unfolding roomy_def by metis
  then have "\<not> dirty (bufs t a)" "\<not> busy (bufs t a)" "a < NBUF"
    using bopD(3) [OF assms(3), of a] assms(1) by (auto simp: quiet_def)
  then show ?thesis using None by (auto simp: available_def)
next
  case (Some c)
  then have "c < NBUF" "c \<noteq> b" using cached_Some [OF Some] assms(4,6) by (auto simp: hold_def)
  then show ?thesis using Some bopD(3) [OF assms(3), of c] assms(1) by (auto simp: available_def quiet_def)
qed

lemma roomy_mono: "roomy B \<Longrightarrow> (\<And>c. c < NBUF \<Longrightarrow> dirty (B' c) \<Longrightarrow> dirty (B c)) \<Longrightarrow> roomy B'"
  unfolding roomy_def by blast

section \<open>Steps from quiet to quiet\<close>

lemma blk_write_twice [simp]: "blk_write (blk_write D dev sec x) dev sec y = blk_write D dev sec y"
  by (simp add: blk_write_def)

lemma blk_write_same [simp]: "blk_write D dev sec (D dev sec) = D"
  by (simp add: blk_write_def)

definition writes :: "(u32 \<times> u32 \<times> block) list \<Rightarrow> (u32 \<Rightarrow> u32 \<Rightarrow> block) \<Rightarrow> u32 \<Rightarrow> u32 \<Rightarrow> block" where
  "writes W D = fold (\<lambda>(dev, sec, x) D. blk_write D dev sec x) W D"

lemma writes_simps [simp]: "writes [] D = D" "writes ((dev, sec, x) # W) D = writes W (blk_write D dev sec x)"
  "writes (W @ V) D = writes V (writes W D)"
  by (simp_all add: writes_def)

text \<open>From quiet to quiet, with the sector writes \<open>W\<close> performed in this order.\<close>

definition qstep :: "(u32 \<times> u32 \<times> block) list \<Rightarrow> 'a fs_buf_scheme \<Rightarrow> 'a fs_buf_scheme \<Rightarrow> bool" where
  "qstep W s t \<longleftrightarrow> frame s t \<and> quiet t \<and> (\<forall>c<NBUF. dirty (bufs t c) \<longrightarrow> dirty (bufs s c)) \<and>
     content t = writes W (content s) \<and> disk t = writes W (disk s) \<and> disk_hist t = disk_hist s @ W"

lemma qstep_refl: "quiet s \<Longrightarrow> qstep [] s s"
  by (simp add: qstep_def)

lemma qstep_trans: "qstep W s t \<Longrightarrow> qstep V t u \<Longrightarrow> qstep (W @ V) s u"
  by (auto simp: qstep_def intro: frame_trans)

lemma qstep_roomy: "qstep W s t \<Longrightarrow> roomy (bufs s) \<Longrightarrow> roomy (bufs t)"
  by (auto simp: qstep_def intro: roomy_mono)

lemma bop_trans: "bop b s t \<Longrightarrow> bop b t u \<Longrightarrow> bop b s u"
  by (auto simp: bop_def intro: frame_trans)

lemma bop_quiet: "quiet s \<Longrightarrow> bop b s t \<Longrightarrow> \<not> busy (bufs t b) \<Longrightarrow> quiet t"
  using bopD(2,3) [of b s t] unfolding quiet_def by metis

lemma flush_seq:
  assumes s: "quiet s" and t: "bop b s t" "hold t b dev sec" "content t = blk_write (content s) dev sec x" "disk t = disk s"
    "disk_hist t = disk_hist s"
  shows "kwp (kthen (bufcache_write b) (bufcache_release b)) (\<lambda>_ u. qstep [(dev, sec, x)] s u) t"
proof (rule kwp_kthenI [OF write_seq [OF bopD(2) [OF t(1)] t(2)]])
  have x: "content t dev sec = x" by (simp add: t(3) blk_write_apply)
  fix u v
  assume v: "bop b t v \<and> hold v b dev sec \<and> content v = content t \<and> disk v = blk_write (disk t) dev sec (content t dev sec) \<and>
    disk_hist v = disk_hist t @ [(dev, sec, content t dev sec)] \<and> \<not> dirty (bufs v b)"
  then have c: "content v dev sec = disk v dev sec" by (simp add: blk_write_apply)
  show "kwp (bufcache_release b) (\<lambda>_ u. qstep [(dev, sec, x)] s u) v"
  proof (rule kwp_mono [OF release_seq [where dev = dev and sec = sec]])
    show "bc_ok v" "hold v b dev sec" "dirty (bufs v b) \<or> content v dev sec = disk v dev sec"
      using v c bopD(2) [of b t v] by simp_all
    fix y w
    assume w: "bop b v w \<and> content w = content v \<and> disk w = disk v \<and> disk_hist w = disk_hist v \<and>
      \<not> busy (bufs w b) \<and> dirty (bufs w b) = dirty (bufs v b) \<and> bdev (bufs w b) = dev \<and> bsector (bufs w b) = sec"
    have sw: "bop b s w" using t(1) v w bop_trans by blast
    have "quiet w" using bop_quiet [OF s sw] w by simp
    moreover have "dirty (bufs s c)" if "dirty (bufs w c)" for c
      using that bopD(3) [OF sw, of c] v w by (cases "c = b") auto
    ultimately show "qstep [(dev, sec, x)] s w"
      using bopD(1) [OF sw] v w t x by (auto simp: qstep_def)
  qed
qed

text \<open>A store into a held buffer, on top of what was stored before.\<close>

lemma store_seq:
  assumes s: "bop b s t" "hold t b dev sec" "content t = blk_write (content s) dev sec d" "disk t = disk s" "disk_hist t = disk_hist s"
  shows "kwp (buf_upd b (\<lambda>x. x\<lparr>bdata := f (bdata x)\<rparr>)) (\<lambda>_ u. bop b s u \<and> hold u b dev sec \<and> content u = blk_write (content s) dev sec (f d) \<and>
     disk u = disk s \<and> disk_hist u = disk_hist s) t"
proof (rule kwp_mono [OF upd_seq [OF bopD(2) [OF s(1)] s(2), of "\<lambda>x. f (bdata x)"]])
  have d: "bdata (bufs t b) = d" using content_hold [OF bopD(2) [OF s(1)] s(2)] by (simp add: s(3) blk_write_apply)
  fix y u
  assume "bop b t u \<and> hold u b dev sec \<and> content u = blk_write (content t) dev sec (f (bdata (bufs t b))) \<and>
     disk u = disk t \<and> disk_hist u = disk_hist t \<and> bflags (bufs u b) = bflags (bufs t b)"
  then show "bop b s u \<and> hold u b dev sec \<and> content u = blk_write (content s) dev sec (f d) \<and>
     disk u = disk s \<and> disk_hist u = disk_hist s"
    using s d by (auto intro: bop_trans)
qed


section \<open>Initialisation\<close>

definition init_push :: "u32 \<Rightarrow> (u32 \<Rightarrow> buf) \<Rightarrow> u32 \<Rightarrow> buf" where
  "init_push b B = (let n = bnext (B NBUF);
                     B1 = B(b := (B b)\<lparr>bnext := n, bprev := NBUF, bdev := no_dev\<rparr>);
                     B2 = B1(n := (B1 n)\<lparr>bprev := b\<rparr>)
                 in B2(NBUF := (B2 NBUF)\<lparr>bnext := b\<rparr>))"

lemma kwp_bufcache_init_buf:
  "b < NBUF \<Longrightarrow> bnext (bufs s NBUF) \<le> NBUF \<Longrightarrow> kwp (bufcache_init_buf b) Q s = Q () (s\<lparr>bufs := init_push b (bufs s)\<rparr>)"
  by (simp add: bufcache_init_buf_def init_push_def Let_def wp kwp_buf_get kwp_buf_upd less_imp_le)

lemma init_push_fields:
  assumes "b < NBUF"
  shows "bnext (init_push b B i) = ((\<lambda>i. bnext (B i))(b := bnext (B NBUF), NBUF := b)) i"
    "bnext (B NBUF) \<noteq> b \<Longrightarrow> bprev (init_push b B i) = ((\<lambda>i. bprev (B i))(b := NBUF, bnext (B NBUF) := b)) i"
    "bdev (init_push b B i) = (if i = b then no_dev else bdev (B i))" "bflags (init_push b B i) = bflags (B i)"
  using assms by (auto simp: init_push_def Let_def)

definition linked :: "(u32 \<Rightarrow> buf) \<Rightarrow> nat \<Rightarrow> bool" where
  "linked B k \<longleftrightarrow> chain (\<lambda>i. bnext (B i)) (\<lambda>i. bprev (B i)) NBUF (rev (map of_nat [0..<k])) NBUF \<and>
     (\<forall>i<k. bdev (B (of_nat i)) = no_dev) \<and> (\<forall>i. bflags (B i) = 0)"

lemma linked_init:
  assumes B: "linked B k" and k: "k < 10"
  shows "linked (init_push (of_nat k) B) (Suc k)" "bnext (B NBUF) \<le> NBUF"
proof -
  let ?b = "of_nat k :: u32" and ?xs = "rev (map of_nat [0..<k]) :: u32 list"
  have ub: "unat ?b = k" using k by (simp add: unat_of_nat_u32)
  have b: "?b < NBUF" unfolding word_less_nat_alt ub using k by simp
  have inj: "i = j" if "(of_nat i :: u32) = of_nat j" "i \<le> 10" "j \<le> 10" for i j
  proof -
    have "unat (of_nat i :: u32) = i" "unat (of_nat j :: u32) = j" using that(2,3) by (simp_all add: unat_of_nat_u32)
    then show ?thesis using that(1) by metis
  qed
  have xs: "distinct ?xs" "?b \<notin> set ?xs" "NBUF \<notin> set ?xs"
  proof -
    show "distinct ?xs" unfolding distinct_rev distinct_map using k by (auto intro!: inj_onI dest: inj)
    show "?b \<notin> set ?xs" using k by (auto dest: inj)
    show "NBUF \<notin> set ?xs"
    proof
      assume "NBUF \<in> set ?xs"
      then obtain i where "i < k" "(of_nat 10 :: u32) = of_nat i" by auto
      then show False using k inj [of 10 i] by simp
    qed
  qed
  have c: "chain (\<lambda>i. bnext (B i)) (\<lambda>i. bprev (B i)) NBUF ?xs NBUF" using B by (simp add: linked_def)
  have n: "bnext (B NBUF) = hd (?xs @ [NBUF])" using chain_next [OF c] .
  then have nm: "bnext (B NBUF) \<in> set (?xs @ [NBUF])" by (metis hd_in_set snoc_eq_iff_butlast)
  show "bnext (B NBUF) \<le> NBUF" using nm k by (auto simp: word_le_nat_alt unat_of_nat_u32)
  have nb: "bnext (B NBUF) \<noteq> ?b" 
  proof
    assume e: "bnext (B NBUF) = ?b"
    show False using nm xs(2) b unfolding e by simp
  qed
  have "chain (\<lambda>i. bnext (init_push ?b B i)) (\<lambda>i. bprev (init_push ?b B i)) NBUF (?b # ?xs) NBUF"
    unfolding init_push_fields(1) [OF b] init_push_fields(2) [where B = B, OF b nb] by (rule chain_push [OF c xs(2,3,3) _ _ xs(1)]) (use b in auto)
  moreover have "\<forall>i<Suc k. bdev (init_push ?b B (of_nat i)) = no_dev" "\<forall>i. bflags (init_push ?b B i) = 0"
    using B by (auto simp: linked_def init_push_fields(3,4) [OF b] less_Suc_eq)
  ultimately show "linked (init_push ?b B) (Suc k)" by (simp add: linked_def)
qed

lemma linked_quiet:
  assumes s: "drive_ok s" and B: "linked B 10"
  shows "lru B [9, 8, 7, 6, 5, 4, 3, 2, 1, 0] \<and> quiet (s\<lparr>bcache_lk := spinlock_init, bufs := B\<rparr>) \<and> roomy B \<and>
     content (s\<lparr>bcache_lk := spinlock_init, bufs := B\<rparr>) = disk s"
proof -
  have ids: "rev (map of_nat [0..<10]) = ([9, 8, 7, 6, 5, 4, 3, 2, 1, 0] :: u32 list)" by (simp add: upt_rec)
  have f: "bflags (B i) = 0" for i using B by (simp add: linked_def)
  have dv: "bdev (B i) = no_dev" if "i < NBUF" for i
  proof -
    have "unat i < 10" using that by (simp add: word_less_nat_alt)
    then have "bdev (B (of_nat (unat i))) = no_dev" using B unfolding linked_def by blast
    then show ?thesis by simp
  qed
  have l: "lru B [9, 8, 7, 6, 5, 4, 3, 2, 1, 0]" using B buf_ids_iff unfolding lru_def linked_def ids by auto
  moreover have "cache_ok B (disk s)" by (simp add: cache_ok_def dv)
  ultimately have "quiet (s\<lparr>bcache_lk := spinlock_init, bufs := B\<rparr>)" using s f
    by (auto simp: quiet_def bc_ok_def drive_ok_def calm_def)
  moreover have "roomy B" unfolding roomy_def by (rule exI [of _ 0], rule exI [of _ 1]) (simp add: f)
  moreover have "content (s\<lparr>bcache_lk := spinlock_init, bufs := B\<rparr>) = disk s"
    using cached_Some [of B] dv by (intro ext) (force simp: content_def split: option.splits)
  ultimately show ?thesis using l by blast
qed

text \<open>
  C39: From the zeroed buffers the kernel boots with, \<^verbatim>\<open>bufcache_init\<close> links all ten of them into the
  recency list, in the order 9 to 0, and establishes the cache invariant: nothing is cached, nobody
  holds a buffer, reading any sector gives what the disk has, and two buffers can be held at once.
\<close>

theorem bufcache_init_establishes:
  assumes s: "drive_ok s" and zero: "\<forall>i. bflags (bufs s i) = 0"
  shows "kwp bufcache_init (\<lambda>_ t. lru (bufs t) [9, 8, 7, 6, 5, 4, 3, 2, 1, 0] \<and> quiet t \<and> roomy (bufs t) \<and>
     content t = disk s \<and> disk t = disk s \<and> disk_hist t = disk_hist s) s"
proof -
  let ?s = "s\<lparr>bcache_lk := spinlock_init, bufs := (bufs s)(NBUF := (bufs s NBUF)\<lparr>bprev := NBUF, bnext := NBUF\<rparr>)\<rparr>"
  have "kwp (kfor 0 NBUF bufcache_init_buf) (\<lambda>_ t. \<exists>B. t = ?s\<lparr>bufs := B\<rparr> \<and> linked B 10) ?s"
  proof (rule kwp_kfor [where I = "\<lambda>j t. \<exists>B. t = ?s\<lparr>bufs := B\<rparr> \<and> linked B (unat j)"])
    show "\<exists>B. ?s = ?s\<lparr>bufs := B\<rparr> \<and> linked B (unat 0)"
      using zero by (intro exI [of _ "bufs ?s"]) (simp add: linked_def)
    fix j :: u32 and t
    assume j: "j < NBUF" and "\<exists>B. t = ?s\<lparr>bufs := B\<rparr> \<and> linked B (unat j)"
    then obtain B where t: "t = ?s\<lparr>bufs := B\<rparr>" and B: "linked B (unat j)" by blast
    show "kwp (bufcache_init_buf j) (\<lambda>_ t'. \<exists>B. t' = ?s\<lparr>bufs := B\<rparr> \<and> linked B (unat (j + 1))) t"
      using linked_init [OF B] j unat_inc [OF j] t by (simp add: kwp_bufcache_init_buf word_less_nat_alt) blast
  qed auto
  then have "kwp (kfor 0 NBUF bufcache_init_buf) (\<lambda>_ t. lru (bufs t) [9, 8, 7, 6, 5, 4, 3, 2, 1, 0] \<and> quiet t \<and> roomy (bufs t) \<and>
     content t = disk s \<and> disk t = disk s \<and> disk_hist t = disk_hist s) ?s"
    by (rule kwp_mono) (use linked_quiet [OF s] in auto)
  then show ?thesis by (simp add: bufcache_init_def kwp_kthen kwp_kmodify kwp_buf_upd)
qed

text \<open>A machine with one idle drive whose sectors hold their own number, and zeroed buffers.\<close>

definition fs_demo :: fs_buf where
  "fs_demo = thread.extend (thread_demo\<lparr>TCBPool := (\<lambda>_. (tcb_demo 4))\<rparr>)
     \<lparr>ide_lk = spinlock_init, idequeue = None, havedisk1 = True, ide_port = (\<lambda>_. 0), ide_data = (\<lambda>_. 0), ide_status = 0x50,
      disk = (\<lambda>dev sec i. ucast sec), disk_hist = [], bcache_lk = spinlock_init,
      bufs = (\<lambda>_. \<lparr>bflags = 0, bdev = 0, bsector = 0, bprev = 0, bnext = 0, qnext = None, bdata = (\<lambda>_. 0)\<rparr>)\<rparr>"

lemma fs_demo_drive: "drive_ok fs_demo" "bflags (bufs fs_demo i) = 0" "disk fs_demo dev sec k = ucast sec"
  by (simp_all add: drive_ok_def calm_def fs_demo_def thread.defs thread_demo_def mpt.defs vm_demo_def mpt_base_def
      mcontainer.defs con_demo_def mat.defs mat_demo_def mboot_state.defs mboot_demo_def cpu_state.defs cpu_demo_def tcb_demo_def)

theorem bufcache_init_establishes_witness:
  "kwp bufcache_init (\<lambda>_ t. lru (bufs t) [9, 8, 7, 6, 5, 4, 3, 2, 1, 0] \<and> quiet t \<and> roomy (bufs t) \<and>
     content t = disk fs_demo \<and> disk t = disk fs_demo \<and> disk_hist t = disk_hist fs_demo) fs_demo"
  by (rule bufcache_init_establishes) (simp_all add: fs_demo_drive)

text \<open>The same machine after \<^verbatim>\<open>bufcache_init\<close>.\<close>

definition cache_demo :: fs_buf where
  "cache_demo = fs_demo\<lparr>bufs := (\<lambda>i. \<lparr>bflags = 0, bdev = no_dev, bsector = 0, bprev = (if i = NBUF then 0 else i + 1),
     bnext = (if i = 0 then NBUF else i - 1), qnext = None, bdata = (\<lambda>_. 0)\<rparr>)\<rparr>"

lemma cache_demo_quiet: "quiet cache_demo" "roomy (bufs cache_demo)" "content cache_demo = disk fs_demo" "disk cache_demo = disk fs_demo"
proof -
  have "linked (bufs cache_demo) 10" by (simp add: linked_def cache_demo_def upt_rec)
  then have "quiet (fs_demo\<lparr>bcache_lk := spinlock_init, bufs := bufs cache_demo\<rparr>)" and r: "roomy (bufs cache_demo)"
      and "content (fs_demo\<lparr>bcache_lk := spinlock_init, bufs := bufs cache_demo\<rparr>) = disk fs_demo"
    using linked_quiet [OF fs_demo_drive(1), of "bufs cache_demo"] by simp_all
  moreover have "fs_demo\<lparr>bcache_lk := spinlock_init, bufs := bufs cache_demo\<rparr> = cache_demo"
    by (simp add: cache_demo_def fs_demo_def thread.defs)
  ultimately show "quiet cache_demo" "content cache_demo = disk fs_demo" by simp_all
  show "roomy (bufs cache_demo)" by (rule r)
  show "disk cache_demo = disk fs_demo" by (simp add: cache_demo_def)
qed

section \<open>The cache as an array of blocks\<close>

text \<open>A client that reads a sector, changes it, writes it and lets it go; then a sequence of such accesses.\<close>

definition block_access :: "u32 \<Rightarrow> u32 \<Rightarrow> (block \<Rightarrow> block) \<Rightarrow> ('a fs_buf_scheme, block) kprog" where
  "block_access dev sec f =
     kbind (bufcache_read dev sec) (\<lambda>b.
     kbind (buf_get b) (\<lambda>x.
     kthen (buf_upd b (\<lambda>x. x\<lparr>bdata := f (bdata x)\<rparr>))
     (kthen (kthen (bufcache_write b) (bufcache_release b))
            (kreturn (bdata x)))))"

fun block_accesses :: "(u32 \<times> u32 \<times> (block \<Rightarrow> block)) list \<Rightarrow> ('a fs_buf_scheme, block list) kprog" where
  "block_accesses [] = kreturn []"
| "block_accesses ((dev, sec, f) # ops) =
     kbind (block_access dev sec f) (\<lambda>d. kbind (block_accesses ops) (\<lambda>ds. kreturn (d # ds)))"

fun array_accesses :: "(u32 \<times> u32 \<times> (block \<Rightarrow> block)) list \<Rightarrow> (u32 \<Rightarrow> u32 \<Rightarrow> block) \<Rightarrow> block list \<times> (u32 \<Rightarrow> u32 \<Rightarrow> block)" where
  "array_accesses [] A = ([], A)"
| "array_accesses ((dev, sec, f) # ops) A =
     (let (ds, A') = array_accesses ops (blk_write A dev sec (f (A dev sec))) in (A dev sec # ds, A'))"

lemma block_access_wp:
  assumes s: "quiet s" "roomy (bufs s)" and a: "dev < 2" "sec < 0x10000000"
  shows "kwp (block_access dev sec f) (\<lambda>d t. d = content s dev sec \<and> qstep [(dev, sec, f (content s dev sec))] s t) s"
  unfolding block_access_def
proof (rule kwp_kbindI [OF read_seq [OF _ a]])
  show "bc_ok s" "available (bufs s) dev sec" using s by (auto simp: quiet_def intro: quiet_available)
  let ?d = "content s dev sec"
  fix b t
  assume t: "bop b s t \<and> hold t b dev sec \<and> content t = content s \<and> disk t = disk s \<and> disk_hist t = disk_hist s \<and>
    \<not> busy (bufs s b) \<and> (dirty (bufs t b) \<longrightarrow> dirty (bufs s b)) \<and> (dirty (bufs t b) \<or> content s dev sec = disk s dev sec)"
  then have b: "bop b s t" "hold t b dev sec" "content t = blk_write (content s) dev sec ?d" "disk t = disk s" "disk_hist t = disk_hist s" by auto
  have d: "bdata (bufs t b) = ?d" using content_hold [OF bopD(2) [OF b(1)] b(2)] t by simp
  have "kwp (kthen (buf_upd b (\<lambda>x. x\<lparr>bdata := f (bdata x)\<rparr>)) (kthen (kthen (bufcache_write b) (bufcache_release b)) (kreturn ?d)))
     (\<lambda>d t. d = ?d \<and> qstep [(dev, sec, f ?d)] s t) t"
  proof (rule kwp_kthenI [OF store_seq [OF b, of f]])
    fix x u
    assume "bop b s u \<and> hold u b dev sec \<and> content u = blk_write (content s) dev sec (f ?d) \<and> disk u = disk s \<and> disk_hist u = disk_hist s"
    then show "kwp (kthen (kthen (bufcache_write b) (bufcache_release b)) (kreturn ?d)) (\<lambda>d t. d = ?d \<and> qstep [(dev, sec, f ?d)] s t) u"
      by (intro kwp_kthenI [OF flush_seq [OF s(1), of b u dev sec "f ?d"]]) (simp_all add: kwp_kreturn)
  qed
  moreover have "b \<le> NBUF" using b(2) by (simp add: hold_def less_imp_le)
  ultimately show "kwp (kbind (buf_get b) (\<lambda>x. kthen (buf_upd b (\<lambda>x. x\<lparr>bdata := f (bdata x)\<rparr>))
      (kthen (kthen (bufcache_write b) (bufcache_release b)) (kreturn (bdata x))))) (\<lambda>d t. d = ?d \<and> qstep [(dev, sec, f ?d)] s t) t"
    by (simp add: kwp_kbind kwp_buf_get d)
qed

lemma block_accesses_wp:
  "quiet s \<Longrightarrow> roomy (bufs s) \<Longrightarrow> \<forall>(dev, sec, f) \<in> set ops. dev < 2 \<and> sec < 0x10000000 \<Longrightarrow>
   kwp (block_accesses ops) (\<lambda>ds t. \<exists>W. qstep W s t \<and> (ds, content t) = array_accesses ops (content s)) s"
proof (induction ops arbitrary: s)
  case Nil
  then show ?case using qstep_refl [of s] by (auto simp: kwp_kreturn)
next
  case (Cons op ops)
  obtain dev sec f where op: "op = (dev, sec, f)" by (cases op)
  have a: "dev < 2" "sec < 0x10000000" and rest: "\<forall>(dev, sec, f) \<in> set ops. dev < 2 \<and> sec < 0x10000000" using Cons.prems(3) op by auto
  show ?case unfolding op block_accesses.simps
  proof (rule kwp_kbindI [OF block_access_wp [OF Cons.prems(1,2) a]])
    fix d t
    assume t: "d = content s dev sec \<and> qstep [(dev, sec, f (content s dev sec))] s t"
    have q: "quiet t" "roomy (bufs t)" using t qstep_roomy [OF _ Cons.prems(2)] by (simp add: qstep_def, blast)
    have c: "content t = blk_write (content s) dev sec (f (content s dev sec))" using t by (simp add: qstep_def)
    show "kwp (kbind (block_accesses ops) (\<lambda>ds. kreturn (d # ds)))
        (\<lambda>ds u. \<exists>W. qstep W s u \<and> (ds, content u) = array_accesses ((dev, sec, f) # ops) (content s)) t"
    proof (rule kwp_kbindI [OF Cons.IH [OF q rest]])
      fix ds u
      assume "\<exists>W. qstep W t u \<and> (ds, content u) = array_accesses ops (content t)"
      then have "\<exists>W. qstep W s u" "array_accesses ops (content t) = (ds, content u)" using t qstep_trans by (blast, simp)
      then show "kwp (kreturn (d # ds)) (\<lambda>ds u. \<exists>W. qstep W s u \<and> (ds, content u) = array_accesses ((dev, sec, f) # ops) (content s)) u"
        using t by (simp add: kwp_kreturn c)
    qed
  qed
qed

text \<open>
  C3: The buffer cache over the disk driver implements an array of blocks. Any sequence of accesses,
  each one \<^verbatim>\<open>bufcache_read\<close>, a change of the data, \<^verbatim>\<open>bufcache_write\<close> and \<^verbatim>\<open>bufcache_release\<close>, to any sectors
  of the two drives, runs to completion and returns the blocks an array would have returned; the
  contents afterwards are the array's, buffers being recycled in between as needed. The writes go
  through: if the disk agreed with the contents before, it does after.
\<close>

theorem bufcache_refines_array:
  assumes "quiet s" "roomy (bufs s)" and "\<forall>(dev, sec, f) \<in> set ops. dev < 2 \<and> sec < 0x10000000"
  shows "\<exists>ds t. block_accesses ops s = Inr (ds, t) \<and> (ds, content t) = array_accesses ops (content s) \<and>
     quiet t \<and> roomy (bufs t) \<and> (content s = disk s \<longrightarrow> content t = disk t)"
proof -
  obtain ds t W where t: "block_accesses ops s = Inr (ds, t)" "qstep W s t" "(ds, content t) = array_accesses ops (content s)"
    using block_accesses_wp [OF assms] by (auto elim!: kwpE)
  then show ?thesis using qstep_roomy [OF t(2) assms(2)] by (auto simp: qstep_def)
qed

theorem bufcache_refines_array_witness:
  "\<exists>ds t. block_accesses [(1, 5, \<lambda>_ _. 9), (0, 6, id), (1, 5, id)] cache_demo = Inr (ds, t) \<and>
     ds = [\<lambda>_. 5, \<lambda>_. 6, \<lambda>_. 9] \<and> disk t 1 5 = (\<lambda>_. 9) \<and> disk t 1 6 = (\<lambda>_. 6)"
proof -
  let ?ops = "[(1, 5, \<lambda>_ _. 9), (0, 6, id), (1, 5, id)] :: (u32 \<times> u32 \<times> (block \<Rightarrow> block)) list"
  have a: "\<forall>(dev, sec, f) \<in> set ?ops. dev < 2 \<and> sec < 0x10000000" by simp
  obtain ds t where t: "block_accesses ?ops cache_demo = Inr (ds, t)" "(ds, content t) = array_accesses ?ops (content cache_demo)" "content t = disk t"
    using bufcache_refines_array [OF cache_demo_quiet(1,2) a] cache_demo_quiet(3,4) by metis
  have d: "disk fs_demo dev sec = (\<lambda>_. ucast sec)" for dev sec by (rule ext) (simp add: fs_demo_drive)
  have "ds = [\<lambda>_. 5, \<lambda>_. 6, \<lambda>_. 9]" "content t 1 5 = (\<lambda>_. 9)" "content t 1 6 = (\<lambda>_. 6)"
    using t(2) by (simp_all add: cache_demo_quiet blk_write_apply d)
  then show ?thesis using t(1) unfolding t(3) by blast
qed

text \<open>
  C15: A request to the disk driver for a held buffer that is not in sync: the driver starts the
  transfer, the interrupt handler completes it and nobody is left waiting. A dirty buffer's data
  become the contents of its sector, recorded as one write; otherwise the buffer receives the contents of
  its sector. In both cases the buffer ends up valid and clean, and every other buffer and sector
  is as before.
\<close>

theorem ide_rw_synchronises:
  assumes "drive_ok s" "b < NBUF" "bflags (bufs s b) = B_BUSY OR f" "f = 0 \<or> f = B_DIRTY \<or> f = (B_VALID OR B_DIRTY)"
    "bdev (bufs s b) = dev" "bsector (bufs s b) = sec" "dev < 2" "sec < 0x10000000"
  shows "\<exists>t. ide_rw b s = Inr ((), t) \<and> bflags (bufs t b) = B_BUSY OR B_VALID \<and> (\<forall>c. c \<noteq> b \<longrightarrow> bufs t c = bufs s c) \<and>
     bdata (bufs t b) = disk t dev sec \<and> drive_ok t \<and>
     (if f = 0 then disk t = disk s \<and> disk_hist t = disk_hist s
      else disk t = blk_write (disk s) dev sec (bdata (bufs s b)) \<and> disk_hist t = disk_hist s @ [(dev, sec, bdata (bufs s b))])"
proof -
  have f3: "f = 0 \<or> f = 4 \<or> f = 6" using assms(4) by auto
  then have "busy (bufs s b)" "valid (bufs s b) \<longrightarrow> dirty (bufs s b)" and d: "dirty (bufs s b) = (f \<noteq> 0)"
    unfolding assms(3) by (elim disjE; simp add: bit_iff_odd_drop_bit)+
  moreover have "disk_sector (bufs s b)" using assms(5-8) by (simp add: disk_sector_def)
  ultimately have "kwp (ide_rw b) (\<lambda>_ t. \<exists>p d. t = s\<lparr>ide_port := p, ide_data := d, bufs := (bufs s)(b := synced_buf s b),
     disk := synced_disk s b, disk_hist := synced_hist s b\<rparr>) s" using assms(1,2) by (intro ide_rw_wp)
  then obtain p d where t: "ide_rw b s = Inr ((), s\<lparr>ide_port := p, ide_data := d, bufs := (bufs s)(b := synced_buf s b),
     disk := synced_disk s b, disk_hist := synced_hist s b\<rparr>)" (is "_ = Inr ((), ?t)")
    by (rule kwpE) auto
  have "((B_BUSY OR f) OR B_VALID) AND NOT B_DIRTY = B_BUSY OR B_VALID" using f3 by auto
  then have "bflags (bufs ?t b) = B_BUSY OR B_VALID" by (simp add: synced_buf_def Let_def assms(3))
  moreover have "drive_ok ?t" using assms(1) by (simp add: drive_ok_def calm_def)
  moreover have "bdata (bufs ?t b) = disk ?t dev sec" "\<forall>c. c \<noteq> b \<longrightarrow> bufs ?t c = bufs s c"
    by (simp_all add: synced_buf_def synced_disk_def Let_def assms(5,6))
  moreover have "if f = 0 then disk ?t = disk s \<and> disk_hist ?t = disk_hist s
      else disk ?t = blk_write (disk s) dev sec (bdata (bufs s b)) \<and> disk_hist ?t = disk_hist s @ [(dev, sec, bdata (bufs s b))]"
    by (simp add: synced_disk_def synced_hist_def Let_def assms(5,6) d blk_write_def)
  ultimately show ?thesis using t by blast
qed

theorem ide_rw_synchronises_witness:
  "\<exists>t. ide_rw 3 (fs_demo\<lparr>bufs := (bufs fs_demo)(3 := (bufs fs_demo 3)\<lparr>bflags := 5, bdev := 1, bsector := 7, bdata := (\<lambda>_. 1)\<rparr>)\<rparr>)
      = Inr ((), t) \<and> disk t 1 7 = (\<lambda>_. 1) \<and> disk t 1 8 = (\<lambda>_. 8)"
proof -
  let ?s = "fs_demo\<lparr>bufs := (bufs fs_demo)(3 := (bufs fs_demo 3)\<lparr>bflags := 5, bdev := 1, bsector := 7, bdata := (\<lambda>_. 1)\<rparr>)\<rparr>"
  have "drive_ok ?s" using fs_demo_drive(1) by (simp add: drive_ok_def)
  then obtain t where t: "ide_rw 3 ?s = Inr ((), t)" "disk t = blk_write (disk fs_demo) 1 7 (\<lambda>_. 1)"
    using ide_rw_synchronises [of ?s 3 B_DIRTY 1 7] by auto
  have "disk fs_demo 1 8 = (\<lambda>_. 8)" by (rule ext) (simp add: fs_demo_drive)
  then show ?thesis using t by (intro exI [of _ t]) (simp add: blk_write_apply)
qed

end
