(* ===== verification/Log.thy ===== *)
theory Log
  imports Bufcache_Spec
begin

text \<open>
  The write-ahead log (kern/fs/log.c) and the block allocator (kern/fs/block.c).

  \<^verbatim>\<open>log\<close> is a record of fields of the state. The header block is read and written through the
  32-bit words of a block, little endian: \<^verbatim>\<open>n\<close> is the word at 0, \<^verbatim>\<open>sector[i]\<close> the word at \<open>4 + 4 * i\<close>.
  Using \<^verbatim>\<open>log.lh.sector\<close> outside its ten entries is a fault. Loops bounded by a signed count do not
  run when it is negative. Waiting for another thread's transaction stops with \<open>Asleep\<close>.
\<close>

abbreviation (input) LOGSIZE :: u32 where "LOGSIZE \<equiv> 10"
abbreviation (input) ROOTDEV :: u32 where "ROOTDEV \<equiv> 1"
abbreviation (input) BSIZE :: u32 where "BSIZE \<equiv> 512"
abbreviation (input) BPB :: u32 where "BPB \<equiv> 4096"
abbreviation (input) IPB :: u32 where "IPB \<equiv> 8"

record fs_log = fs_buf +
  log_lk :: spinlock_t
  log_start :: u32
  log_size :: u32
  log_busy :: bool
  log_dev :: u32
  lh_n :: u32
  lh_sector :: "u32 \<Rightarrow> u32"

record superblock =
  sb_size :: u32
  sb_nblocks :: u32
  sb_ninodes :: u32
  sb_nlog :: u32

section \<open>Words of a block\<close>

definition blk_index :: "u32 \<Rightarrow> 9 word" where
  "blk_index i = ucast i"

definition blk_load32 :: "block \<Rightarrow> u32 \<Rightarrow> u32" where
  "blk_load32 d p = ucast (d (blk_index p)) OR push_bit 8 (ucast (d (blk_index (p + 1))))
     OR push_bit 16 (ucast (d (blk_index (p + 2)))) OR push_bit 24 (ucast (d (blk_index (p + 3))))"

definition blk_store32 :: "block \<Rightarrow> u32 \<Rightarrow> u32 \<Rightarrow> block" where
  "blk_store32 d p v = d(blk_index p := ucast v, blk_index (p + 1) := ucast (drop_bit 8 v),
     blk_index (p + 2) := ucast (drop_bit 16 v), blk_index (p + 3) := ucast (drop_bit 24 v))"

definition signed_bound :: "u32 \<Rightarrow> u32" where
  "signed_bound n = (if n <s 0 then 0 else n)"

section \<open>log.c\<close>

definition log_acquire :: "('a fs_log_scheme, unit) kprog" where
  "log_acquire = spinlock_acquire log_lk log_lk_update"

definition log_release :: "('a fs_log_scheme, unit) kprog" where
  "log_release = spinlock_release log_lk log_lk_update"

definition lh_get :: "u32 \<Rightarrow> ('a fs_log_scheme, u32) kprog" where
  "lh_get i = kthen (kassert (i < LOGSIZE) (Fault ''log.lh.sector'')) (kgets (\<lambda>s. lh_sector s i))"

definition lh_set :: "u32 \<Rightarrow> u32 \<Rightarrow> ('a fs_log_scheme, unit) kprog" where
  "lh_set i v = kthen (kassert (i < LOGSIZE) (Fault ''log.lh.sector''))
     (kmodify (\<lambda>s. s\<lparr>lh_sector := (lh_sector s)(i := v)\<rparr>))"

definition read_superblock :: "u32 \<Rightarrow> ('a fs_log_scheme, superblock) kprog" where
  "read_superblock dev =
     kbind (bufcache_read dev 1) (\<lambda>b.
     kbind (buf_get b) (\<lambda>x.
     kthen (bufcache_release b)
       (kreturn \<lparr>sb_size = blk_load32 (bdata x) 0, sb_nblocks = blk_load32 (bdata x) 4,
          sb_ninodes = blk_load32 (bdata x) 8, sb_nlog = blk_load32 (bdata x) 12\<rparr>)))"

definition install_trans :: "('a fs_log_scheme, unit) kprog" where
  "install_trans =
     kbind (kgets lh_n) (\<lambda>n.
     kfor 0 (signed_bound n) (\<lambda>tail.
       kbind (kgets log_dev) (\<lambda>dev.
       kbind (kgets log_start) (\<lambda>start.
       kbind (bufcache_read dev (start + tail + 1)) (\<lambda>lbuf.
       kbind (lh_get tail) (\<lambda>sec.
       kbind (bufcache_read dev sec) (\<lambda>dbuf.
       kbind (buf_get lbuf) (\<lambda>lb.
       kthen (buf_upd dbuf (\<lambda>x. x\<lparr>bdata := bdata lb\<rparr>))
       (kthen (bufcache_write dbuf)
       (kthen (bufcache_release lbuf)
              (bufcache_release dbuf)))))))))))"

definition read_head :: "('a fs_log_scheme, unit) kprog" where
  "read_head =
     kbind (kgets log_dev) (\<lambda>dev.
     kbind (kgets log_start) (\<lambda>start.
     kbind (bufcache_read dev start) (\<lambda>b.
     kbind (buf_get b) (\<lambda>lh.
     kthen (kmodify (\<lambda>s. s\<lparr>lh_n := blk_load32 (bdata lh) 0\<rparr>))
     (kthen (kfor 0 (signed_bound (blk_load32 (bdata lh) 0)) (\<lambda>i. lh_set i (blk_load32 (bdata lh) (4 + 4 * i))))
            (bufcache_release b))))))"

definition write_head :: "('a fs_log_scheme, unit) kprog" where
  "write_head =
     kbind (kgets log_dev) (\<lambda>dev.
     kbind (kgets log_start) (\<lambda>start.
     kbind (bufcache_read dev start) (\<lambda>b.
     kbind (kgets lh_n) (\<lambda>n.
     kthen (buf_upd b (\<lambda>x. x\<lparr>bdata := blk_store32 (bdata x) 0 n\<rparr>))
     (kthen (kfor 0 (signed_bound n) (\<lambda>i. kbind (lh_get i) (\<lambda>sec.
        buf_upd b (\<lambda>x. x\<lparr>bdata := blk_store32 (bdata x) (4 + 4 * i) sec\<rparr>))))
     (kthen (bufcache_write b)
            (bufcache_release b)))))))"

definition recover_from_log :: "('a fs_log_scheme, unit) kprog" where
  "recover_from_log =
     kthen read_head
     (kthen install_trans
     (kthen (kmodify (\<lambda>s. s\<lparr>lh_n := 0\<rparr>))
            write_head))"

text \<open>The header has 44 bytes, so the size check passes.\<close>

definition log_init :: "('a fs_log_scheme, unit) kprog" where
  "log_init =
     kthen (kmodify (\<lambda>s. s\<lparr>log_lk := spinlock_init\<rparr>))
     (kbind (read_superblock ROOTDEV) (\<lambda>sb.
     kthen (kmodify (\<lambda>s. s\<lparr>log_start := sb_size sb - sb_nlog sb\<rparr>))
     (kthen (kmodify (\<lambda>s. s\<lparr>log_size := sb_nlog sb\<rparr>))
     (kthen (kmodify (\<lambda>s. s\<lparr>log_dev := ROOTDEV\<rparr>))
            recover_from_log))))"

definition begin_trans :: "('a fs_log_scheme, unit) kprog" where
  "begin_trans =
     kthen log_acquire
     (kbind (kgets log_busy) (\<lambda>busy.
     kthen (kassert (\<not> busy) (Asleep ''log''))
     (kthen (kmodify (\<lambda>s. s\<lparr>log_busy := True\<rparr>))
            log_release)))"

definition commit_trans :: "('a fs_log_scheme, unit) kprog" where
  "commit_trans =
     kbind (kgets lh_n) (\<lambda>n.
     kthen (kwhen (0 <s n)
       (kthen write_head
       (kthen install_trans
       (kthen (kmodify (\<lambda>s. s\<lparr>lh_n := 0\<rparr>))
              write_head))))
     (kthen log_acquire
     (kthen (kmodify (\<lambda>s. s\<lparr>log_busy := False\<rparr>))
     (kthen (thread_wakeup LogChan)
            log_release))))"

text \<open>The entry the block goes to: the first one with its sector number, or a new one.\<close>

definition log_slot :: "u32 \<Rightarrow> ('a fs_log_scheme, u32) kprog" where
  "log_slot sec =
     kbind (kgets lh_n) (\<lambda>n.
     kbind (kfor_ret 0 (signed_bound n) (\<lambda>i. kbind (lh_get i) (\<lambda>x.
       kreturn (if x = sec then Some i else None)))) (\<lambda>r.
     kreturn (case r of Some i \<Rightarrow> i | None \<Rightarrow> signed_bound n)))"

definition log_write :: "u32 \<Rightarrow> ('a fs_log_scheme, unit) kprog" where
  "log_write b =
     kbind (kgets lh_n) (\<lambda>n.
     kbind (kgets log_size) (\<lambda>sz.
     kbind (kgets log_busy) (\<lambda>busy.
     kthen (kassert (\<not> (LOGSIZE \<le>s n \<or> sz - 1 \<le>s n)) (Panic ''too big a transaction''))
     (kthen (kassert busy (Panic ''write outside of trans''))
     (kbind (buf_get b) (\<lambda>x.
     kbind (log_slot (bsector x)) (\<lambda>i.
     kthen (lh_set i (bsector x))
     (kbind (kgets log_start) (\<lambda>start.
     kbind (bufcache_read (bdev x) (start + i + 1)) (\<lambda>lbuf.
     kbind (buf_get b) (\<lambda>x.
     kthen (buf_upd lbuf (\<lambda>y. y\<lparr>bdata := bdata x\<rparr>))
     (kthen (bufcache_write lbuf)
     (kthen (bufcache_release lbuf)
     (kthen (kwhen (i = n) (kmodify (\<lambda>s. s\<lparr>lh_n := lh_n s + 1\<rparr>)))
            (buf_upd b (\<lambda>y. y\<lparr>bflags := bflags y OR B_DIRTY\<rparr>))))))))))))))))"

section \<open>block.c\<close>

definition BBLOCK :: "u32 \<Rightarrow> u32 \<Rightarrow> u32" where
  "BBLOCK b ninodes = b div BPB + ninodes div IPB + 3"

definition bit_mask :: "u32 \<Rightarrow> u8" where
  "bit_mask bi = push_bit (unat (bi mod 8)) 1"

definition block_zero :: "u32 \<Rightarrow> u32 \<Rightarrow> ('a fs_log_scheme, unit) kprog" where
  "block_zero dev bno =
     kbind (bufcache_read dev bno) (\<lambda>b.
     kthen (buf_upd b (\<lambda>x. x\<lparr>bdata := (\<lambda>_. 0)\<rparr>))
     (kthen (log_write b)
            (bufcache_release b)))"

text \<open>
  The scan of one bitmap block, from bit \<open>b\<close> on; then the loop over the bitmap blocks, which runs
  once per started \<open>BPB\<close> blocks. When no block is free the C function ends without a return
  statement, so using its value is a fault.
\<close>

definition block_alloc_scan :: "u32 \<Rightarrow> u32 \<Rightarrow> u32 \<Rightarrow> u32 \<Rightarrow> ('a fs_log_scheme, u32 option) kprog" where
  "block_alloc_scan dev size' b bp =
     kfor_ret 0 (min BPB (size' - b)) (\<lambda>bi.
       kbind (buf_get bp) (\<lambda>x.
       if bdata x (blk_index (bi div 8)) AND bit_mask bi = 0
       then kthen (buf_upd bp (\<lambda>x. x\<lparr>bdata := (bdata x)(blk_index (bi div 8) := bdata x (blk_index (bi div 8)) OR bit_mask bi)\<rparr>))
            (kthen (log_write bp)
            (kthen (bufcache_release bp)
            (kthen (block_zero dev (b + bi))
                   (kreturn (Some (b + bi))))))
       else kreturn None))"

definition block_alloc :: "u32 \<Rightarrow> ('a fs_log_scheme, u32) kprog" where
  "block_alloc dev =
     kbind (read_superblock dev) (\<lambda>sb.
     kbind (kfor_ret 0 (if sb_size sb = 0 then 0 else (sb_size sb - 1) div BPB + 1) (\<lambda>k.
       let b = k * BPB in
       kbind (bufcache_read dev (BBLOCK b (sb_ninodes sb))) (\<lambda>bp.
       kbind (block_alloc_scan dev (sb_size sb) b bp) (\<lambda>r.
       case r of Some v \<Rightarrow> kreturn (Some v) | None \<Rightarrow> kthen (bufcache_release bp) (kreturn None))))) (\<lambda>r.
     case r of Some v \<Rightarrow> kreturn v | None \<Rightarrow> kfail (Fault ''block_alloc'')))"

definition block_free :: "u32 \<Rightarrow> u32 \<Rightarrow> ('a fs_log_scheme, unit) kprog" where
  "block_free dev b =
     kbind (read_superblock dev) (\<lambda>sb.
     kbind (bufcache_read dev (BBLOCK b (sb_ninodes sb))) (\<lambda>bp.
     let bi = b mod BPB in
     kbind (buf_get bp) (\<lambda>x.
     kthen (kassert (bdata x (blk_index (bi div 8)) AND bit_mask bi \<noteq> 0) (Panic ''freeing free block''))
     (kthen (buf_upd bp (\<lambda>x. x\<lparr>bdata := (bdata x)(blk_index (bi div 8) := bdata x (blk_index (bi div 8)) AND NOT (bit_mask bi))\<rparr>))
     (kthen (log_write bp)
            (bufcache_release bp))))))"

section \<open>The log as a lock\<close>

interpretation log_lk: lock_field log_lk log_lk_update
  by unfold_locales simp_all

interpretation log_sleep: sleep_lock log_lk log_lk_update
  by unfold_locales simp_all

lemma kwp_log_acquire [wp]:
  "kwp log_acquire Q s = (lock (log_lk s) = 0 \<and> ks_magic s = KSTACK_MAGIC \<and> Q () (s\<lparr>log_lk := lock_by (ks_cpu_idx s)\<rparr>))"
  unfolding log_acquire_def by (rule log_lk.acquire_wp)

lemma kwp_log_release [wp]: "kwp log_release Q s = Q () (s\<lparr>log_lk := spinlock_init\<rparr>)"
  unfolding log_release_def by (rule log_lk.release_wp)

end
