(* ===== verification/Inode.thy ===== *)
theory Inode
  imports Log
begin

text \<open>
  The inode layer (kern/fs/inode.c).

  \<^verbatim>\<open>inode_cache.inode\<close> is an array of 50 entries, a pointer to one is its index, a null pointer is
  \<open>None\<close> where the code tests for it. A disk inode is 64 bytes of a block: the four 16-bit fields
  at 0, 2, 4 and 6, \<^verbatim>\<open>size\<close> at 8 and \<^verbatim>\<open>addrs[i]\<close> at \<open>12 + 4 * i\<close>. Waiting for an inode that another
  thread has locked stops with \<open>Asleep\<close>. The table \<^verbatim>\<open>devsw\<close> of device functions is never set, so
  calling one is a fault. A buffer handed to \<^verbatim>\<open>inode_read\<close> or \<^verbatim>\<open>inode_write\<close> is the list of its bytes.
\<close>

abbreviation (input) NINODE :: u32 where "NINODE \<equiv> 50"
abbreviation (input) NDIRECT :: u32 where "NDIRECT \<equiv> 12"
abbreviation (input) NINDIRECT :: u32 where "NINDIRECT \<equiv> 128"
abbreviation (input) MAXFILE :: u32 where "MAXFILE \<equiv> 140"
abbreviation (input) NDEV :: u16 where "NDEV \<equiv> 10"
abbreviation (input) I_BUSY :: u32 where "I_BUSY \<equiv> 1"
abbreviation (input) I_VALID :: u32 where "I_VALID \<equiv> 2"
abbreviation (input) T_DIR :: u16 where "T_DIR \<equiv> 1"
abbreviation (input) T_FILE :: u16 where "T_FILE \<equiv> 2"
abbreviation (input) T_DEV :: u16 where "T_DEV \<equiv> 3"

record inode =
  idev :: u32
  inum :: u32
  iref :: u32
  iflags :: u32
  itype :: u16
  imajor :: u16
  iminor :: u16
  inlink :: u16
  isize :: u32
  iaddrs :: "u32 \<Rightarrow> u32"

record struct_file_stat =
  st_type :: u16
  st_dev :: u32
  st_ino :: u32
  st_nlink :: u16
  st_size :: u32

record fs_ino = fs_log +
  icache_lk :: spinlock_t
  inodes :: "u32 \<Rightarrow> inode"

section \<open>Disk inodes\<close>

definition IBLOCK :: "u32 \<Rightarrow> u32" where
  "IBLOCK i = i div IPB + 2"

definition dip :: "u32 \<Rightarrow> u32" where
  "dip i = (i mod IPB) * 64"

definition blk_load16 :: "block \<Rightarrow> u32 \<Rightarrow> u16" where
  "blk_load16 d p = ucast (d (blk_index p)) OR push_bit 8 (ucast (d (blk_index (p + 1))))"

definition blk_store16 :: "block \<Rightarrow> u32 \<Rightarrow> u16 \<Rightarrow> block" where
  "blk_store16 d p v = d(blk_index p := ucast v, blk_index (p + 1) := ucast (drop_bit 8 v))"

definition dinode_clear :: "block \<Rightarrow> u32 \<Rightarrow> block" where
  "dinode_clear d p = (\<lambda>i. if unat p \<le> unat i \<and> unat i < unat p + 64 then 0 else d i)"

definition dinode_addrs :: "(u32 \<Rightarrow> u32) \<Rightarrow> u32 \<Rightarrow> block \<Rightarrow> block" where
  "dinode_addrs a p d = fold (\<lambda>i d. blk_store32 d (p + 12 + 4 * i) (a i)) [0, 1, 2, 3, 4, 5, 6, 7, 8, 9, 10, 11, 12] d"

definition dinode_store :: "inode \<Rightarrow> u32 \<Rightarrow> block \<Rightarrow> block" where
  "dinode_store ip p d =
     (let d = blk_store16 d p (itype ip);
          d = blk_store16 d (p + 2) (imajor ip);
          d = blk_store16 d (p + 4) (iminor ip);
          d = blk_store16 d (p + 6) (inlink ip);
          d = blk_store32 d (p + 8) (isize ip)
      in dinode_addrs (iaddrs ip) p d)"

definition dinode_load :: "block \<Rightarrow> u32 \<Rightarrow> inode \<Rightarrow> inode" where
  "dinode_load d p ip =
     ip\<lparr>itype := blk_load16 d p, imajor := blk_load16 d (p + 2), iminor := blk_load16 d (p + 4),
        inlink := blk_load16 d (p + 6), isize := blk_load32 d (p + 8),
        iaddrs := (\<lambda>i. if i \<le> NDIRECT then blk_load32 d (p + 12 + 4 * i) else iaddrs ip i)\<rparr>"

section \<open>The inode cache\<close>

definition icache_acquire :: "('a fs_ino_scheme, unit) kprog" where
  "icache_acquire = spinlock_acquire icache_lk icache_lk_update"

definition icache_release :: "('a fs_ino_scheme, unit) kprog" where
  "icache_release = spinlock_release icache_lk icache_lk_update"

definition ino_get :: "u32 \<Rightarrow> ('a fs_ino_scheme, inode) kprog" where
  "ino_get ip = kthen (kassert (ip < NINODE) (Fault ''inode'')) (kgets (\<lambda>s. inodes s ip))"

definition ino_upd :: "u32 \<Rightarrow> (inode \<Rightarrow> inode) \<Rightarrow> ('a fs_ino_scheme, unit) kprog" where
  "ino_upd ip f = kthen (kassert (ip < NINODE) (Fault ''inode''))
     (kmodify (\<lambda>s. s\<lparr>inodes := (inodes s)(ip := f (inodes s ip))\<rparr>))"

definition inode_init :: "('a fs_ino_scheme, unit) kprog" where
  "inode_init = kmodify (\<lambda>s. s\<lparr>icache_lk := spinlock_init\<rparr>)"

text \<open>The scan of \<^verbatim>\<open>inode_get\<close>: the cached entry, or the first empty slot.\<close>

definition inode_scan :: "u32 \<Rightarrow> u32 \<Rightarrow> ('a fs_ino_scheme, u32 option \<times> u32 option) kprog" where
  "inode_scan dev i = kfold 0 NINODE (\<lambda>ip (found, empty).
     if found \<noteq> None then kreturn (found, empty)
     else kbind (ino_get ip) (\<lambda>x.
       if 0 <s iref x \<and> idev x = dev \<and> inum x = i then kreturn (Some ip, empty)
       else if empty = None \<and> iref x = 0 then kreturn (None, Some ip)
       else kreturn (None, empty))) (None, None)"

definition inode_get :: "u32 \<Rightarrow> u32 \<Rightarrow> ('a fs_ino_scheme, u32) kprog" where
  "inode_get dev i =
     kthen icache_acquire
     (kbind (inode_scan dev i) (\<lambda>(found, empty).
      case found of
        Some ip \<Rightarrow>
          kthen (ino_upd ip (\<lambda>x. x\<lparr>iref := iref x + 1\<rparr>)) (kthen icache_release (kreturn ip))
      | None \<Rightarrow> (case empty of
          None \<Rightarrow> kfail (Panic ''inode_get: no inodes'')
        | Some ip \<Rightarrow>
          kthen (ino_upd ip (\<lambda>x. x\<lparr>idev := dev\<rparr>))
          (kthen (ino_upd ip (\<lambda>x. x\<lparr>inum := i\<rparr>))
          (kthen (ino_upd ip (\<lambda>x. x\<lparr>iref := 1\<rparr>))
          (kthen (ino_upd ip (\<lambda>x. x\<lparr>iflags := 0\<rparr>))
          (kthen icache_release (kreturn ip))))))))"

definition inode_alloc :: "u32 \<Rightarrow> u16 \<Rightarrow> ('a fs_ino_scheme, u32) kprog" where
  "inode_alloc dev type =
     kbind (read_superblock dev) (\<lambda>sb.
     kbind (kfor_ret 1 (sb_ninodes sb) (\<lambda>i.
       kbind (bufcache_read dev (IBLOCK i)) (\<lambda>bp.
       kbind (buf_get bp) (\<lambda>x.
       if blk_load16 (bdata x) (dip i) = 0
       then kthen (buf_upd bp (\<lambda>x. x\<lparr>bdata := blk_store16 (dinode_clear (bdata x) (dip i)) (dip i) type\<rparr>))
            (kthen (log_write bp)
            (kthen (bufcache_release bp)
            (kbind (inode_get dev i) (\<lambda>ip. kreturn (Some ip)))))
       else kthen (bufcache_release bp) (kreturn None))))) (\<lambda>r.
     case r of Some ip \<Rightarrow> kreturn ip | None \<Rightarrow> kfail (Panic ''inode_alloc: no inodes'')))"

definition inode_update :: "u32 \<Rightarrow> ('a fs_ino_scheme, unit) kprog" where
  "inode_update ip =
     kbind (ino_get ip) (\<lambda>x.
     kbind (bufcache_read (idev x) (IBLOCK (inum x))) (\<lambda>bp.
     kbind (ino_get ip) (\<lambda>x.
     kthen (buf_upd bp (\<lambda>b. b\<lparr>bdata := dinode_store x (dip (inum x)) (bdata b)\<rparr>))
     (kthen (log_write bp)
            (bufcache_release bp)))))"

definition inode_dup :: "u32 \<Rightarrow> ('a fs_ino_scheme, u32) kprog" where
  "inode_dup ip =
     kthen icache_acquire
     (kthen (ino_upd ip (\<lambda>x. x\<lparr>iref := iref x + 1\<rparr>))
     (kthen icache_release (kreturn ip)))"

definition inode_lock :: "u32 option \<Rightarrow> ('a fs_ino_scheme, unit) kprog" where
  "inode_lock p = (case p of None \<Rightarrow> kfail (Panic ''inode_lock'')
     | Some ip \<Rightarrow>
       kbind (ino_get ip) (\<lambda>x.
       kthen (kassert (\<not> iref x <s 1) (Panic ''inode_lock''))
       (kthen icache_acquire
       (kbind (ino_get ip) (\<lambda>x.
       kthen (kassert (iflags x AND I_BUSY = 0) (Asleep ''inode''))
       (kthen (ino_upd ip (\<lambda>x. x\<lparr>iflags := iflags x OR I_BUSY\<rparr>))
       (kthen icache_release
       (kwhen (iflags x AND I_VALID = 0)
         (kbind (bufcache_read (idev x) (IBLOCK (inum x))) (\<lambda>bp.
          kbind (buf_get bp) (\<lambda>b.
          kthen (ino_upd ip (dinode_load (bdata b) (dip (inum x))))
          (kthen (bufcache_release bp)
          (kthen (ino_upd ip (\<lambda>x. x\<lparr>iflags := iflags x OR I_VALID\<rparr>))
          (kbind (ino_get ip) (\<lambda>x.
           kassert (itype x \<noteq> 0) (Panic ''inode_lock: no type''))))))))))))))))"

definition inode_unlock :: "u32 option \<Rightarrow> ('a fs_ino_scheme, unit) kprog" where
  "inode_unlock p = (case p of None \<Rightarrow> kfail (Panic ''inode_unlock'')
     | Some ip \<Rightarrow>
       kbind (ino_get ip) (\<lambda>x.
       kthen (kassert (\<not> (iflags x AND I_BUSY = 0 \<or> iref x <s 1)) (Panic ''inode_unlock''))
       (kthen icache_acquire
       (kthen (ino_upd ip (\<lambda>x. x\<lparr>iflags := iflags x AND NOT I_BUSY\<rparr>))
       (kthen (thread_wakeup (InodeChan ip))
              icache_release)))))"

section \<open>Content\<close>

definition bmap :: "u32 \<Rightarrow> u32 \<Rightarrow> ('a fs_ino_scheme, u32) kprog" where
  "bmap ip bn =
     kbind (ino_get ip) (\<lambda>x.
     if bn < NDIRECT then
       (if iaddrs x bn = 0
        then kbind (block_alloc (idev x)) (\<lambda>addr.
             kthen (ino_upd ip (\<lambda>x. x\<lparr>iaddrs := (iaddrs x)(bn := addr)\<rparr>)) (kreturn addr))
        else kreturn (iaddrs x bn))
     else if bn - NDIRECT < NINDIRECT then
       kbind (if iaddrs x NDIRECT = 0
              then kbind (block_alloc (idev x)) (\<lambda>addr.
                   kthen (ino_upd ip (\<lambda>x. x\<lparr>iaddrs := (iaddrs x)(NDIRECT := addr)\<rparr>)) (kreturn addr))
              else kreturn (iaddrs x NDIRECT)) (\<lambda>addr.
       kbind (bufcache_read (idev x) addr) (\<lambda>bp.
       kbind (buf_get bp) (\<lambda>b.
       kbind (if blk_load32 (bdata b) (4 * (bn - NDIRECT)) = 0
              then kbind (block_alloc (idev x)) (\<lambda>addr.
                   kthen (buf_upd bp (\<lambda>b. b\<lparr>bdata := blk_store32 (bdata b) (4 * (bn - NDIRECT)) addr\<rparr>))
                   (kthen (log_write bp) (kreturn addr)))
              else kreturn (blk_load32 (bdata b) (4 * (bn - NDIRECT)))) (\<lambda>addr.
       kthen (bufcache_release bp) (kreturn addr)))))
     else kfail (Panic ''bmap: out of range''))"

definition trunc_direct :: "u32 \<Rightarrow> ('a fs_ino_scheme, unit) kprog" where
  "trunc_direct ip =
     kfor 0 NDIRECT (\<lambda>i.
       kbind (ino_get ip) (\<lambda>x.
       kwhen (iaddrs x i \<noteq> 0)
         (kthen (block_free (idev x) (iaddrs x i))
                (ino_upd ip (\<lambda>x. x\<lparr>iaddrs := (iaddrs x)(i := 0)\<rparr>)))))"

definition trunc_indirect :: "u32 \<Rightarrow> ('a fs_ino_scheme, unit) kprog" where
  "trunc_indirect ip =
     kbind (ino_get ip) (\<lambda>x.
     kwhen (iaddrs x NDIRECT \<noteq> 0)
       (kbind (bufcache_read (idev x) (iaddrs x NDIRECT)) (\<lambda>bp.
        kthen (kfor 0 NINDIRECT (\<lambda>j.
          kbind (buf_get bp) (\<lambda>b.
          kwhen (blk_load32 (bdata b) (4 * j) \<noteq> 0)
            (block_free (idev x) (blk_load32 (bdata b) (4 * j))))))
        (kthen (bufcache_release bp)
        (kthen (block_free (idev x) (iaddrs x NDIRECT))
               (ino_upd ip (\<lambda>x. x\<lparr>iaddrs := (iaddrs x)(NDIRECT := 0)\<rparr>)))))))"

definition inode_trunc :: "u32 \<Rightarrow> ('a fs_ino_scheme, unit) kprog" where
  "inode_trunc ip =
     kthen (trunc_direct ip)
     (kthen (trunc_indirect ip)
     (kthen (ino_upd ip (\<lambda>x. x\<lparr>isize := 0\<rparr>))
            (inode_update ip)))"

definition inode_put :: "u32 \<Rightarrow> ('a fs_ino_scheme, unit) kprog" where
  "inode_put ip =
     kthen icache_acquire
     (kbind (ino_get ip) (\<lambda>x.
     kthen (kwhen (iref x = 1 \<and> iflags x AND I_VALID \<noteq> 0 \<and> inlink x = 0)
       (kthen (kassert (iflags x AND I_BUSY = 0) (Panic ''inode_put busy''))
       (kthen (ino_upd ip (\<lambda>x. x\<lparr>iflags := iflags x OR I_BUSY\<rparr>))
       (kthen icache_release
       (kthen (inode_trunc ip)
       (kthen (ino_upd ip (\<lambda>x. x\<lparr>itype := 0\<rparr>))
       (kthen (inode_update ip)
       (kthen icache_acquire
       (kthen (ino_upd ip (\<lambda>x. x\<lparr>iflags := 0\<rparr>))
              (thread_wakeup (InodeChan ip)))))))))))
     (kthen (ino_upd ip (\<lambda>x. x\<lparr>iref := iref x - 1\<rparr>))
            icache_release)))"

definition inode_unlockput :: "u32 \<Rightarrow> ('a fs_ino_scheme, unit) kprog" where
  "inode_unlockput ip = kthen (inode_unlock (Some ip)) (inode_put ip)"

definition inode_stat :: "u32 \<Rightarrow> ('a fs_ino_scheme, struct_file_stat) kprog" where
  "inode_stat ip = kbind (ino_get ip) (\<lambda>x.
     kreturn \<lparr>st_type = itype x, st_dev = idev x, st_ino = inum x, st_nlink = inlink x, st_size = isize x\<rparr>)"

definition devsw_bad :: "u16 \<Rightarrow> bool" where
  "devsw_bad major \<longleftrightarrow> major <s 0 \<or> NDEV \<le>s major"

text \<open>The piece of one block a transfer at \<open>off\<close> with \<open>len\<close> bytes to go handles.\<close>

definition piece :: "u32 \<Rightarrow> u32 \<Rightarrow> u32" where
  "piece off len = (if len < BSIZE - off mod BSIZE then len else BSIZE - off mod BSIZE)"

definition blk_slice :: "block \<Rightarrow> u32 \<Rightarrow> u32 \<Rightarrow> u8 list" where
  "blk_slice d p n = map (\<lambda>i. d (blk_index (p + of_nat i))) [0..<unat n]"

definition blk_put :: "block \<Rightarrow> u32 \<Rightarrow> u8 list \<Rightarrow> block" where
  "blk_put d p bs = (\<lambda>i. if unat p \<le> unat i \<and> unat i < unat p + length bs then bs ! (unat i - unat p) else d i)"

lemma block_rest: "0 < BSIZE - (off :: u32) mod BSIZE" "unat (BSIZE - (off :: u32) mod BSIZE) = 512 - unat off mod 512"
proof -
  have m: "off mod 512 \<le> 512" "unat (off mod 512) < 512"
    by (simp_all add: word_le_nat_alt unat_mod less_imp_le)
  show u: "unat (BSIZE - off mod BSIZE) = 512 - unat off mod 512"
    using unat_sub [OF m(1)] by (simp add: unat_mod)
  show "0 < BSIZE - off mod BSIZE" unfolding word_less_nat_alt u by simp
qed

lemma piece_le: "piece off len \<le> len" and piece_pos: "len \<noteq> 0 \<Longrightarrow> 0 < piece off len"
  using block_rest(1) [of off] by (auto simp: piece_def word_neq_0_conv not_less)

lemma piece_decreases: "len \<noteq> 0 \<Longrightarrow> unat (len - piece off len) < unat len"
  using piece_le [of off len] piece_pos [of len off]
  by (simp add: unat_sub word_less_nat_alt word_le_nat_alt)

text \<open>The transfer loops, with the number of bytes still to go instead of \<^verbatim>\<open>tot\<close>.\<close>

function inode_read_loop :: "u32 \<Rightarrow> u32 \<Rightarrow> u32 \<Rightarrow> u8 list \<Rightarrow> ('a fs_ino_scheme, u8 list) kprog" where
  "inode_read_loop ip off len dst s =
     (if len = 0 then Inr (dst, s)
      else kbind (kbind (bmap ip (off div BSIZE)) (\<lambda>addr.
             kbind (ino_get ip) (\<lambda>x.
             kbind (bufcache_read (idev x) addr) (\<lambda>bp.
             kbind (buf_get bp) (\<lambda>b.
             kthen (bufcache_release bp)
               (kreturn (blk_slice (bdata b) (off mod BSIZE) (piece off len))))))))
           (\<lambda>bs t. inode_read_loop ip (off + piece off len) (len - piece off len) (dst @ bs) t) s)"
  by pat_completeness auto
termination
  by (relation "measure (\<lambda>(_, _, len, _, _). unat len)") (simp_all add: piece_decreases)

declare inode_read_loop.simps [simp del]

definition inode_read :: "u32 \<Rightarrow> u32 \<Rightarrow> u32 \<Rightarrow> ('a fs_ino_scheme, u32 \<times> u8 list) kprog" where
  "inode_read ip off n =
     kbind (ino_get ip) (\<lambda>x.
     if itype x = T_DEV then
       (if devsw_bad (imajor x) then kreturn (-1, []) else kfail (Fault ''devsw''))
     else if off > isize x \<or> off + n < off then kreturn (-1, [])
     else let n = (if off + n > isize x then isize x - off else n) in
       kbind (inode_read_loop ip off n []) (\<lambda>bs. kreturn (n, bs)))"

text \<open>\<open>src\<close> is the whole buffer; the loop returns the offset after the last byte written.\<close>

function inode_write_loop :: "u32 \<Rightarrow> u8 list \<Rightarrow> u32 \<Rightarrow> u32 \<Rightarrow> ('a fs_ino_scheme, u32) kprog" where
  "inode_write_loop ip src off len s =
     (if len = 0 then Inr (off, s)
      else kbind (kbind (bmap ip (off div BSIZE)) (\<lambda>addr.
             kbind (ino_get ip) (\<lambda>x.
             kbind (bufcache_read (idev x) addr) (\<lambda>bp.
             kthen (kassert (unat (piece off len) \<le> length src) (Fault ''inode_write''))
             (kthen (buf_upd bp (\<lambda>b. b\<lparr>bdata := blk_put (bdata b) (off mod BSIZE) (take (unat (piece off len)) src)\<rparr>))
             (kthen (log_write bp)
                    (bufcache_release bp)))))))
           (\<lambda>_ t. inode_write_loop ip (drop (unat (piece off len)) src) (off + piece off len) (len - piece off len) t) s)"
  by pat_completeness auto
termination
  by (relation "measure (\<lambda>(_, _, _, len, _). unat len)") (simp_all add: piece_decreases)

declare inode_write_loop.simps [simp del]

definition inode_write :: "u32 \<Rightarrow> u8 list \<Rightarrow> u32 \<Rightarrow> u32 \<Rightarrow> ('a fs_ino_scheme, u32) kprog" where
  "inode_write ip src off n =
     kbind (ino_get ip) (\<lambda>x.
     if itype x = T_DEV then
       (if devsw_bad (imajor x) then kreturn (-1) else kfail (Fault ''devsw''))
     else if off > isize x \<or> off + n < off then kreturn (-1)
     else if off + n > MAXFILE * BSIZE then kreturn (-1)
     else kbind (inode_write_loop ip src off n) (\<lambda>off.
       kbind (ino_get ip) (\<lambda>x.
       kthen (kwhen (n > 0 \<and> off > isize x)
         (kthen (ino_upd ip (\<lambda>x. x\<lparr>isize := off\<rparr>)) (inode_update ip)))
         (kreturn n))))"

section \<open>The lock of the inode cache\<close>

interpretation icache_lk: lock_field icache_lk icache_lk_update
  by unfold_locales simp_all

lemma kwp_icache_acquire [wp]:
  "kwp icache_acquire Q s = (lock (icache_lk s) = 0 \<and> ks_magic s = KSTACK_MAGIC \<and> Q () (s\<lparr>icache_lk := lock_by (ks_cpu_idx s)\<rparr>))"
  unfolding icache_acquire_def by (rule icache_lk.acquire_wp)

lemma kwp_icache_release [wp]: "kwp icache_release Q s = Q () (s\<lparr>icache_lk := spinlock_init\<rparr>)"
  unfolding icache_release_def by (rule icache_lk.release_wp)

lemma kwp_ino_get [wp]: "kwp (ino_get ip) Q s = (ip < NINODE \<and> Q (inodes s ip) s)"
  by (simp add: ino_get_def wp)

lemma kwp_ino_upd [wp]: "kwp (ino_upd ip f) Q s = (ip < NINODE \<and> Q () (s\<lparr>inodes := (inodes s)(ip := f (inodes s ip))\<rparr>))"
  by (simp add: ino_upd_def wp)

end
