(* ===== verification/Dir.thy ===== *)
theory Dir
  imports Inode Strings
begin

text \<open>
  Directories (kern/fs/dir.c) and path names (kern/fs/path.c).

  A directory entry is 16 bytes: the inode number, little endian, and a name of 14 bytes. A name or
  a path is the list of bytes from the pointer on. Running past the end of such a list is a fault,
  as is following a null current directory. Entries are numbered: entry \<open>k\<close> is at offset \<open>16 * k\<close>.
\<close>

abbreviation (input) DIRSIZ :: nat where "DIRSIZ \<equiv> 14"
abbreviation (input) ROOTINO :: u32 where "ROOTINO \<equiv> 1"

definition kopt :: "'a option \<Rightarrow> kstop \<Rightarrow> ('s, 'a) kprog" where
  "kopt r e = (case r of None \<Rightarrow> kfail e | Some x \<Rightarrow> kreturn x)"

lemma kwp_kopt [wp]: "kwp (kopt r e) Q s = (case r of None \<Rightarrow> False | Some x \<Rightarrow> Q x s)"
  by (simp add: kopt_def wp split: option.splits)

section \<open>dir.c\<close>

definition de_inum :: "u8 list \<Rightarrow> u16" where
  "de_inum de = ucast (de ! 0) OR push_bit 8 (ucast (de ! 1))"

definition de_name :: "u8 list \<Rightarrow> u8 list" where
  "de_name de = drop 2 de"

definition dirent :: "u16 \<Rightarrow> u8 list \<Rightarrow> u8 list" where
  "dirent i name = [ucast i, ucast (drop_bit 8 i)] @ name"

definition dir_namecmp :: "u8 list \<Rightarrow> u8 list \<Rightarrow> int option" where
  "dir_namecmp a b = strncmp a b DIRSIZ"

text \<open>How often a loop over the entries from offset \<open>0\<close> runs.\<close>

definition dir_entries :: "u32 \<Rightarrow> u32" where
  "dir_entries sz = (if sz = 0 then 0 else (sz - 1) div 16 + 1)"

definition read_dirent :: "u32 \<Rightarrow> u32 \<Rightarrow> string \<Rightarrow> ('a fs_ino_scheme, u8 list) kprog" where
  "read_dirent dp off msg =
     kbind (inode_read dp off 16) (\<lambda>(r, de).
     kthen (kassert (r = 16) (Panic msg)) (kreturn de))"

definition dir_lookup :: "u32 \<Rightarrow> u8 list \<Rightarrow> ('a fs_ino_scheme, (u32 \<times> u32) option) kprog" where
  "dir_lookup dp name =
     kbind (ino_get dp) (\<lambda>x.
     kthen (kassert (itype x = T_DIR) (Panic ''dir_lookup not DIR''))
     (kfor_ret 0 (dir_entries (isize x)) (\<lambda>k.
       kbind (read_dirent dp (16 * k) ''dir_link read'') (\<lambda>de.
       if de_inum de = 0 then kreturn None
       else kbind (kopt (dir_namecmp name (de_name de)) (Fault ''name'')) (\<lambda>c.
         if c = 0 then kbind (inode_get (idev x) (ucast (de_inum de))) (\<lambda>ip. kreturn (Some (ip, 16 * k)))
         else kreturn None)))))"

definition dir_free_slot :: "u32 \<Rightarrow> ('a fs_ino_scheme, u32) kprog" where
  "dir_free_slot dp =
     kbind (ino_get dp) (\<lambda>x.
     kbind (kfor_ret 0 (dir_entries (isize x)) (\<lambda>k.
       kbind (read_dirent dp (16 * k) ''dir_link read'') (\<lambda>de.
       kreturn (if de_inum de = 0 then Some (16 * k) else None)))) (\<lambda>r.
     kreturn (case r of Some off \<Rightarrow> off | None \<Rightarrow> 16 * dir_entries (isize x))))"

definition dir_link :: "u32 \<Rightarrow> u8 list \<Rightarrow> u32 \<Rightarrow> ('a fs_ino_scheme, u32) kprog" where
  "dir_link dp name i =
     kbind (dir_lookup dp name) (\<lambda>r.
     case r of Some (ip, _) \<Rightarrow> kthen (inode_put ip) (kreturn (-1))
     | None \<Rightarrow>
       kbind (dir_free_slot dp) (\<lambda>off.
       kbind (kopt (strncpy name DIRSIZ) (Fault ''name'')) (\<lambda>nm.
       kbind (inode_write dp (dirent (ucast i) nm) off 16) (\<lambda>r.
       kthen (kassert (r = 16) (Panic ''dir_link'')) (kreturn 0)))))"

section \<open>path.c\<close>

text \<open>\<open>Some None\<close> is the null result; otherwise the element, terminated, and the rest of the path.\<close>

definition skipelem :: "u8 list \<Rightarrow> (u8 list \<times> u8 list) option option" where
  "skipelem path =
     (let p = dropWhile (\<lambda>c. c = 0x2f) path in
      if p = [] then None
      else if hd p = 0 then Some None
      else let e = takeWhile (\<lambda>c. c \<noteq> 0x2f \<and> c \<noteq> 0) p;
               r = dropWhile (\<lambda>c. c \<noteq> 0x2f \<and> c \<noteq> 0) p;
               q = dropWhile (\<lambda>c. c = 0x2f) r
      in if q = [] then None
         else Some (Some ((if length e \<ge> DIRSIZ then take (DIRSIZ - 1) e else e) @ [0], q)))"

lemma length_dropWhile_less: "xs \<noteq> [] \<Longrightarrow> P (hd xs) \<Longrightarrow> length (dropWhile P xs) < length xs"
  by (cases xs) (auto simp: le_imp_less_Suc length_dropWhile_le)

lemma skipelem_shorter: "skipelem path = Some (Some (name, rest)) \<Longrightarrow> length rest < length path"
proof -
  assume *: "skipelem path = Some (Some (name, rest))"
  define p where "p = dropWhile (\<lambda>c. c = 0x2f) path"
  define r where "r = dropWhile (\<lambda>c. c \<noteq> 0x2f \<and> c \<noteq> 0) p"
  from * have p: "p \<noteq> []" "hd p \<noteq> 0" and rest: "rest = dropWhile (\<lambda>c. c = 0x2f) r"
    by (simp_all add: skipelem_def Let_def flip: p_def r_def split: if_splits)
  have "hd p \<noteq> 0x2f" using p(1) hd_dropWhile [of "\<lambda>c. c = 0x2f" path] by (auto simp: p_def)
  then have "length r < length p" using p unfolding r_def by (intro length_dropWhile_less) auto
  also have "\<dots> \<le> length path" by (simp add: p_def length_dropWhile_le)
  finally have "length r < length path" .
  moreover have "length rest \<le> length r" by (simp add: rest length_dropWhile_le)
  ultimately show ?thesis by simp
qed

function namex_loop :: "bool \<Rightarrow> u8 list \<Rightarrow> u32 \<Rightarrow> ('a fs_ino_scheme, (u32 \<times> u8 list) option) kprog" where
  "namex_loop par path ip s =
     (case skipelem path of
        None \<Rightarrow> Inl (Fault ''path'')
      | Some None \<Rightarrow> (if par then kthen (inode_put ip) (kreturn None) else kreturn (Some (ip, []))) s
      | Some (Some (name, rest)) \<Rightarrow>
        kbind (kthen (inode_lock (Some ip))
          (kbind (ino_get ip) (\<lambda>x.
           if itype x \<noteq> T_DIR then kthen (inode_unlockput ip) (kreturn (Inl None))
           else if par \<and> hd rest = 0 then kthen (inode_unlock (Some ip)) (kreturn (Inl (Some (ip, name))))
           else kbind (dir_lookup ip name) (\<lambda>r.
             kthen (inode_unlockput ip)
               (kreturn (case r of None \<Rightarrow> Inl None | Some (nxt, _) \<Rightarrow> Inr nxt))))))
        (\<lambda>r t. case r of Inl v \<Rightarrow> Inr (v, t) | Inr nxt \<Rightarrow> namex_loop par rest nxt t) s)"
  by pat_completeness auto
termination
  by (relation "measure (\<lambda>(_, path, _, _). length path)") (auto dest: skipelem_shorter)

declare namex_loop.simps [simp del]

definition namex :: "u8 list \<Rightarrow> bool \<Rightarrow> ('a fs_ino_scheme, (u32 \<times> u8 list) option) kprog" where
  "namex path par =
     kthen (kassert (path \<noteq> []) (Fault ''path''))
     (kbind (if hd path = 0x2f then inode_get ROOTDEV ROOTINO
             else kbind get_curid (\<lambda>pid. kbind (tcb_get_cwd pid) (\<lambda>d.
               case d of None \<Rightarrow> kfail (Fault ''cwd'') | Some ip \<Rightarrow> inode_dup ip))) (\<lambda>ip.
     namex_loop par path ip))"

definition namei :: "u8 list \<Rightarrow> ('a fs_ino_scheme, u32 option) kprog" where
  "namei path = kbind (namex path False) (\<lambda>r. kreturn (map_option fst r))"

definition nameiparent :: "u8 list \<Rightarrow> ('a fs_ino_scheme, (u32 \<times> u8 list) option) kprog" where
  "nameiparent path = namex path True"

section \<open>Path names\<close>

text \<open>The elements of a path: the maximal runs of characters other than the slash.\<close>

fun comps :: "u8 list \<Rightarrow> u8 list \<Rightarrow> u8 list list" where
  "comps acc [] = (if acc = [] then [] else [acc])"
| "comps acc (c # cs) =
     (if c = 0x2f then (if acc = [] then [] else [acc]) @ comps [] cs else comps (acc @ [c]) cs)"

text \<open>The names \<open>namex_loop\<close> looks up, one after the other.\<close>

function path_names :: "u8 list \<Rightarrow> u8 list list option" where
  "path_names path =
     (case skipelem path of None \<Rightarrow> None | Some None \<Rightarrow> Some []
      | Some (Some (name, rest)) \<Rightarrow> map_option ((#) name) (path_names rest))"
  by pat_completeness auto
termination
  by (relation "measure length") (auto dest: skipelem_shorter)

declare path_names.simps [simp del]

lemma comps_run: "0x2f \<notin> set e \<Longrightarrow> comps acc (e @ r) = comps (acc @ e) r"
  by (induction e arbitrary: acc) auto

lemma comps_slashes: "comps [] (dropWhile (\<lambda>c. c = 0x2f) cs) = comps [] cs"
  by (induction cs) auto

lemma comps_end: "acc \<noteq> [] \<Longrightarrow> r = [] \<or> hd r = 0x2f \<Longrightarrow> comps acc r = acc # comps [] r"
  by (cases r) auto

lemma dropWhile_stop: "\<not> P z \<Longrightarrow> dropWhile P (xs @ z # ys) = dropWhile P xs @ z # ys"
  by (induction xs) auto

lemma takeWhile_stop: "\<not> P z \<Longrightarrow> takeWhile P (xs @ z # ys) = takeWhile P xs"
  by (induction xs) auto

lemma skipelem_comps:
  fixes cs :: "u8 list"
  assumes "0 \<notin> set cs"
  shows "(comps [] cs = [] \<and> skipelem (cs @ 0 # j) = Some None) \<or>
    (\<exists>e q. comps [] cs = e # comps [] q \<and> 0 \<notin> set q \<and> length q < length cs \<and> skipelem (cs @ 0 # j) = Some (Some (take 13 e @ [0], q @ 0 # j)))"
proof (cases "dropWhile (\<lambda>c. c = 0x2f) cs = []")
  case True
  then have "comps [] cs = []" using comps_slashes [of cs] by (simp only: comps.simps if_True refl)
  then show ?thesis using True by (simp add: skipelem_def dropWhile_stop)
next
  case False
  define p e r q where d: "p = dropWhile (\<lambda>c. c = 0x2f) cs" "e = takeWhile (\<lambda>c. c \<noteq> 0x2f) p" "r = dropWhile (\<lambda>c. c \<noteq> 0x2f) p"
    "q = dropWhile (\<lambda>c. c = 0x2f) r"
  have p: "p \<noteq> []" "hd p \<noteq> 0x2f" "0 \<notin> set p" "p = e @ r"
    using False hd_dropWhile [OF False] assms set_dropWhileD [of 0 _ cs] by (auto simp: d)
  have "e \<noteq> []" using p(1,2) by (cases p) (simp_all add: d(2))
  moreover have "0x2f \<notin> set e" by (auto simp: d(2) dest: set_takeWhileD)
  moreover have r: "r = [] \<or> hd r = 0x2f" using hd_dropWhile [of "\<lambda>c. c \<noteq> 0x2f" p] by (auto simp: d(3))
  ultimately have e: "e \<noteq> []" "0x2f \<notin> set e" by blast+
  have same: "takeWhile (\<lambda>c. c \<noteq> 0x2f \<and> c \<noteq> 0) p = e" "dropWhile (\<lambda>c. c \<noteq> 0x2f \<and> c \<noteq> 0) p = r"
    unfolding d(2,3) using p(3) by (auto intro!: takeWhile_cong dropWhile_cong)
  have "comps [] cs = comps [] p" using comps_slashes [of cs] by (simp add: d)
  also have "\<dots> = e # comps [] q"
    using comps_run [OF e(2), of "[]" r] comps_end [OF e(1) r] comps_slashes [of r] p(4) by (simp add: d)
  finally have c: "comps [] cs = e # comps [] q" .
  have "0 \<notin> set q" using p(3) set_dropWhileD [of 0 _ r] unfolding p(4) d(4) by auto
  moreover have "length q < length cs"
  proof -
    have "length q \<le> length r" "length p \<le> length cs" "0 < length e" using e(1) by (simp_all add: d(1,4) length_dropWhile_le)
    then show ?thesis unfolding p(4) length_append by linarith
  qed
  moreover have "skipelem (cs @ 0 # j) = Some (Some (take 13 e @ [0], q @ 0 # j))"
  proof -
    have "dropWhile (\<lambda>c. c = 0x2f) (cs @ 0 # j) = p @ 0 # j" "dropWhile (\<lambda>c. c = 0x2f) (r @ 0 # j) = q @ 0 # j"
      by (simp_all add: dropWhile_stop d(1,4))
    moreover have "takeWhile (\<lambda>c. c \<noteq> 0x2f \<and> c \<noteq> 0) (p @ 0 # j) = e" "dropWhile (\<lambda>c. c \<noteq> 0x2f \<and> c \<noteq> 0) (p @ 0 # j) = r @ 0 # j"
      using same by (simp_all add: dropWhile_stop takeWhile_stop)
    moreover have "hd (p @ 0 # j) \<noteq> 0" using p(1,3) by (cases p) auto
    ultimately show ?thesis unfolding skipelem_def Let_def by simp
  qed
  ultimately show ?thesis using c by blast
qed

lemma path_names_comps: "0 \<notin> set cs \<Longrightarrow> path_names (cs @ 0 # j) = Some (map (\<lambda>e. take 13 e @ [0]) (comps [] cs))"
proof (induction "length cs" arbitrary: cs rule: less_induct)
  case less
  from skipelem_comps [OF less.prems, of j] show ?case
  proof
    assume "comps [] cs = [] \<and> skipelem (cs @ 0 # j) = Some None"
    then show ?thesis by (subst path_names.simps) simp
  next
    assume "\<exists>e q. comps [] cs = e # comps [] q \<and> 0 \<notin> set q \<and> length q < length cs \<and>
      skipelem (cs @ 0 # j) = Some (Some (take 13 e @ [0], q @ 0 # j))"
    then obtain e q where "comps [] cs = e # comps [] q" "skipelem (cs @ 0 # j) = Some (Some (take 13 e @ [0], q @ 0 # j))"
      "path_names (q @ 0 # j) = Some (map (\<lambda>e. take 13 e @ [0]) (comps [] q))" using less.hyps by blast
    then show ?thesis by (subst path_names.simps) simp
  qed
qed

text \<open>
  C21: Repeated \<^verbatim>\<open>skipelem\<close> terminates on every terminated path and yields exactly its elements, in order:
  the maximal runs of characters between slashes, each cut to thirteen characters and
  terminated, whatever the number of slashes before, between and after them. What follows
  the terminator in the buffer is never looked at.
\<close>

theorem skipelem_names:
  assumes "0 \<notin> set cs"
  shows "path_names (cs @ 0 # j) = Some (map (\<lambda>e. take (DIRSIZ - 1) e @ [0]) (comps [] cs))"
  using path_names_comps [OF assms] by simp

theorem skipelem_names_witness:
  "path_names (map (\<lambda>c. of_nat (of_char c)) ''//usr/a_long_file_name/b/'' @ 0 # [47, 99]) =
     Some (map (\<lambda>w. map (\<lambda>c. of_nat (of_char c)) w @ [0]) [''usr'', ''a_long_file_n'', ''b''])"
  by (subst skipelem_names) simp_all

end
