(* ===== verification/File.thy ===== *)
theory File
  imports Dir
begin

text \<open>
  The table of open files (kern/fs/file.c). A pointer to a file is its index in \<^verbatim>\<open>ftable.file\<close>, the
  null pointer is \<open>None\<close>, and following it is a fault. A read returns the bytes it stores; a write
  takes the bytes of the buffer from the pointer on.
\<close>

abbreviation (input) NFILE :: u32 where "NFILE \<equiv> 100"

datatype fd_type = FD_NONE | FD_PIPE | FD_INODE

record file_t =
  ftype :: fd_type
  fref :: u32
  readable :: bool
  writable :: bool
  fip :: "u32 option"
  foff :: u32

record fs_file = fs_ino +
  ftable_lk :: spinlock_t
  files :: "u32 \<Rightarrow> file_t"

definition ftable_acquire :: "('a fs_file_scheme, unit) kprog" where
  "ftable_acquire = spinlock_acquire ftable_lk ftable_lk_update"

definition ftable_release :: "('a fs_file_scheme, unit) kprog" where
  "ftable_release = spinlock_release ftable_lk ftable_lk_update"

definition file_get :: "u32 option \<Rightarrow> ('a fs_file_scheme, u32 \<times> file_t) kprog" where
  "file_get p = (case p of None \<Rightarrow> kfail (Fault ''file'')
     | Some f \<Rightarrow> kthen (kassert (f < NFILE) (Fault ''file'')) (kgets (\<lambda>s. (f, files s f))))"

definition file_upd :: "u32 \<Rightarrow> (file_t \<Rightarrow> file_t) \<Rightarrow> ('a fs_file_scheme, unit) kprog" where
  "file_upd f g = kthen (kassert (f < NFILE) (Fault ''file''))
     (kmodify (\<lambda>s. s\<lparr>files := (files s)(f := g (files s f))\<rparr>))"

definition file_init :: "('a fs_file_scheme, unit) kprog" where
  "file_init = kmodify (\<lambda>s. s\<lparr>ftable_lk := spinlock_init\<rparr>)"

definition file_alloc :: "('a fs_file_scheme, u32 option) kprog" where
  "file_alloc =
     kthen ftable_acquire
     (kbind (kfor_ret 0 NFILE (\<lambda>f.
       kbind (file_get (Some f)) (\<lambda>(_, x).
       if fref x = 0 then kthen (file_upd f (\<lambda>x. x\<lparr>fref := 1\<rparr>)) (kreturn (Some f))
       else kreturn None))) (\<lambda>r.
     kthen ftable_release (kreturn r)))"

definition file_dup :: "u32 option \<Rightarrow> ('a fs_file_scheme, u32) kprog" where
  "file_dup p =
     kthen ftable_acquire
     (kbind (file_get p) (\<lambda>(f, x).
     kthen (kassert (\<not> fref x <s 1) (Panic ''file_dup''))
     (kthen (file_upd f (\<lambda>x. x\<lparr>fref := fref x + 1\<rparr>))
     (kthen ftable_release (kreturn f)))))"

definition fip_of :: "file_t \<Rightarrow> ('a fs_file_scheme, u32) kprog" where
  "fip_of x = (case fip x of None \<Rightarrow> kfail (Fault ''inode'') | Some ip \<Rightarrow> kreturn ip)"

definition file_close :: "u32 option \<Rightarrow> ('a fs_file_scheme, unit) kprog" where
  "file_close p =
     kthen ftable_acquire
     (kbind (file_get p) (\<lambda>(f, x).
     kthen (kassert (\<not> fref x <s 1) (Panic ''file_close''))
     (kthen (file_upd f (\<lambda>x. x\<lparr>fref := fref x - 1\<rparr>))
     (if 0 <s fref x - 1 then ftable_release
      else kthen (file_upd f (\<lambda>x. x\<lparr>fref := 0\<rparr>))
        (kthen (file_upd f (\<lambda>x. x\<lparr>ftype := FD_NONE\<rparr>))
        (kthen ftable_release
        (kwhen (ftype x = FD_INODE)
          (kthen begin_trans
          (kbind (fip_of x) (\<lambda>ip.
          kthen (inode_put ip)
                commit_trans))))))))))"

definition file_stat :: "u32 option \<Rightarrow> ('a fs_file_scheme, struct_file_stat option) kprog" where
  "file_stat p =
     kbind (file_get p) (\<lambda>(f, x).
     if ftype x = FD_INODE
     then kthen (inode_lock (fip x))
          (kbind (fip_of x) (\<lambda>ip.
           kbind (inode_stat ip) (\<lambda>st.
           kthen (inode_unlock (fip x)) (kreturn (Some st)))))
     else kreturn None)"

definition file_read :: "u32 option \<Rightarrow> u32 \<Rightarrow> ('a fs_file_scheme, u32 \<times> u8 list) kprog" where
  "file_read p n =
     kbind (file_get p) (\<lambda>(f, x).
     if \<not> readable x then kreturn (-1, [])
     else if ftype x = FD_INODE
     then kthen (inode_lock (fip x))
          (kbind (fip_of x) (\<lambda>ip.
           kbind (inode_read ip (foff x) n) (\<lambda>(r, bs).
           kthen (kwhen (0 <s r) (file_upd f (\<lambda>x. x\<lparr>foff := foff x + r\<rparr>)))
           (kthen (inode_unlock (fip x))
                  (kreturn (r, bs))))))
     else kfail (Panic ''file_read''))"

abbreviation (input) MAXWRITE :: u32 where "MAXWRITE \<equiv> 1536"

definition write_part :: "u32 \<Rightarrow> u32" where
  "write_part n1 = (if MAXWRITE <s n1 then MAXWRITE else n1)"

lemma write_part_decreases: "len \<noteq> 0 \<Longrightarrow> unat (len - write_part len) < unat len"
proof (cases "MAXWRITE <s len")
  case True
  then have big: "1536 < sint len" by (simp add: word_sless_alt)
  have "1536 \<le> unat len"
  proof (rule ccontr)
    assume "\<not> 1536 \<le> unat len"
    then have "unat len < 1536" "sint len = int (unat len)" by (simp, intro sint_small) simp
    then show False using big by linarith
  qed
  then show ?thesis using True by (simp add: write_part_def unat_sub word_le_nat_alt)
qed (simp add: write_part_def word_neq_0_conv word_less_nat_alt)

text \<open>One round of the loop of \<^verbatim>\<open>file_write\<close>: a transaction that writes at most three blocks.\<close>

definition file_write_step :: "u32 \<Rightarrow> u8 list \<Rightarrow> u32 \<Rightarrow> ('a fs_file_scheme, u32) kprog" where
  "file_write_step f src n1 =
     kbind (file_get (Some f)) (\<lambda>(_, x).
     kthen begin_trans
     (kthen (inode_lock (fip x))
     (kbind (fip_of x) (\<lambda>ip.
     kbind (inode_write ip src (foff x) n1) (\<lambda>r.
     kthen (kwhen (0 <s r) (file_upd f (\<lambda>x. x\<lparr>foff := foff x + r\<rparr>)))
     (kthen (inode_unlock (fip x))
     (kthen commit_trans (kreturn r))))))))"

text \<open>The loop: the count \<^verbatim>\<open>i\<close> at its end.\<close>

function file_write_loop :: "u32 \<Rightarrow> u8 list \<Rightarrow> u32 \<Rightarrow> u32 \<Rightarrow> ('a fs_file_scheme, u32) kprog" where
  "file_write_loop f src n i s =
     (if i <s n
      then kbind (kbind (file_write_step f (drop (unat i) src) (write_part (n - i))) (\<lambda>r.
             kthen (kassert (r <s 0 \<or> r = write_part (n - i)) (Panic ''short file_write'')) (kreturn r)))
           (\<lambda>r t. if r <s 0 then Inr (i, t) else file_write_loop f src n (i + write_part (n - i)) t) s
      else Inr (i, s))"
  by pat_completeness auto
termination
proof (relation "measure (\<lambda>(_, _, n, i, _). unat (n - i))")
  fix f src n i s
  assume "(i :: u32) <s n"
  then have "n - i \<noteq> 0" by auto
  then show "\<And>r t. ((f, src, n, i + write_part (n - i), t), f, src, n, i, s) \<in> measure (\<lambda>(_, _, n, i, _). unat (n - i))"
    using write_part_decreases [of "n - i"] by (simp add: algebra_simps)
qed simp

declare file_write_loop.simps [simp del]

definition file_write :: "u32 option \<Rightarrow> u8 list \<Rightarrow> u32 \<Rightarrow> ('a fs_file_scheme, u32) kprog" where
  "file_write p src n =
     kbind (file_get p) (\<lambda>(f, x).
     if \<not> writable x then kreturn (-1)
     else if ftype x = FD_INODE
     then kbind (file_write_loop f src n 0) (\<lambda>i. kreturn (if i = n then n else -1))
     else kfail (Panic ''file_write''))"

end
