(* ===== verification/TSyscallArg.thy ===== *)
theory TSyscallArg
  imports Kernel_Prelude
begin

text \<open>
  The trap frame (kern/lib/trap.h) and the accessors of system call arguments and results
  (kern/trap/TSyscallArg/TSyscallArg.c). A handler takes the frame and returns the changed one.
\<close>

record pushregs =
  edi :: u32
  esi :: u32
  ebp :: u32
  oesp :: u32
  ebx :: u32
  edx :: u32
  ecx :: u32
  eax :: u32

record tf_t =
  regs :: pushregs
  tf_es :: u16
  tf_ds :: u16
  trapno :: u32
  tf_err :: u32
  tf_eip :: u32
  tf_cs :: u16
  tf_eflags :: u32
  tf_esp :: u32
  tf_ss :: u16

definition syscall_get_arg1 :: "tf_t \<Rightarrow> u32" where "syscall_get_arg1 tf = eax (regs tf)"

definition syscall_get_arg2 :: "tf_t \<Rightarrow> u32" where "syscall_get_arg2 tf = ebx (regs tf)"

definition syscall_get_arg3 :: "tf_t \<Rightarrow> u32" where "syscall_get_arg3 tf = ecx (regs tf)"

definition syscall_get_arg4 :: "tf_t \<Rightarrow> u32" where "syscall_get_arg4 tf = edx (regs tf)"

definition syscall_get_arg5 :: "tf_t \<Rightarrow> u32" where "syscall_get_arg5 tf = esi (regs tf)"

definition syscall_get_arg6 :: "tf_t \<Rightarrow> u32" where "syscall_get_arg6 tf = edi (regs tf)"

definition syscall_set_errno :: "u32 \<Rightarrow> tf_t \<Rightarrow> tf_t" where
  "syscall_set_errno e tf = tf\<lparr>regs := (regs tf)\<lparr>eax := e\<rparr>\<rparr>"

definition syscall_set_retval1 :: "u32 \<Rightarrow> tf_t \<Rightarrow> tf_t" where
  "syscall_set_retval1 v tf = tf\<lparr>regs := (regs tf)\<lparr>ebx := v\<rparr>\<rparr>"

definition syscall_set_retval2 :: "u32 \<Rightarrow> tf_t \<Rightarrow> tf_t" where
  "syscall_set_retval2 v tf = tf\<lparr>regs := (regs tf)\<lparr>ecx := v\<rparr>\<rparr>"

definition syscall_set_retval3 :: "u32 \<Rightarrow> tf_t \<Rightarrow> tf_t" where
  "syscall_set_retval3 v tf = tf\<lparr>regs := (regs tf)\<lparr>edx := v\<rparr>\<rparr>"

definition syscall_set_retval4 :: "u32 \<Rightarrow> tf_t \<Rightarrow> tf_t" where
  "syscall_set_retval4 v tf = tf\<lparr>regs := (regs tf)\<lparr>esi := v\<rparr>\<rparr>"

definition syscall_set_retval5 :: "u32 \<Rightarrow> tf_t \<Rightarrow> tf_t" where
  "syscall_set_retval5 v tf = tf\<lparr>regs := (regs tf)\<lparr>edi := v\<rparr>\<rparr>"

text \<open>The error numbers the handlers use, from kern/lib/syscall.h.\<close>

datatype errno_t = E_SUCC | E_MEM | E_IPC | E_INVAL_CALLNR | E_INVAL_ADDR | E_INVAL_PID | E_INVAL_REG | E_INVAL_SEG
  | E_INVAL_EVENT | E_INVAL_PORT | E_INVAL_HVM | E_INVAL_CHID | E_INVAL_ID | E_DISK_OP | E_HVM_VMRUN | E_HVM_MMAP
  | E_HVM_REG | E_HVM_SEG | E_HVM_NEIP | E_HVM_INJECT | E_HVM_IOPORT | E_HVM_MSR | E_HVM_INTRWIN
  | E_EXCEEDS_QUOTA | E_MAX_NUM_CHILDEN_REACHED | E_INVAL_CHILD_ID | E_NEXIST | E_CREATE | E_FNF | E_BADF

primrec error_nr :: "errno_t \<Rightarrow> u32" where
  "error_nr E_SUCC = 0" | "error_nr E_MEM = 1" | "error_nr E_IPC = 2" | "error_nr E_INVAL_CALLNR = 3"
| "error_nr E_INVAL_ADDR = 4" | "error_nr E_INVAL_PID = 5" | "error_nr E_INVAL_REG = 6" | "error_nr E_INVAL_SEG = 7"
| "error_nr E_INVAL_EVENT = 8" | "error_nr E_INVAL_PORT = 9" | "error_nr E_INVAL_HVM = 10" | "error_nr E_INVAL_CHID = 11"
| "error_nr E_INVAL_ID = 12" | "error_nr E_DISK_OP = 13" | "error_nr E_HVM_VMRUN = 14" | "error_nr E_HVM_MMAP = 15"
| "error_nr E_HVM_REG = 16" | "error_nr E_HVM_SEG = 17" | "error_nr E_HVM_NEIP = 18" | "error_nr E_HVM_INJECT = 19"
| "error_nr E_HVM_IOPORT = 20" | "error_nr E_HVM_MSR = 21" | "error_nr E_HVM_INTRWIN = 22" | "error_nr E_EXCEEDS_QUOTA = 23"
| "error_nr E_MAX_NUM_CHILDEN_REACHED = 24" | "error_nr E_INVAL_CHILD_ID = 25" | "error_nr E_NEXIST = 26"
| "error_nr E_CREATE = 27" | "error_nr E_FNF = 28" | "error_nr E_BADF = 29"

definition set_err :: "errno_t \<Rightarrow> tf_t \<Rightarrow> tf_t" where
  "set_err e = syscall_set_errno (error_nr e)"

lemmas syscall_args = syscall_get_arg1_def syscall_get_arg2_def syscall_get_arg3_def syscall_get_arg4_def
  syscall_get_arg5_def syscall_get_arg6_def

text \<open>Results and error numbers do not disturb each other, and setting one keeps everything else of the frame.\<close>

lemma frame_results [simp]:
  "eax (regs (set_err e tf)) = error_nr e" "ebx (regs (set_err e tf)) = ebx (regs tf)"
  "eax (regs (syscall_set_retval1 v tf)) = eax (regs tf)" "ebx (regs (syscall_set_retval1 v tf)) = v"
  "syscall_get_arg3 (set_err e tf) = syscall_get_arg3 tf" "syscall_get_arg3 (syscall_set_retval1 v tf) = syscall_get_arg3 tf"
  by (simp_all add: set_err_def syscall_set_errno_def syscall_set_retval1_def syscall_get_arg3_def)

end
