(* ===== verification/Sysfile.thy ===== *)
theory Sysfile
  imports File TSyscallArg
begin

text \<open>
  The file-system calls (kern/fs/sysfile.c).

  A handler takes the trap frame and returns the changed one. The kernel buffers are memory at
  addresses the definitions take as arguments: the static \<^verbatim>\<open>fbuf\<close> and the buffers \<^verbatim>\<open>path\<close>, \<^verbatim>\<open>old\<close>,
  \<^verbatim>\<open>new\<close> and \<^verbatim>\<open>st\<close> on the kernel stack. A descriptor outside the table of sixteen and an access past
  \<^verbatim>\<open>fbuf\<close> are faults. The static \<^verbatim>\<open>first\<close> of \<^verbatim>\<open>sys_open\<close> is a field of the state.
\<close>

abbreviation (input) O_RDONLY :: u32 where "O_RDONLY \<equiv> 0"
abbreviation (input) O_WRONLY :: u32 where "O_WRONLY \<equiv> 1"
abbreviation (input) O_RDWR :: u32 where "O_RDWR \<equiv> 2"
abbreviation (input) O_CREATE :: u32 where "O_CREATE \<equiv> 0x200"
abbreviation (input) FBUFSIZE :: u32 where "FBUFSIZE \<equiv> 10000"
abbreviation (input) PATHSIZE :: u32 where "PATHSIZE \<equiv> 128"

record fs_sys = fs_file +
  sys_open_first :: bool

section \<open>Buffers\<close>

definition kbytes :: "u32 \<Rightarrow> u32 \<Rightarrow> ('a fs_sys_scheme, u8 list) kprog" where
  "kbytes a n = kgets (\<lambda>s. map (\<lambda>i. phys_mem s (a + of_nat i)) [0..<unat n])"

definition kstore :: "u32 \<Rightarrow> u8 list \<Rightarrow> ('a fs_sys_scheme, unit) kprog" where
  "kstore a bs = kmodify (\<lambda>s. s\<lparr>phys_mem :=
     (\<lambda>p. if unat (p - a) < length bs then bs ! unat (p - a) else phys_mem s p)\<rparr>)"

definition copies :: "u32 \<Rightarrow> u32 \<Rightarrow> u32 \<Rightarrow> bool" where
  "copies uva kva len \<longleftrightarrow> VM_USERLO \<le> uva \<and> uva + len \<le> VM_USERHI \<and> kva + len \<le> VM_USERHI"

definition in_fbuf :: "u32 \<Rightarrow> u32 \<Rightarrow> u32 \<Rightarrow> ('a fs_sys_scheme, unit) kprog" where
  "in_fbuf uva kva len = kassert (copies uva kva len \<longrightarrow> len \<le> FBUFSIZE) (Fault ''fbuf'')"

definition copyin_path :: "u32 \<Rightarrow> u32 \<Rightarrow> ('a fs_sys_scheme, u8 list) kprog" where
  "copyin_path uva path =
     kbind get_curid (\<lambda>pid.
     kthen (kbind (pt_copyin pid uva path PATHSIZE) (\<lambda>_. kreturn ()))
           (kbytes path PATHSIZE))"

section \<open>Descriptors\<close>

definition fdalloc :: "u32 option \<Rightarrow> ('a fs_sys_scheme, u32 option) kprog" where
  "fdalloc f =
     kfor_ret 0 NOFILE (\<lambda>fd.
       kbind get_curid (\<lambda>pid.
       kbind (tcb_get_openfiles pid) (\<lambda>fs.
       if fs fd = None then kthen (tcb_set_openfiles pid fd f) (kreturn (Some fd))
       else kreturn None)))"

definition fd_file :: "u32 \<Rightarrow> ('a fs_sys_scheme, u32 option) kprog" where
  "fd_file fd =
     kbind get_curid (\<lambda>pid.
     kbind (tcb_get_openfiles pid) (\<lambda>fs.
     kthen (kassert (fd < NOFILE) (Fault ''openfiles'')) (kreturn (fs fd))))"

definition fail_badf :: "tf_t \<Rightarrow> tf_t" where
  "fail_badf tf = set_err E_BADF (syscall_set_retval1 (-1) tf)"

text \<open>The test \<^verbatim>\<open>n < 0\<close> of an unsigned \<^verbatim>\<open>n\<close> never holds.\<close>

definition sys_read :: "u32 \<Rightarrow> tf_t \<Rightarrow> ('a fs_sys_scheme, tf_t) kprog" where
  "sys_read fbuf tf =
     (let fd = syscall_get_arg2 tf; n = syscall_get_arg4 tf in
      kbind (fd_file fd) (\<lambda>f.
      kbind (file_read f n) (\<lambda>(r, bs).
      kthen (kassert (length bs \<le> unat FBUFSIZE) (Fault ''fbuf''))
      (kthen (kstore fbuf bs)
      (if r <s 0 then kreturn (fail_badf tf)
       else kthen (in_fbuf (syscall_get_arg3 tf) fbuf n)
         (kbind get_curid (\<lambda>pid.
          kbind (pt_copyout fbuf pid (syscall_get_arg3 tf) n) (\<lambda>_.
          kreturn (set_err E_SUCC (syscall_set_retval1 r tf)))))))))) "

definition sys_write :: "u32 \<Rightarrow> tf_t \<Rightarrow> ('a fs_sys_scheme, tf_t) kprog" where
  "sys_write fbuf tf =
     (let fd = syscall_get_arg2 tf; n = syscall_get_arg4 tf in
      kthen (in_fbuf (syscall_get_arg3 tf) fbuf n)
      (kbind get_curid (\<lambda>pid.
      kbind (pt_copyin pid (syscall_get_arg3 tf) fbuf n) (\<lambda>_.
      kbind (fd_file fd) (\<lambda>f.
      kbind (kbytes fbuf FBUFSIZE) (\<lambda>src.
      kbind (file_write f src n) (\<lambda>r.
      if r <s 0 then kreturn (fail_badf tf)
      else kreturn (set_err E_SUCC (syscall_set_retval1 n tf)))))))))"

text \<open>After the failure for a negative descriptor the handler goes on.\<close>

definition sys_close :: "tf_t \<Rightarrow> ('a fs_sys_scheme, tf_t) kprog" where
  "sys_close tf =
     (let fd = syscall_get_arg2 tf in
      kbind (fd_file fd) (\<lambda>f.
      let tf = (if fd <s 0 then fail_badf tf else tf) in
      kbind get_curid (\<lambda>pid.
      kthen (tcb_set_openfiles pid fd None)
      (kthen (file_close f)
             (kreturn (set_err E_SUCC (syscall_set_retval1 0 tf)))))))"

text \<open>\<^verbatim>\<open>pt_copyout\<close> is called with the user's address as the kernel address and the other way round.\<close>

definition sys_fstat :: "u32 \<Rightarrow> tf_t \<Rightarrow> ('a fs_sys_scheme, tf_t) kprog" where
  "sys_fstat st tf =
     kbind (fd_file (syscall_get_arg2 tf)) (\<lambda>f.
     kbind (file_stat f) (\<lambda>r.
     case r of None \<Rightarrow> kreturn (fail_badf tf)
     | Some _ \<Rightarrow>
       kbind get_curid (\<lambda>pid.
       kbind (pt_copyout (syscall_get_arg3 tf) pid st 20) (\<lambda>_.
       kreturn (set_err E_SUCC (syscall_set_retval1 0 tf))))))"

section \<open>Links\<close>

definition sys_link_bad :: "u32 \<Rightarrow> tf_t \<Rightarrow> ('a fs_sys_scheme, tf_t) kprog" where
  "sys_link_bad ip tf =
     kthen (inode_lock (Some ip))
     (kthen (ino_upd ip (\<lambda>x. x\<lparr>inlink := inlink x - 1\<rparr>))
     (kthen (inode_update ip)
     (kthen (inode_unlockput ip)
     (kthen commit_trans
            (kreturn (set_err E_DISK_OP tf))))))"

definition sys_link_into :: "u32 \<Rightarrow> u32 \<Rightarrow> u8 list \<Rightarrow> tf_t \<Rightarrow> ('a fs_sys_scheme, tf_t) kprog" where
  "sys_link_into ip dp name tf =
     kthen (inode_lock (Some dp))
     (kbind (ino_get dp) (\<lambda>d.
     kbind (ino_get ip) (\<lambda>x.
     kbind (if idev d \<noteq> idev x then kreturn True
            else kbind (dir_link dp name (inum x)) (\<lambda>r. kreturn (r <s 0))) (\<lambda>bad.
     if bad then kthen (inode_unlockput dp) (sys_link_bad ip tf)
     else kthen (inode_unlockput dp)
          (kthen (inode_put ip)
          (kthen commit_trans
                 (kreturn (set_err E_SUCC tf))))))))"

definition sys_link :: "u32 \<Rightarrow> u32 \<Rightarrow> tf_t \<Rightarrow> ('a fs_sys_scheme, tf_t) kprog" where
  "sys_link old new tf =
     kbind (copyin_path (syscall_get_arg2 tf) old) (\<lambda>_.
     kbind (copyin_path (syscall_get_arg3 tf) new) (\<lambda>newp.
     kbind (kbytes old PATHSIZE) (\<lambda>oldp.
     kbind (namei oldp) (\<lambda>r.
     case r of None \<Rightarrow> kreturn (set_err E_NEXIST tf)
     | Some ip \<Rightarrow>
       kthen begin_trans
       (kthen (inode_lock (Some ip))
       (kbind (ino_get ip) (\<lambda>x.
       if itype x = T_DIR
       then kthen (inode_unlockput ip) (kthen commit_trans (kreturn (set_err E_DISK_OP tf)))
       else kthen (ino_upd ip (\<lambda>x. x\<lparr>inlink := inlink x + 1\<rparr>))
         (kthen (inode_update ip)
         (kthen (inode_unlock (Some ip))
         (kbind (nameiparent newp) (\<lambda>r.
          case r of None \<Rightarrow> sys_link_bad ip tf
          | Some (dp, name) \<Rightarrow> sys_link_into ip dp name tf)))))))))))"

definition isdirempty :: "u32 \<Rightarrow> ('a fs_sys_scheme, bool) kprog" where
  "isdirempty dp =
     kbind (ino_get dp) (\<lambda>x.
     kbind (kfor_ret 2 (dir_entries (isize x)) (\<lambda>k.
       kbind (read_dirent dp (16 * k) ''isdirempty: readi'') (\<lambda>de.
       kreturn (if de_inum de \<noteq> 0 then Some () else None)))) (\<lambda>r.
     kreturn (r = None)))"

definition sys_unlink_bad :: "u32 \<Rightarrow> tf_t \<Rightarrow> ('a fs_sys_scheme, tf_t) kprog" where
  "sys_unlink_bad dp tf =
     kthen (inode_unlockput dp) (kthen commit_trans (kreturn (set_err E_DISK_OP tf)))"

definition sys_unlink_entry :: "u32 \<Rightarrow> u32 \<Rightarrow> u32 \<Rightarrow> tf_t \<Rightarrow> ('a fs_sys_scheme, tf_t) kprog" where
  "sys_unlink_entry dp ip off tf =
     kbind (inode_write dp (replicate 16 0) off 16) (\<lambda>r.
     kthen (kassert (r = 16) (Panic ''unlink: writei''))
     (kbind (ino_get ip) (\<lambda>x.
     kthen (kwhen (itype x = T_DIR)
       (kthen (ino_upd dp (\<lambda>d. d\<lparr>inlink := inlink d - 1\<rparr>)) (inode_update dp)))
     (kthen (inode_unlockput dp)
     (kthen (ino_upd ip (\<lambda>x. x\<lparr>inlink := inlink x - 1\<rparr>))
     (kthen (inode_update ip)
     (kthen (inode_unlockput ip)
     (kthen commit_trans
            (kreturn (set_err E_SUCC tf))))))))))"

definition dot_names :: "u8 list \<Rightarrow> bool option" where
  "dot_names name =
     Option.bind (dir_namecmp name [0x2e, 0]) (\<lambda>a. if a = 0 then Some True
       else map_option (\<lambda>b. b = 0) (dir_namecmp name [0x2e, 0x2e, 0]))"

definition sys_unlink :: "u32 \<Rightarrow> tf_t \<Rightarrow> ('a fs_sys_scheme, tf_t) kprog" where
  "sys_unlink path tf =
     kbind (copyin_path (syscall_get_arg2 tf) path) (\<lambda>p.
     kbind (nameiparent p) (\<lambda>r.
     case r of None \<Rightarrow> kreturn (set_err E_DISK_OP tf)
     | Some (dp, name) \<Rightarrow>
       kthen begin_trans
       (kthen (inode_lock (Some dp))
       (kbind (kopt (dot_names name) (Fault ''name'')) (\<lambda>dots.
       if dots then sys_unlink_bad dp tf
       else kbind (dir_lookup dp name) (\<lambda>r.
         case r of None \<Rightarrow> sys_unlink_bad dp tf
         | Some (ip, off) \<Rightarrow>
           kthen (inode_lock (Some ip))
           (kbind (ino_get ip) (\<lambda>x.
           kthen (kassert (\<not> inlink x <s 1) (Panic ''unlink: nlink < 1''))
           (kbind (if itype x = T_DIR then isdirempty ip else kreturn True) (\<lambda>ok.
           if ok then sys_unlink_entry dp ip off tf
           else kthen (inode_unlockput ip) (sys_unlink_bad dp tf)))))))))))"

section \<open>Creation\<close>

definition create_new :: "u32 \<Rightarrow> u8 list \<Rightarrow> u16 \<Rightarrow> u16 \<Rightarrow> u16 \<Rightarrow> ('a fs_sys_scheme, u32) kprog" where
  "create_new dp name type major minor =
     kbind (ino_get dp) (\<lambda>d.
     kbind (inode_alloc (idev d) type) (\<lambda>ip.
     kthen (inode_lock (Some ip))
     (kthen (ino_upd ip (\<lambda>x. x\<lparr>imajor := major\<rparr>))
     (kthen (ino_upd ip (\<lambda>x. x\<lparr>iminor := minor\<rparr>))
     (kthen (ino_upd ip (\<lambda>x. x\<lparr>inlink := 1\<rparr>))
     (kthen (inode_update ip)
     (kbind (ino_get ip) (\<lambda>x.
     kthen (kwhen (type = T_DIR)
       (kthen (ino_upd dp (\<lambda>d. d\<lparr>inlink := inlink d + 1\<rparr>))
       (kthen (inode_update dp)
       (kbind (dir_link ip [0x2e, 0] (inum x)) (\<lambda>a.
        kthen (kassert (\<not> a <s 0) (Panic ''create dots''))
        (kbind (dir_link ip [0x2e, 0x2e, 0] (inum d)) (\<lambda>b.
         kassert (\<not> b <s 0) (Panic ''create dots''))))))))
     (kbind (dir_link dp name (inum x)) (\<lambda>r.
     kthen (kassert (\<not> r <s 0) (Panic ''create: dir_link''))
     (kthen (inode_unlockput dp)
            (kreturn ip))))))))))))"

definition create :: "u8 list \<Rightarrow> u16 \<Rightarrow> u16 \<Rightarrow> u16 \<Rightarrow> ('a fs_sys_scheme, u32 option) kprog" where
  "create path type major minor =
     kbind (nameiparent path) (\<lambda>r.
     case r of None \<Rightarrow> kreturn None
     | Some (dp, name) \<Rightarrow>
       kthen (inode_lock (Some dp))
       (kbind (dir_lookup dp name) (\<lambda>r.
       case r of
         Some (ip, _) \<Rightarrow>
           kthen (inode_unlockput dp)
           (kthen (inode_lock (Some ip))
           (kbind (ino_get ip) (\<lambda>x.
           if type = T_FILE \<and> itype x = T_FILE then kreturn (Some ip)
           else kthen (inode_unlockput ip) (kreturn None))))
       | None \<Rightarrow> kbind (create_new dp name type major minor) (\<lambda>ip. kreturn (Some ip)))))"

definition open_inode :: "u8 list \<Rightarrow> u32 \<Rightarrow> ('a fs_sys_scheme, errno_t + u32) kprog" where
  "open_inode p omode =
     (if omode AND O_CREATE \<noteq> 0
      then kthen begin_trans
        (kbind (create p T_FILE 0 0) (\<lambda>r.
        kthen commit_trans
          (kreturn (case r of None \<Rightarrow> Inl E_CREATE | Some ip \<Rightarrow> Inr ip))))
      else kbind (namei p) (\<lambda>r.
        case r of None \<Rightarrow> kreturn (Inl E_NEXIST)
        | Some ip \<Rightarrow>
          kthen (inode_lock (Some ip))
          (kbind (ino_get ip) (\<lambda>x.
          if itype x = T_DIR \<and> omode \<noteq> O_RDONLY
          then kthen (inode_unlockput ip) (kreturn (Inl E_DISK_OP))
          else kreturn (Inr ip)))))"

definition open_file :: "u32 \<Rightarrow> u32 \<Rightarrow> tf_t \<Rightarrow> ('a fs_sys_scheme, tf_t) kprog" where
  "open_file ip omode tf =
     kbind file_alloc (\<lambda>f.
     kbind (case f of None \<Rightarrow> kreturn None | Some _ \<Rightarrow> fdalloc f) (\<lambda>r.
     case r of
       None \<Rightarrow>
         kthen (kwhen (f \<noteq> None) (file_close f))
         (kthen (inode_unlockput ip)
                (kreturn (set_err E_DISK_OP (syscall_set_retval1 (-1) tf))))
     | Some fd \<Rightarrow>
         kthen (inode_unlock (Some ip))
         (kbind (file_get f) (\<lambda>(i, _).
         kthen (file_upd i (\<lambda>x. x\<lparr>ftype := FD_INODE, fip := Some ip, foff := 0,
             readable := (omode AND O_WRONLY = 0),
             writable := (omode AND O_WRONLY \<noteq> 0 \<or> omode AND O_RDWR \<noteq> 0)\<rparr>))
           (kreturn (set_err E_SUCC (syscall_set_retval1 fd tf)))))))"

definition sys_open :: "u32 \<Rightarrow> tf_t \<Rightarrow> ('a fs_sys_scheme, tf_t) kprog" where
  "sys_open path tf =
     kbind (kgets sys_open_first) (\<lambda>first.
     kthen (kwhen first (kthen (kmodify (\<lambda>s. s\<lparr>sys_open_first := False\<rparr>)) log_init))
     (kbind (copyin_path (syscall_get_arg2 tf) path) (\<lambda>p.
     let omode = syscall_get_arg3 tf in
     kbind (open_inode p omode) (\<lambda>r.
     case r of Inl e \<Rightarrow> kreturn (set_err e (syscall_set_retval1 (-1) tf))
     | Inr ip \<Rightarrow> open_file ip omode tf))))"

definition sys_mkdir :: "u32 \<Rightarrow> tf_t \<Rightarrow> ('a fs_sys_scheme, tf_t) kprog" where
  "sys_mkdir path tf =
     kbind (copyin_path (syscall_get_arg2 tf) path) (\<lambda>p.
     kthen begin_trans
     (kbind (create p T_DIR 0 0) (\<lambda>r.
     case r of None \<Rightarrow> kthen commit_trans (kreturn (set_err E_DISK_OP tf))
     | Some ip \<Rightarrow>
       kthen (inode_unlockput ip)
       (kthen commit_trans
              (kreturn (set_err E_SUCC tf))))))"

definition sys_chdir :: "u32 \<Rightarrow> tf_t \<Rightarrow> ('a fs_sys_scheme, tf_t) kprog" where
  "sys_chdir path tf =
     kbind get_curid (\<lambda>pid.
     kbind (copyin_path (syscall_get_arg2 tf) path) (\<lambda>p.
     kbind (namei p) (\<lambda>r.
     case r of None \<Rightarrow> kreturn (set_err E_DISK_OP tf)
     | Some ip \<Rightarrow>
       kthen (inode_lock (Some ip))
       (kbind (ino_get ip) (\<lambda>x.
       if itype x \<noteq> T_DIR
       then kthen (inode_unlockput ip) (kreturn (set_err E_DISK_OP tf))
       else kthen (inode_unlock (Some ip))
         (kbind (tcb_get_cwd pid) (\<lambda>d.
         kthen (case d of None \<Rightarrow> kfail (Fault ''cwd'') | Some c \<Rightarrow> inode_put c)
         (kthen (tcb_set_cwd pid (Some ip))
                (kreturn (set_err E_SUCC tf))))))))))"

end
