(* ===== verification/Log_Spec.thy ===== *)
theory Log_Spec
  imports Log
begin

text \<open>
  Lemmas about the write-ahead log of \<^verbatim>\<open>log.c\<close>: the layout of the header block, the sector writes that
  \<^verbatim>\<open>write_head\<close>, \<^verbatim>\<open>install_trans\<close>, \<^verbatim>\<open>commit_trans\<close> and \<^verbatim>\<open>recover_from_log\<close> perform and the order in which
  they perform them, and that a crash between any two of these writes leaves a disk from which recovery
  restores either the state before the transaction or the state after it.
\<close>

unbundle bit_operations_syntax

section \<open>Words of a block\<close>

lemma unat_blk_index:
  assumes "unat p + 3 < 512"
  shows "unat (blk_index p) = unat p" "unat (blk_index (p + 1)) = unat p + 1" "unat (blk_index (p + 2)) = unat p + 2"
    "unat (blk_index (p + 3)) = unat p + 3"
  using assms by (simp_all add: blk_index_def unat_small_ucast unat_plus_if')

lemma blk_load32_store32: "unat p + 3 < 512 \<Longrightarrow> blk_load32 (blk_store32 d p v) p = v"
proof -
  assume "unat p + 3 < 512"
  note u = unat_blk_index [OF this]
  have e: "blk_load32 (blk_store32 d p v) p = ucast (ucast v :: u8) OR push_bit 8 (ucast (ucast (drop_bit 8 v) :: u8))
     OR push_bit 16 (ucast (ucast (drop_bit 16 v) :: u8)) OR push_bit 24 (ucast (ucast (drop_bit 24 v) :: u8))"
    unfolding blk_load32_def blk_store32_def by (simp add: word_unat_eq_iff u)
  show ?thesis unfolding e
  proof (rule bit_word_eqI)
    fix n assume "n < LENGTH(32)"
    then show "bit (ucast (ucast v :: u8) OR push_bit 8 (ucast (ucast (drop_bit 8 v) :: u8))
     OR push_bit 16 (ucast (ucast (drop_bit 16 v) :: u8)) OR push_bit 24 (ucast (ucast (drop_bit 24 v) :: u8)) :: u32) n = bit v n"
      by (cases "n < 8"; cases "n < 16"; cases "n < 24") (auto simp: bit_simps)
  qed
qed

lemma blk_load32_store32_other:
  assumes "unat p + 3 < 512" "unat q + 3 < 512" "unat p + 4 \<le> unat q \<or> unat q + 4 \<le> unat p"
  shows "blk_load32 (blk_store32 d p v) q = blk_load32 d q"
  using assms(3) unfolding blk_load32_def blk_store32_def
  by (auto simp: word_unat_eq_iff unat_blk_index [OF assms(1)] unat_blk_index [OF assms(2)])

section \<open>The header block\<close>

definition head_block :: "block \<Rightarrow> u32 \<Rightarrow> (u32 \<Rightarrow> u32) \<Rightarrow> nat \<Rightarrow> block" where
  "head_block d n sec k = fold (\<lambda>i d. blk_store32 d (4 + 4 * of_nat i) (sec (of_nat i))) [0..<k] (blk_store32 d 0 n)"

lemma head_block_Suc: "head_block d n sec (Suc k) = blk_store32 (head_block d n sec k) (4 + 4 * of_nat k) (sec (of_nat k))"
  by (simp add: head_block_def)

lemma unat_entry_offset: "k \<le> 10 \<Longrightarrow> unat (4 + 4 * of_nat k :: u32) = 4 + 4 * k"
  by (simp add: unat_plus_if' unat_mult_lem [THEN iffD1] unat_of_nat_u32 flip: of_nat_mult)

lemma head_block_count: "k \<le> 10 \<Longrightarrow> blk_load32 (head_block d n sec k) 0 = n"
proof (induction k)
  case 0
  then show ?case by (simp add: head_block_def blk_load32_store32)
next
  case (Suc k)
  then show ?case by (simp add: head_block_Suc blk_load32_store32_other unat_entry_offset)
qed

lemma head_block_entry: "k \<le> 10 \<Longrightarrow> i < k \<Longrightarrow> blk_load32 (head_block d n sec k) (4 + 4 * of_nat i) = sec (of_nat i)"
proof (induction k)
  case (Suc k)
  show ?case
  proof (cases "i = k")
    case True
    then show ?thesis using Suc.prems by (simp add: head_block_Suc blk_load32_store32 unat_entry_offset)
  next
    case False
    then show ?thesis using Suc by (simp add: head_block_Suc blk_load32_store32_other unat_entry_offset)
  qed
qed simp

lemma signed_bound_small: "n \<le> 10 \<Longrightarrow> signed_bound n = n" 
proof -
  assume "n \<le> 10"
  then have "unat n \<le> 10" by (simp add: word_le_nat_alt)
  then have "sint n = int (unat n)" by (intro sint_small) simp
  then show ?thesis by (simp add: signed_bound_def word_sless_alt)
qed

section \<open>Steps of the log\<close>

lemma frame_log:
  "frame s t \<Longrightarrow> log_dev t = log_dev s \<and> log_start t = log_start s \<and> lh_n t = lh_n s \<and> lh_sector t = lh_sector s \<and>
     log_busy t = log_busy s \<and> log_lk t = log_lk s \<and> log_size t = log_size s"
  by (auto simp: frame_def)


lemma kwp_lh_get [wp]: "kwp (lh_get i) Q s = (i < LOGSIZE \<and> Q (lh_sector s i) s)"
  by (simp add: lh_get_def wp)

lemma kwp_lh_set [wp]: "kwp (lh_set i v) Q s = (i < LOGSIZE \<and> Q () (s\<lparr>lh_sector := (lh_sector s)(i := v)\<rparr>))"
  by (simp add: lh_set_def wp)

lemma write_head_wp:
  fixes s :: "'a fs_log_scheme"
  defines "dev \<equiv> log_dev s" and "start \<equiv> log_start s" and "n \<equiv> lh_n s"
  assumes s: "quiet s" "roomy (bufs s)" and h: "dev < 2" "start < 0x10000000" "n \<le> 10"
  shows "kwp write_head (\<lambda>_ t. qstep [(dev, start, head_block (content s dev start) n (lh_sector s) (unat n))] s t) s"
proof -
  let ?hb = "head_block (content s dev start) n (lh_sector s)"
  define I where "I b k t \<longleftrightarrow> bop b s t \<and> hold t b dev start \<and> content t = blk_write (content s) dev start (?hb k) \<and>
     disk t = disk s \<and> disk_hist t = disk_hist s" for b k and t :: "'a fs_log_scheme"
  have loop: "kwp (kfor 0 n (\<lambda>i. kbind (lh_get i) (\<lambda>sec. buf_upd b (\<lambda>x. x\<lparr>bdata := blk_store32 (bdata x) (4 + 4 * i) sec\<rparr>))))
     (\<lambda>_ u. I b (unat n) u) t" if t: "I b 0 t" for b t
  proof (rule kwp_kfor [where I = "\<lambda>j. I b (unat j)"])
    show "I b (unat 0) t" using t by simp
    fix j :: u32 and u
    assume j: "j < n" "I b (unat j) u"
    have f: "lh_sector u = lh_sector s" using j(2) bopD(1) [of b s u] frame_log [of s u] by (simp add: I_def)
    have "kwp (buf_upd b (\<lambda>x. x\<lparr>bdata := blk_store32 (bdata x) (4 + 4 * j) (lh_sector s j)\<rparr>)) (\<lambda>_ v. I b (unat (j + 1)) v) u"
      using j store_seq [of b s u dev start "?hb (unat j)" "\<lambda>d. blk_store32 d (4 + 4 * j) (lh_sector s j)"]
      by (simp add: I_def unat_inc [OF j(1)] head_block_Suc)
    then show "kwp (kbind (lh_get j) (\<lambda>sec. buf_upd b (\<lambda>x. x\<lparr>bdata := blk_store32 (bdata x) (4 + 4 * j) sec\<rparr>))) (\<lambda>_ v. I b (unat (j + 1)) v) u"
      using f j(1) h(3) by (simp add: wp)
  qed simp_all
  let ?Q = "\<lambda>_ t. qstep [(dev, start, ?hb (unat n))] s t"
  have "kwp (kbind (kgets lh_n) (\<lambda>n. kthen (buf_upd b (\<lambda>x. x\<lparr>bdata := blk_store32 (bdata x) 0 n\<rparr>))
     (kthen (kfor 0 (signed_bound n) (\<lambda>i. kbind (lh_get i) (\<lambda>sec. buf_upd b (\<lambda>x. x\<lparr>bdata := blk_store32 (bdata x) (4 + 4 * i) sec\<rparr>))))
     (kthen (bufcache_write b) (bufcache_release b))))) ?Q t"
    if t: "bop b s t" "hold t b dev start" "content t = content s" "disk t = disk s" "disk_hist t = disk_hist s" for b t
  proof -
    have n: "lh_n t = n" using bopD(1) [OF t(1)] frame_log [of s t] by (simp add: n_def)
    have "kwp (buf_upd b (\<lambda>x. x\<lparr>bdata := blk_store32 (bdata x) 0 n\<rparr>)) (\<lambda>_ u. I b 0 u) t"
      using store_seq [OF t(1,2) _ t(4,5), of "content s dev start" "\<lambda>d. blk_store32 d 0 n"] t(3) by (simp add: I_def head_block_def)
    then have "kwp (kthen (buf_upd b (\<lambda>x. x\<lparr>bdata := blk_store32 (bdata x) 0 n\<rparr>))
     (kthen (kfor 0 n (\<lambda>i. kbind (lh_get i) (\<lambda>sec. buf_upd b (\<lambda>x. x\<lparr>bdata := blk_store32 (bdata x) (4 + 4 * i) sec\<rparr>))))
     (kthen (bufcache_write b) (bufcache_release b)))) ?Q t"
      by (rule kwp_kthenI, intro kwp_kthenI [OF loop]) (auto simp: I_def intro: flush_seq [OF s(1)])
    then show ?thesis by (simp add: wp n signed_bound_small [OF h(3)])
  qed
  then have "kwp (kbind (bufcache_read dev start) (\<lambda>b. kbind (kgets lh_n) (\<lambda>n. kthen (buf_upd b (\<lambda>x. x\<lparr>bdata := blk_store32 (bdata x) 0 n\<rparr>))
     (kthen (kfor 0 (signed_bound n) (\<lambda>i. kbind (lh_get i) (\<lambda>sec. buf_upd b (\<lambda>x. x\<lparr>bdata := blk_store32 (bdata x) (4 + 4 * i) sec\<rparr>))))
     (kthen (bufcache_write b) (bufcache_release b)))))) ?Q s"
    using s h(1,2) by (intro kwp_kbindI [OF read_seq]) (auto simp: quiet_def intro: quiet_available)
  then show ?thesis unfolding write_head_def dev_def start_def by (simp only: kwp_kbind kwp_kgets)
qed

text \<open>One round of \<^verbatim>\<open>install_trans\<close>: copy block \<open>a\<close> to block \<open>c\<close> through two buffers.\<close>

lemma copy_release:
  assumes s: "quiet s" and a: "a \<noteq> c" and b: "b1 \<noteq> b2"
    and t: "bc_ok t" "frame s t" "hold t b1 dev a" "hold t b2 dev c" "content t = blk_write (content s) dev c d"
      "disk t = blk_write (disk s) dev c d" "disk_hist t = disk_hist s @ [(dev, c, d)]" "\<not> dirty (bufs t b2)"
      "dirty (bufs t b1) \<longrightarrow> dirty (bufs s b1)" "dirty (bufs t b1) \<or> content s dev a = disk s dev a"
      "\<And>i. i \<noteq> b1 \<Longrightarrow> i \<noteq> b2 \<Longrightarrow> bflags (bufs t i) = bflags (bufs s i)"
  shows "kwp (kthen (bufcache_release b1) (bufcache_release b2)) (\<lambda>_ u. qstep [(dev, c, d)] s u) t"
proof (rule kwp_kthenI [OF release_seq [OF t(1,3)]])
  show "dirty (bufs t b1) \<or> content t dev a = disk t dev a" using t(5,6,10) a by (auto simp: blk_write_apply)
  fix x u
  assume u: "bop b1 t u \<and> content u = content t \<and> disk u = disk t \<and> disk_hist u = disk_hist t \<and>
     \<not> busy (bufs u b1) \<and> dirty (bufs u b1) = dirty (bufs t b1) \<and> bdev (bufs u b1) = dev \<and> bsector (bufs u b1) = a"
  have u2: "bc_ok u" "hold u b2 dev c" using u b t(4) bopD(2,7) [of b1 t u] by auto
  show "kwp (bufcache_release b2) (\<lambda>_ u. qstep [(dev, c, d)] s u) u"
  proof (rule kwp_mono [OF release_seq [OF u2]])
    show "dirty (bufs u b2) \<or> content u dev c = disk u dev c" using u t(5,6) by (simp add: blk_write_apply)
    fix y v
    assume v: "bop b2 u v \<and> content v = content u \<and> disk v = disk u \<and> disk_hist v = disk_hist u \<and>
     \<not> busy (bufs v b2) \<and> dirty (bufs v b2) = dirty (bufs u b2) \<and> bdev (bufs v b2) = dev \<and> bsector (bufs v b2) = c"
    have fl: "bflags (bufs v i) = bflags (bufs u i)" if "i \<noteq> b2" for i using that v bopD(3) [of b2 u v i] by blast
    have flu: "bflags (bufs u i) = bflags (bufs t i)" if "i \<noteq> b1" for i using that u bopD(3) [of b1 t u i] by blast
    have q: "\<not> busy (bufs v i)" if i: "i < NBUF" for i
      using s i u v fl [of i] flu [of i] t(11) [of i] unfolding quiet_def by (cases "i = b1"; cases "i = b2") (auto simp: b)
    have d: "dirty (bufs v i) \<longrightarrow> dirty (bufs s i)" for i
      using u v fl [of i] flu [of i] t(8,9,11) by (cases "i = b1"; cases "i = b2") (auto simp: b)
    have "frame s v" using t(2) u v bopD(1) frame_trans by metis
    moreover have "bc_ok v" using v bopD(2) by blast
    ultimately show "qstep [(dev, c, d)] s v"
      using q d u v t(5-7) by (auto simp: qstep_def quiet_def)
  qed
qed

definition install_one :: "u32 \<Rightarrow> ('a fs_log_scheme, unit) kprog" where
  "install_one tail =
       kbind (kgets log_dev) (\<lambda>dev.
       kbind (kgets log_start) (\<lambda>start.
       kbind (bufcache_read dev (start + tail + 1)) (\<lambda>lbuf.
       kbind (lh_get tail) (\<lambda>sec.
       kbind (bufcache_read dev sec) (\<lambda>dbuf.
       kbind (buf_get lbuf) (\<lambda>lb.
       kthen (buf_upd dbuf (\<lambda>x. x\<lparr>bdata := bdata lb\<rparr>))
       (kthen (bufcache_write dbuf)
       (kthen (bufcache_release lbuf)
              (bufcache_release dbuf)))))))))"

lemma install_trans_loop: "install_trans = kbind (kgets lh_n) (\<lambda>n. kfor 0 (signed_bound n) install_one)"
  unfolding install_trans_def install_one_def [abs_def] ..

lemma install_one_wp:
  fixes s :: "'a fs_log_scheme" and tail :: u32
  defines "dev \<equiv> log_dev s" and "a \<equiv> log_start s + tail + 1" and "c \<equiv> lh_sector s tail"
  assumes s: "quiet s" "roomy (bufs s)" and h: "dev < 2" "a < 0x10000000" "c < 0x10000000" "tail < 10" "a \<noteq> c"
  shows "kwp (install_one tail) (\<lambda>_ t. qstep [(dev, c, content s dev a)] s t) s"
proof -
  let ?d = "content s dev a" and ?Q = "\<lambda>_ t. qstep [(dev, c, content s dev a)] s t"
  have second: "kwp (kbind (bufcache_read dev c) (\<lambda>b2. kbind (buf_get b1) (\<lambda>lb.
       kthen (buf_upd b2 (\<lambda>x. x\<lparr>bdata := bdata lb\<rparr>)) (kthen (bufcache_write b2) (kthen (bufcache_release b1) (bufcache_release b2)))))) ?Q t"
    if t: "bop b1 s t" "hold t b1 dev a" "content t = content s" "disk t = disk s" "disk_hist t = disk_hist s"
      "dirty (bufs t b1) \<longrightarrow> dirty (bufs s b1)" "dirty (bufs t b1) \<or> content s dev a = disk s dev a" for b1 t
  proof (rule kwp_kbindI [OF read_seq [OF bopD(2) [OF t(1)] h(1,3)]])
    show "available (bufs t) dev c" using second_available [OF s t(1,2,6)] h(5) by auto
    fix b2 u
    assume u: "bop b2 t u \<and> hold u b2 dev c \<and> content u = content t \<and> disk u = disk t \<and> disk_hist u = disk_hist t \<and>
      \<not> busy (bufs t b2) \<and> (dirty (bufs u b2) \<longrightarrow> dirty (bufs t b2)) \<and> (dirty (bufs u b2) \<or> content t dev c = disk t dev c)"
    have b: "b1 \<noteq> b2" using u t(2) by (auto simp: hold_def)
    have hu: "hold u b1 dev a" using u b t(2) bopD(7) [of b2 t u b1] by auto
    have oku: "bc_ok u" using u bopD(2) by blast
    have d: "bdata (bufs u b1) = ?d" using content_hold [OF oku hu] u t(3) by simp
    have "kwp (kthen (buf_upd b2 (\<lambda>x. x\<lparr>bdata := ?d\<rparr>)) (kthen (bufcache_write b2) (kthen (bufcache_release b1) (bufcache_release b2)))) ?Q u"
    proof (rule kwp_kthenI [OF upd_seq [OF oku, of b2 dev c]])
      show "hold u b2 dev c" using u by blast
      fix x v
      assume v: "bop b2 u v \<and> hold v b2 dev c \<and> content v = blk_write (content u) dev c ?d \<and>
        disk v = disk u \<and> disk_hist v = disk_hist u \<and> bflags (bufs v b2) = bflags (bufs u b2)"
      have okv: "bc_ok v" using v bopD(2) by blast
      show "kwp (kthen (bufcache_write b2) (kthen (bufcache_release b1) (bufcache_release b2))) ?Q v"
      proof (rule kwp_kthenI [OF write_seq [OF okv, of b2 dev c]])
        show "hold v b2 dev c" using v by blast
        fix y w
        assume w: "bop b2 v w \<and> hold w b2 dev c \<and> content w = content v \<and> disk w = blk_write (disk v) dev c (content v dev c) \<and>
          disk_hist w = disk_hist v @ [(dev, c, content v dev c)] \<and> \<not> dirty (bufs w b2)"
        have tw: "bop b2 t w" using u v w bop_trans by blast
        have fl: "bflags (bufs w i) = bflags (bufs t i)" if "i \<noteq> b2" for i using bopD(3) [OF tw that] .
        have "content v dev c = ?d" using v by (simp add: blk_write_apply)
        then show "kwp (kthen (bufcache_release b1) (bufcache_release b2)) ?Q w"
          using t u v w b bopD(2) [OF tw] frame_trans [OF bopD(1) [OF t(1)] bopD(1) [OF tw]] bopD(7) [OF tw, of b1 dev a]
            fl bopD(3) [OF t(1)]
          by (intro copy_release [OF s(1) h(5) b]) auto
      qed
    qed
    then show "kwp (kbind (buf_get b1) (\<lambda>lb. kthen (buf_upd b2 (\<lambda>x. x\<lparr>bdata := bdata lb\<rparr>))
        (kthen (bufcache_write b2) (kthen (bufcache_release b1) (bufcache_release b2))))) ?Q u"
      using d hu by (simp add: kwp_kbind kwp_buf_get hold_def less_imp_le)
  qed
  have "kwp (kbind (bufcache_read dev a) (\<lambda>lbuf. kbind (lh_get tail) (\<lambda>sec. kbind (bufcache_read dev sec) (\<lambda>dbuf.
       kbind (buf_get lbuf) (\<lambda>lb. kthen (buf_upd dbuf (\<lambda>x. x\<lparr>bdata := bdata lb\<rparr>))
       (kthen (bufcache_write dbuf) (kthen (bufcache_release lbuf) (bufcache_release dbuf)))))))) ?Q s"
  proof (rule kwp_kbindI [OF read_seq [OF _ h(1,2)]])
    show "bc_ok s" "available (bufs s) dev a" using s by (auto simp: quiet_def intro: quiet_available)
    fix b t
    assume t: "bop b s t \<and> hold t b dev a \<and> content t = content s \<and> disk t = disk s \<and> disk_hist t = disk_hist s \<and>
      \<not> busy (bufs s b) \<and> (dirty (bufs t b) \<longrightarrow> dirty (bufs s b)) \<and> (dirty (bufs t b) \<or> content s dev a = disk s dev a)"
    have "lh_sector t tail = c" using t bopD(1) frame_log unfolding c_def by metis
    then show "kwp (kbind (lh_get tail) (\<lambda>sec. kbind (bufcache_read dev sec) (\<lambda>dbuf.
       kbind (buf_get b) (\<lambda>lb. kthen (buf_upd dbuf (\<lambda>x. x\<lparr>bdata := bdata lb\<rparr>))
       (kthen (bufcache_write dbuf) (kthen (bufcache_release b) (bufcache_release dbuf))))))) ?Q t"
      using second [of b t] t h(4) by (simp only: kwp_kbind [of "lh_get tail"] kwp_lh_get) simp
  qed
  then show ?thesis unfolding install_one_def dev_def a_def by (simp only: kwp_kbind kwp_kgets)
qed

section \<open>Installing and committing\<close>

text \<open>The home sectors of a transaction lie outside the log, which has the header and ten blocks.\<close>

definition log_layout :: "u32 \<Rightarrow> u32 \<Rightarrow> u32 \<Rightarrow> (u32 \<Rightarrow> u32) \<Rightarrow> bool" where
  "log_layout dev start n sec \<longleftrightarrow> dev < 2 \<and> n \<le> 10 \<and> start < 0xFFFFF00 \<and>
     (\<forall>i<n. sec i < 0x10000000 \<and> \<not> (start \<le> sec i \<and> sec i \<le> start + 10))"

definition home_writes :: "u32 \<Rightarrow> u32 \<Rightarrow> (u32 \<Rightarrow> u32) \<Rightarrow> (u32 \<Rightarrow> u32 \<Rightarrow> block) \<Rightarrow> nat \<Rightarrow> (u32 \<times> u32 \<times> block) list" where
  "home_writes dev start sec C k = map (\<lambda>i. (dev, sec (of_nat i), C dev (start + of_nat i + 1))) [0..<k]"

lemma home_writes_Suc:
  "home_writes dev start sec C (Suc k) = home_writes dev start sec C k @ [(dev, sec (of_nat k), C dev (start + of_nat k + 1))]"
  by (simp add: home_writes_def)

lemma unat_log_block:
  assumes "start < 0xFFFFF00" "i \<le> (9::u32)"
  shows "unat (start + i + 1) = unat start + unat i + 1" "unat (start + 10) = unat start + 10"
  using assms by (simp_all add: word_less_nat_alt word_le_nat_alt unat_plus_if')

lemma log_layoutD:
  assumes "log_layout dev start n sec"
  shows "dev < 2" "n \<le> 10" "start < 0x10000000"
    "\<And>i. i < n \<Longrightarrow> start + i + 1 < 0x10000000" "\<And>i. i < n \<Longrightarrow> sec i < 0x10000000"
    "\<And>i j. i < n \<Longrightarrow> j < n \<Longrightarrow> start + j + 1 \<noteq> sec i" "\<And>i. i < n \<Longrightarrow> sec i \<noteq> start" "\<And>i. i < n \<Longrightarrow> start + i + 1 \<noteq> start"
proof -
  have l: "dev < 2" "n \<le> 10" "start < 0xFFFFF00" "\<And>i. i < n \<Longrightarrow> sec i < 0x10000000 \<and> \<not> (start \<le> sec i \<and> sec i \<le> start + 10)"
    using assms by (auto simp: log_layout_def)
  show "dev < 2" "n \<le> 10" using l by auto
  show "start < 0x10000000" using l(3) by (simp add: word_less_nat_alt)
  have n: "i \<le> 9" if "i < n" for i using that l(2) by (simp add: word_less_nat_alt word_le_nat_alt)
  show "start + i + 1 < 0x10000000" "start + i + 1 \<noteq> start" if "i < n" for i
    using unat_log_block(1) [OF l(3) n [OF that]] l(3) n [OF that]
    by (simp_all add: word_less_nat_alt word_le_nat_alt word_unat_eq_iff)
  show "sec i < 0x10000000" if "i < n" for i using l(4) [OF that] by blast
  show "start + j + 1 \<noteq> sec i" if "i < n" "j < n" for i j
    using unat_log_block [OF l(3) n [OF that(2)]] l(3) n [OF that(2)] l(4) [OF that(1)] by (auto simp: word_le_nat_alt)
  have "start \<le> start + 10" using unat_log_block(2) [OF l(3), of 0] by (simp add: word_le_nat_alt)
  then show "sec i \<noteq> start" if "i < n" for i using l(4) [OF that] by auto
qed

lemma writes_other: "(\<And>x. (dev, sec, x) \<notin> set W) \<Longrightarrow> writes W D dev sec = D dev sec"
proof (induction W arbitrary: D)
  case (Cons w W)
  obtain d c x where w: "w = (d, c, x)" by (cases w)
  have "d \<noteq> dev \<or> c \<noteq> sec" using Cons.prems [of x] w by auto
  moreover have "\<And>x. (dev, sec, x) \<notin> set W" using Cons.prems by auto
  ultimately have "writes W (blk_write D d c x) dev sec = D dev sec"
    by (subst Cons.IH) (auto simp: blk_write_apply)
  then show ?case by (simp add: w)
qed simp

lemma home_writes_other:
  "\<forall>i<k. sec (of_nat i) \<noteq> c \<Longrightarrow> writes (home_writes dev start sec C k) D dev c = D dev c"
  by (rule writes_other) (auto simp: home_writes_def)

lemma of_nat_lt_u32: "i < unat (n::u32) \<Longrightarrow> of_nat i < n"
  using unsigned_less [of n, where ?'a = nat] by (simp add: word_less_nat_alt unat_of_nat_u32)

lemma install_trans_wp:
  fixes s :: "'a fs_log_scheme"
  assumes s: "quiet s" "roomy (bufs s)" and l: "log_layout (log_dev s) (log_start s) (lh_n s) (lh_sector s)"
  shows "kwp install_trans (\<lambda>_ t. qstep (home_writes (log_dev s) (log_start s) (lh_sector s) (content s) (unat (lh_n s))) s t) s"
proof -
  let ?W = "home_writes (log_dev s) (log_start s) (lh_sector s) (content s)"
  note ld = log_layoutD [OF l]
  have "kwp (kfor 0 (lh_n s) install_one) (\<lambda>_ t. qstep (?W (unat (lh_n s))) s t) s"
  proof (rule kwp_kfor [where I = "\<lambda>j t. qstep (?W (unat j)) s t"])
    show "qstep (?W (unat 0)) s s" using qstep_refl [OF s(1)] by (simp add: home_writes_def)
    fix j :: u32 and t
    assume j: "j < lh_n s" and t: "qstep (?W (unat j)) s t"
    have q: "quiet t" "roomy (bufs t)" using t qstep_roomy [OF t s(2)] by (auto simp: qstep_def)
    have f: "log_dev t = log_dev s" "log_start t = log_start s" "lh_sector t = lh_sector s"
      using t frame_log [of s t] by (auto simp: qstep_def)
    have "j < 10" using j ld(2) by (rule order_less_le_trans)
    have "content t (log_dev s) (log_start s + j + 1) = content s (log_dev s) (log_start s + j + 1)"
    proof -
      have "lh_sector s (of_nat i) \<noteq> log_start s + j + 1" if "i < unat j" for i
        using ld(6) [of "of_nat i" j] j that of_nat_lt_u32 [of i "lh_n s"] by (simp add: word_less_nat_alt)
      then have "writes (?W (unat j)) (content s) (log_dev s) (log_start s + j + 1) = content s (log_dev s) (log_start s + j + 1)"
        by (intro home_writes_other) simp
      then show ?thesis using t by (simp only: qstep_def)
    qed
    then have "kwp (install_one j) (\<lambda>_ u. qstep [(log_dev s, lh_sector s j, content s (log_dev s) (log_start s + j + 1))] t u) t"
      using install_one_wp [OF q, where tail = j] ld(1) ld(4) [OF j] ld(5) [OF j] ld(6) [OF j j] f \<open>j < 10\<close> by simp
    then show "kwp (install_one j) (\<lambda>_ u. qstep (?W (unat (j + 1))) s u) t"
      by (rule kwp_mono) (simp add: unat_inc [OF j] home_writes_Suc qstep_trans [OF t])
  qed simp_all
  then show ?thesis
    by (simp only: install_trans_loop kwp_kbind kwp_kgets signed_bound_small [OF ld(2)])
qed

text \<open>Steps that also move the in-memory header: what is kept is the rest of \<^verbatim>\<open>log\<close>.\<close>

lemma log_upd_simps [simp]:
  "bc_ok (s\<lparr>lh_n := n\<rparr>) = bc_ok s" "bc_ok (s\<lparr>lh_sector := f\<rparr>) = bc_ok s" "bc_ok (s\<lparr>log_busy := x\<rparr>) = bc_ok s" "bc_ok (s\<lparr>log_lk := l\<rparr>) = bc_ok s"
  "content (s\<lparr>lh_n := n\<rparr>) = content s" "content (s\<lparr>lh_sector := f\<rparr>) = content s" "content (s\<lparr>log_busy := x\<rparr>) = content s" "content (s\<lparr>log_lk := l\<rparr>) = content s"
  by (simp_all add: bc_ok_def drive_ok_def calm_def content_def [abs_def] cong: if_cong option.case_cong)

definition lstep :: "(u32 \<times> u32 \<times> block) list \<Rightarrow> 'a fs_log_scheme \<Rightarrow> 'a fs_log_scheme \<Rightarrow> bool" where
  "lstep W s t \<longleftrightarrow> quiet t \<and> (\<forall>c<NBUF. dirty (bufs t c) \<longrightarrow> dirty (bufs s c)) \<and>
     content t = writes W (content s) \<and> disk t = writes W (disk s) \<and> disk_hist t = disk_hist s @ W \<and>
     log_dev t = log_dev s \<and> log_start t = log_start s \<and> log_size t = log_size s \<and> log_lk t = log_lk s"

lemma lstep_trans: "lstep W s t \<Longrightarrow> lstep V t u \<Longrightarrow> lstep (W @ V) s u"
  by (auto simp: lstep_def)

lemma qstep_lstep: "qstep W s t \<Longrightarrow> lstep W s t"
  using frame_log [of s t] by (auto simp: qstep_def lstep_def)

lemma lstep_roomy: "lstep W s t \<Longrightarrow> roomy (bufs s) \<Longrightarrow> roomy (bufs t)"
  by (auto simp: lstep_def intro: roomy_mono)

lemma quiet_lh_n [simp]: "quiet (s\<lparr>lh_n := n\<rparr>) = quiet s"
  by (simp add: quiet_def)

lemma lstep_lh_n: "lstep W s t \<Longrightarrow> lstep W s (t\<lparr>lh_n := n\<rparr>)"
  by (simp add: lstep_def)

lemma home_writes_cong:
  "\<forall>i<k. sec (of_nat i) = sec' (of_nat i) \<and> C dev (start + of_nat i + 1) = C' dev (start + of_nat i + 1) \<Longrightarrow>
   home_writes dev start sec C k = home_writes dev start sec' C' k"
  by (simp add: home_writes_def)

lemma log_layout_cong: "\<forall>i<n. sec i = sec' i \<Longrightarrow> log_layout dev start n sec = log_layout dev start n sec'"
  by (auto simp: log_layout_def)

lemma read_head_wp:
  fixes s :: "'a fs_log_scheme"
  defines "h \<equiv> content s (log_dev s) (log_start s)"
  defines "n \<equiv> blk_load32 h 0"
  assumes s: "quiet s" "roomy (bufs s)" and l: "log_dev s < 2" "log_start s < 0x10000000" "n \<le> 10"
  shows "kwp read_head (\<lambda>_ t. lstep [] s t \<and> lh_n t = n \<and> (\<forall>i<n. lh_sector t i = blk_load32 h (4 + 4 * i))) s"
proof -
  let ?dev = "log_dev s" and ?start = "log_start s"
  define J where "J b j t \<longleftrightarrow> lh_n t = n \<and> (\<forall>i<j. lh_sector t i = blk_load32 h (4 + 4 * i)) \<and> bc_ok t \<and> hold t b ?dev ?start \<and>
     (\<forall>c. c \<noteq> b \<longrightarrow> bflags (bufs t c) = bflags (bufs s c)) \<and> (dirty (bufs t b) \<longrightarrow> dirty (bufs s b)) \<and>
     (dirty (bufs t b) \<or> content t ?dev ?start = disk t ?dev ?start) \<and> content t = content s \<and> disk t = disk s \<and> disk_hist t = disk_hist s \<and>
     log_dev t = ?dev \<and> log_start t = ?start \<and> log_size t = log_size s \<and> log_lk t = log_lk s" for b and j :: u32 and t :: "'a fs_log_scheme"
  have loop: "kwp (kfor 0 n (\<lambda>i. lh_set i (blk_load32 h (4 + 4 * i)))) (\<lambda>_ u. J b n u) t" if t: "J b 0 t" for b t
  proof (rule kwp_kfor [where I = "J b"])
    fix j :: u32 and u
    assume j: "j < n" "J b j u"
    have "j < 10" using j(1) l(3) by (rule order_less_le_trans)
    moreover have "i < j + 1 \<longleftrightarrow> i < j \<or> i = j" for i using unat_inc [OF j(1)] by (auto simp: word_less_nat_alt word_unat_eq_iff)
    ultimately show "kwp (lh_set j (blk_load32 h (4 + 4 * j))) (\<lambda>_ v. J b (j + 1) v) u"
      using j by (auto simp: wp J_def hold_def)
  qed (use t in simp_all)
  have fin: "kwp (bufcache_release b) (\<lambda>_ t. lstep [] s t \<and> lh_n t = n \<and> (\<forall>i<n. lh_sector t i = blk_load32 h (4 + 4 * i))) u"
    if u: "J b n u" for b u
  proof (rule kwp_mono [OF release_seq [of u b ?dev ?start]])
    show "bc_ok u" "hold u b ?dev ?start" "dirty (bufs u b) \<or> content u ?dev ?start = disk u ?dev ?start"
      using u unfolding J_def by blast+
    fix y w
    assume w: "bop b u w \<and> content w = content u \<and> disk w = disk u \<and> disk_hist w = disk_hist u \<and>
      \<not> busy (bufs w b) \<and> dirty (bufs w b) = dirty (bufs u b) \<and> bdev (bufs w b) = ?dev \<and> bsector (bufs w b) = ?start"
    have fl: "bflags (bufs w c) = bflags (bufs s c)" if "c \<noteq> b" for c
      using that w u bopD(3) [of b u w c] by (simp add: J_def)
    have "\<not> busy (bufs w c)" if "c < NBUF" for c using s(1) w fl [of c] that by (cases "c = b") (auto simp: quiet_def)
    moreover have "dirty (bufs w c) \<longrightarrow> dirty (bufs s c)" for c using u w fl [of c] by (cases "c = b") (auto simp: J_def)
    moreover have "bc_ok w" "frame u w" using w bopD(1,2) by blast+
    ultimately show "lstep [] s w \<and> lh_n w = n \<and> (\<forall>i<n. lh_sector w i = blk_load32 h (4 + 4 * i))"
      using u w frame_log [of u w] by (auto simp: lstep_def quiet_def J_def)
  qed
  have "kwp (kbind (bufcache_read ?dev ?start) (\<lambda>b. kbind (buf_get b) (\<lambda>lh.
     kthen (kmodify (\<lambda>s. s\<lparr>lh_n := blk_load32 (bdata lh) 0\<rparr>))
     (kthen (kfor 0 (signed_bound (blk_load32 (bdata lh) 0)) (\<lambda>i. lh_set i (blk_load32 (bdata lh) (4 + 4 * i))))
            (bufcache_release b)))))
     (\<lambda>_ t. lstep [] s t \<and> lh_n t = n \<and> (\<forall>i<n. lh_sector t i = blk_load32 h (4 + 4 * i))) s"
  proof (rule kwp_kbindI [OF read_seq [OF _ l(1,2)]])
    show "bc_ok s" "available (bufs s) ?dev ?start" using s by (auto simp: quiet_def intro: quiet_available)
    fix b t
    assume t: "bop b s t \<and> hold t b ?dev ?start \<and> content t = content s \<and> disk t = disk s \<and> disk_hist t = disk_hist s \<and>
      \<not> busy (bufs s b) \<and> (dirty (bufs t b) \<longrightarrow> dirty (bufs s b)) \<and> (dirty (bufs t b) \<or> content s ?dev ?start = disk s ?dev ?start)"
    have tb: "bop b s t" using t by blast
    have d: "bdata (bufs t b) = h" using content_hold [OF bopD(2) [OF tb], of b ?dev ?start] t by (simp add: h_def)
    have "J b 0 (t\<lparr>lh_n := n\<rparr>)"
      using t bopD(2,3) [OF tb] frame_log [OF bopD(1) [OF tb]] by (simp add: J_def hold_def)
    then have "kwp (kthen (kfor 0 n (\<lambda>i. lh_set i (blk_load32 h (4 + 4 * i)))) (bufcache_release b))
       (\<lambda>_ t. lstep [] s t \<and> lh_n t = n \<and> (\<forall>i<n. lh_sector t i = blk_load32 h (4 + 4 * i))) (t\<lparr>lh_n := n\<rparr>)"
      by (intro kwp_kthenI [OF loop] fin)
    moreover have "b \<le> NBUF" using t by (simp add: hold_def less_imp_le)
    ultimately show "kwp (kbind (buf_get b) (\<lambda>lh. kthen (kmodify (\<lambda>s. s\<lparr>lh_n := blk_load32 (bdata lh) 0\<rparr>))
     (kthen (kfor 0 (signed_bound (blk_load32 (bdata lh) 0)) (\<lambda>i. lh_set i (blk_load32 (bdata lh) (4 + 4 * i))))
            (bufcache_release b)))) (\<lambda>_ t. lstep [] s t \<and> lh_n t = n \<and> (\<forall>i<n. lh_sector t i = blk_load32 h (4 + 4 * i))) t"
      using signed_bound_small [OF l(3)] by (simp add: kwp_kbind kwp_buf_get kwp_kthen [of "kmodify f" for f] kwp_kmodify d flip: n_def)
  qed
  then show ?thesis unfolding read_head_def by (simp only: kwp_kbind kwp_kgets)
qed

lemma head_block_0: "head_block d n sec 0 = blk_store32 d 0 n"
  by (simp add: head_block_def)

text \<open>Installing the logged blocks and clearing the header, which commit and recovery both end with.\<close>

lemma install_clear_wp:
  fixes s :: "'a fs_log_scheme"
  defines "h \<equiv> content s (log_dev s) (log_start s)"
  assumes s: "quiet s" "roomy (bufs s)" and l: "log_layout (log_dev s) (log_start s) (lh_n s) (lh_sector s)"
  shows "kwp (kthen install_trans (kthen (kmodify (\<lambda>s. s\<lparr>lh_n := 0\<rparr>)) write_head))
     (\<lambda>_ t. lstep (home_writes (log_dev s) (log_start s) (lh_sector s) (content s) (unat (lh_n s)) @
        [(log_dev s, log_start s, blk_store32 h 0 0)]) s t \<and> lh_n t = 0 \<and> log_busy t = log_busy s) s"
proof (rule kwp_kthenI [OF install_trans_wp [OF s l]])
  let ?W = "home_writes (log_dev s) (log_start s) (lh_sector s) (content s) (unat (lh_n s))"
  note ld = log_layoutD [OF l]
  fix x t
  assume t: "qstep ?W s t"
  have f: "log_dev t = log_dev s" "log_start t = log_start s" "log_busy t = log_busy s" using t frame_log [of s t] by (auto simp: qstep_def)
  have "writes ?W (content s) (log_dev s) (log_start s) = h"
    unfolding h_def using ld(7) of_nat_lt_u32 by (intro home_writes_other) blast
  then have c: "content t (log_dev s) (log_start s) = h" using t by (simp only: qstep_def)
  have q: "quiet (t\<lparr>lh_n := 0\<rparr>)" "roomy (bufs (t\<lparr>lh_n := 0\<rparr>))" using t qstep_roomy [OF t s(2)] by (simp_all add: qstep_def)
  have "kwp write_head (\<lambda>_ u. qstep [(log_dev s, log_start s, blk_store32 h 0 0)] (t\<lparr>lh_n := 0\<rparr>) u) (t\<lparr>lh_n := 0\<rparr>)"
    using write_head_wp [OF q] ld(1,3) f c by (simp add: head_block_0)
  then have "kwp write_head (\<lambda>_ u. lstep (?W @ [(log_dev s, log_start s, blk_store32 h 0 0)]) s u \<and> lh_n u = 0 \<and> log_busy u = log_busy s) (t\<lparr>lh_n := 0\<rparr>)"
  proof (rule kwp_mono)
    fix y u
    assume u: "qstep [(log_dev s, log_start s, blk_store32 h 0 0)] (t\<lparr>lh_n := 0\<rparr>) u"
    show "lstep (?W @ [(log_dev s, log_start s, blk_store32 h 0 0)]) s u \<and> lh_n u = 0 \<and> log_busy u = log_busy s"
      using lstep_trans [OF lstep_lh_n [OF qstep_lstep [OF t]] qstep_lstep [OF u]] u frame_log [of "t\<lparr>lh_n := 0\<rparr>" u] f(3)
      by (simp add: qstep_def)
  qed
  then show "kwp (kthen (kmodify (\<lambda>s. s\<lparr>lh_n := 0\<rparr>)) write_head) 
     (\<lambda>_ u. lstep (?W @ [(log_dev s, log_start s, blk_store32 h 0 0)]) s u \<and> lh_n u = 0 \<and> log_busy u = log_busy s) t"
    by (simp only: kwp_kthen [of "kmodify f" for f] kwp_kmodify)
qed

lemma recover_from_log_wp:
  fixes s :: "'a fs_log_scheme"
  defines "h \<equiv> content s (log_dev s) (log_start s)"
  assumes s: "quiet s" "roomy (bufs s)"
    and l: "log_layout (log_dev s) (log_start s) (blk_load32 h 0) (\<lambda>i. blk_load32 h (4 + 4 * i))"
  shows "kwp recover_from_log (\<lambda>_ t. lstep (home_writes (log_dev s) (log_start s) (\<lambda>i. blk_load32 h (4 + 4 * i)) (content s) (unat (blk_load32 h 0)) @
        [(log_dev s, log_start s, blk_store32 h 0 0)]) s t \<and> lh_n t = 0) s"
proof -
  note ld = log_layoutD [OF l]
  have "kwp read_head (\<lambda>_ t. lstep [] s t \<and> lh_n t = blk_load32 h 0 \<and> (\<forall>i<blk_load32 h 0. lh_sector t i = blk_load32 h (4 + 4 * i))) s"
    using read_head_wp [OF s ld(1,3)] ld(2) by (simp add: h_def)
  then show ?thesis unfolding recover_from_log_def
  proof (rule kwp_kthenI)
    fix x t
    assume t: "lstep [] s t \<and> lh_n t = blk_load32 h 0 \<and> (\<forall>i<blk_load32 h 0. lh_sector t i = blk_load32 h (4 + 4 * i))"
    have f: "log_dev t = log_dev s" "log_start t = log_start s" "content t = content s" "quiet t" using t by (auto simp: lstep_def)
    have r: "roomy (bufs t)" using t s(2) lstep_roomy by blast
    have lt: "log_layout (log_dev t) (log_start t) (lh_n t) (lh_sector t)"
      using l t f log_layout_cong [of "lh_n t" "lh_sector t" "\<lambda>i. blk_load32 h (4 + 4 * i)"] by simp
    have e: "home_writes (log_dev t) (log_start t) (lh_sector t) (content t) (unat (lh_n t)) =
        home_writes (log_dev s) (log_start s) (\<lambda>i. blk_load32 h (4 + 4 * i)) (content s) (unat (blk_load32 h 0))"
      using t f of_nat_lt_u32 [of _ "blk_load32 h 0"] by (simp add: home_writes_def)
    show "kwp (kthen install_trans (kthen (kmodify (\<lambda>s. s\<lparr>lh_n := 0\<rparr>)) write_head))
       (\<lambda>_ u. lstep (home_writes (log_dev s) (log_start s) (\<lambda>i. blk_load32 h (4 + 4 * i)) (content s) (unat (blk_load32 h 0)) @
        [(log_dev s, log_start s, blk_store32 h 0 0)]) s u \<and> lh_n u = 0) t"
      using install_clear_wp [OF f(4) r lt] t lstep_trans [of "[]" s t] unfolding e unfolding f
      by (elim kwp_mono) (auto simp flip: h_def)
  qed
qed

text \<open>The sector writes of one commit: the header, the home sectors, the cleared header.\<close>

definition commit_writes :: "u32 \<Rightarrow> u32 \<Rightarrow> u32 \<Rightarrow> (u32 \<Rightarrow> u32) \<Rightarrow> (u32 \<Rightarrow> u32 \<Rightarrow> block) \<Rightarrow> (u32 \<times> u32 \<times> block) list" where
  "commit_writes dev start n sec C =
     (let hb = head_block (C dev start) n sec (unat n)
      in (dev, start, hb) # home_writes dev start sec C (unat n) @ [(dev, start, blk_store32 hb 0 0)])"

lemma commit_trans_wp:
  fixes s :: "'a fs_log_scheme"
  assumes s: "quiet s" "roomy (bufs s)" "lock_free (log_lk s)" and n: "0 < lh_n s"
    and l: "log_layout (log_dev s) (log_start s) (lh_n s) (lh_sector s)"
  shows "kwp commit_trans (\<lambda>_ t. lstep (commit_writes (log_dev s) (log_start s) (lh_n s) (lh_sector s) (content s)) s t \<and>
     lh_n t = 0 \<and> \<not> log_busy t) s"
proof -
  note ld = log_layoutD [OF l]
  let ?hb = "head_block (content s (log_dev s) (log_start s)) (lh_n s) (lh_sector s) (unat (lh_n s))"
  let ?W = "commit_writes (log_dev s) (log_start s) (lh_n s) (lh_sector s) (content s)"
  have pos: "0 <s lh_n s" 
    using n ld(2) sint_small [of "lh_n s"] by (simp add: word_sless_alt word_less_def word_le_nat_alt)
  have "kwp (kthen write_head (kthen install_trans (kthen (kmodify (\<lambda>s. s\<lparr>lh_n := 0\<rparr>)) write_head)))
     (\<lambda>_ u. lstep ?W s u \<and> lh_n u = 0) s"
  proof (rule kwp_kthenI [OF write_head_wp [OF s(1,2) ld(1,3,2)]])
    fix x t
    assume t: "qstep [(log_dev s, log_start s, ?hb)] s t"
    have f: "log_dev t = log_dev s" "log_start t = log_start s" "lh_n t = lh_n s" "lh_sector t = lh_sector s"
      using t frame_log [of s t] by (auto simp: qstep_def)
    have c: "content t = blk_write (content s) (log_dev s) (log_start s) ?hb" using t by (simp add: qstep_def)
    have q: "quiet t" "roomy (bufs t)" "log_layout (log_dev t) (log_start t) (lh_n t) (lh_sector t)"
      using t qstep_roomy [OF t s(2)] l f by (simp_all add: qstep_def)
    have e: "home_writes (log_dev s) (log_start s) (lh_sector s) (content t) (unat (lh_n s)) =
        home_writes (log_dev s) (log_start s) (lh_sector s) (content s) (unat (lh_n s))"
      using ld(8) of_nat_lt_u32 [of _ "lh_n s"] by (intro home_writes_cong) (simp add: c blk_write_apply)
    have "content t (log_dev t) (log_start t) = ?hb" by (simp add: c f blk_write_apply)
    then show "kwp (kthen install_trans (kthen (kmodify (\<lambda>s. s\<lparr>lh_n := 0\<rparr>)) write_head)) (\<lambda>_ u. lstep ?W s u \<and> lh_n u = 0) t"
      using install_clear_wp [OF q] unfolding f e
      by (elim kwp_mono) (use lstep_trans [OF qstep_lstep [OF t]] in \<open>simp add: commit_writes_def Let_def\<close>)
  qed
  then have "kwp (kthen (kthen write_head (kthen install_trans (kthen (kmodify (\<lambda>s. s\<lparr>lh_n := 0\<rparr>)) write_head)))
     (kthen log_acquire (kthen (kmodify (\<lambda>s. s\<lparr>log_busy := False\<rparr>)) (kthen (thread_wakeup LogChan) log_release))))
     (\<lambda>_ t. lstep ?W s t \<and> lh_n t = 0 \<and> \<not> log_busy t) s"
  proof (rule kwp_kthenI)
    fix x t
    assume t: "lstep ?W s t \<and> lh_n t = 0"
    then have "calm t" "log_lk t = spinlock_init" using s(3) by (simp_all add: lstep_def quiet_def bc_ok_def drive_ok_def)
    moreover have "calm (t\<lparr>log_lk := l, log_busy := x\<rparr>) = calm t" for l x by (simp add: calm_def)
    ultimately show "kwp (kthen log_acquire (kthen (kmodify (\<lambda>s. s\<lparr>log_busy := False\<rparr>)) (kthen (thread_wakeup LogChan) log_release)))
       (\<lambda>_ t. lstep ?W s t \<and> lh_n t = 0 \<and> \<not> log_busy t) t"
      using t calmD [of t] by (simp add: wp kwp_wakeup_calm) (simp add: lstep_def quiet_def)
  qed
  then show ?thesis unfolding commit_trans_def using pos by (simp add: kwp_kbind kwp_kgets kwhen_def)
qed

section \<open>Crashes\<close>

text \<open>A disk on its own: what the writes leave at a sector they touch does not depend on what was there.\<close>

lemma writes_point: "D dev sec = D' dev sec \<Longrightarrow> writes W D dev sec = writes W D' dev sec"
proof (induction W arbitrary: D D')
  case (Cons w W)
  obtain d c x where w: "w = (d, c, x)" by (cases w)
  have "writes W (blk_write D d c x) dev sec = writes W (blk_write D' d c x) dev sec"
    using Cons.prems by (intro Cons.IH) (simp add: blk_write_apply)
  then show ?case by (simp add: w)
qed simp

lemma writes_touched: "(dev, sec, x) \<in> set W \<Longrightarrow> writes W D dev sec = writes W D' dev sec"
proof (induction W arbitrary: D D')
  case (Cons w W)
  obtain d c y where w: "w = (d, c, y)" by (cases w)
  have "writes W (blk_write D d c y) dev sec = writes W (blk_write D' d c y) dev sec"
  proof (cases "(dev, sec, x) \<in> set W")
    case False
    then show ?thesis using Cons.prems w by (intro writes_point) (simp add: blk_write_apply)
  qed (rule Cons.IH)
  then show ?case by (simp add: w)
qed simp

lemma writes_redo: "set V \<subseteq> set W \<Longrightarrow> writes W (writes V D) = writes W D"
proof (rule ext, rule ext)
  fix dev sec
  assume V: "set V \<subseteq> set W"
  show "writes W (writes V D) dev sec = writes W D dev sec"
  proof (cases "\<exists>x. (dev, sec, x) \<in> set W")
    case True
    then show ?thesis using writes_touched by blast
  next
    case False
    then show ?thesis using V by (intro writes_point writes_other) blast
  qed
qed

text \<open>A machine that has rebooted: nothing cached differs from the disk, and the log is found where it was.\<close>

definition rebooted :: "u32 \<Rightarrow> u32 \<Rightarrow> (u32 \<Rightarrow> u32 \<Rightarrow> block) \<Rightarrow> 'a fs_log_scheme \<Rightarrow> bool" where
  "rebooted dev start D r \<longleftrightarrow> quiet r \<and> roomy (bufs r) \<and> content r = D \<and> disk r = D \<and> log_dev r = dev \<and> log_start r = start"

lemma recover_disk:
  assumes r: "rebooted dev start D r" and n: "blk_load32 (D dev start) 0 = n"
    and sec: "\<forall>i<n. blk_load32 (D dev start) (4 + 4 * i) = sec i" and l: "log_layout dev start n sec"
  shows "\<exists>u. recover_from_log r = Inr ((), u) \<and> blk_load32 (disk u dev start) 0 = 0 \<and>
     (\<forall>d c. (d, c) \<noteq> (dev, start) \<longrightarrow> disk u d c = writes (home_writes dev start sec D (unat n)) D d c)"
proof -
  let ?h = "D dev start" and ?sec = "\<lambda>i. blk_load32 (D dev start) (4 + 4 * i)"
  have q: "quiet r" "roomy (bufs r)" "content r = D" "disk r = D" "log_dev r = dev" "log_start r = start" using r by (auto simp: rebooted_def)
  have "log_layout dev start n ?sec" using l log_layout_cong [of n ?sec sec dev start] sec by simp
  then have "kwp recover_from_log (\<lambda>_ t. lstep (home_writes dev start ?sec D (unat n) @ [(dev, start, blk_store32 ?h 0 0)]) r t \<and> lh_n t = 0) r"
    using recover_from_log_wp [OF q(1,2)] q n by simp
  moreover have "home_writes dev start ?sec D (unat n) = home_writes dev start sec D (unat n)"
    using sec of_nat_lt_u32 [of _ n] by (intro home_writes_cong) simp
  ultimately obtain u where u: "recover_from_log r = Inr ((), u)"
      "disk u = blk_write (writes (home_writes dev start sec D (unat n)) D) dev start (blk_store32 ?h 0 0)"
    using q(4) by (auto elim!: kwpE simp: lstep_def)
  then show ?thesis by (intro exI [of _ u]) (auto simp: blk_write_apply blk_load32_store32)
qed

lemma home_writes_mem: "(d, c, x) \<in> set (home_writes dev start sec C (unat n)) \<Longrightarrow> \<exists>i<n. d = dev \<and> c = sec i"
  unfolding home_writes_def by clarsimp (blast dest: of_nat_lt_u32)

lemma crash_recovers:
  assumes l: "log_layout dev start n sec" and blocks: "\<forall>i<n. C dev (start + i + 1) = D dev (start + i + 1)"
    and clear: "blk_load32 (D dev start) 0 = 0"
    and r: "rebooted dev start (writes (take k (commit_writes dev start n sec C)) D) r"
  shows "\<exists>u. recover_from_log r = Inr ((), u) \<and> blk_load32 (disk u dev start) 0 = 0 \<and>
     (\<forall>d c. (d, c) \<noteq> (dev, start) \<longrightarrow> disk u d c = (if k = 0 then D else writes (home_writes dev start sec C (unat n)) D) d c)"
proof -
  note ld = log_layoutD [OF l]
  let ?hb = "head_block (C dev start) n sec (unat n)" and ?H = "home_writes dev start sec C (unat n)"
  have l0: "log_layout dev start 0 f" for f using l by (simp add: log_layout_def)
  have un: "unat n \<le> 10" using ld(2) by (simp add: word_le_nat_alt)
  have start: "writes V E dev start = E dev start" if "set V \<subseteq> set ?H" for V E
    using that ld(7) home_writes_mem by (intro writes_other) blast
  consider "k = 0" | j where "k = Suc j" "j \<le> unat n" | "k \<ge> Suc (Suc (unat n))" by (cases k) force+
  then show ?thesis
  proof cases
    case 1
    then show ?thesis using recover_disk [of dev start D r 0 "\<lambda>_. 0"] r clear l0 by (simp add: home_writes_def)
  next
    case (2 j)
    let ?D = "writes (take j ?H) (blk_write D dev start ?hb)"
    have rD: "rebooted dev start ?D r" using r 2 by (simp add: commit_writes_def Let_def home_writes_def)
    have sub: "set (take j ?H) \<subseteq> set ?H" by (rule set_take_subset)
    have h: "?D dev start = ?hb" using start [OF sub] by (simp add: blk_write_apply)
    have e: "blk_load32 ?hb (4 + 4 * i) = sec i" if "i < n" for i
      using head_block_entry [OF un, of "unat i"] that by (simp add: word_less_nat_alt)
    have log: "?D dev (start + i + 1) = C dev (start + i + 1)" if i: "i < n" for i
    proof -
      have "?D dev (start + i + 1) = blk_write D dev start ?hb dev (start + i + 1)"
        using sub ld(6) [OF _ i] home_writes_mem by (intro writes_other) blast
      then show ?thesis using ld(8) [OF i] i blocks by (simp add: blk_write_apply)
    qed
    have w: "home_writes dev start sec ?D (unat n) = ?H"
      using log of_nat_lt_u32 [of _ n] by (intro home_writes_cong) simp
    have "writes ?H ?D d c = writes ?H D d c" if "(d, c) \<noteq> (dev, start)" for d c
      using writes_redo [OF sub] writes_point [of "blk_write D dev start ?hb" d c D ?H] that by (auto simp: blk_write_apply)
    then show ?thesis
      using recover_disk [OF rD _ _ l] h e head_block_count [OF un] w 2 by simp
  next
    case 3
    let ?D = "writes (commit_writes dev start n sec C) D"
    have rD: "rebooted dev start ?D r" using r 3 by (simp add: commit_writes_def home_writes_def Let_def)
    have h: "?D dev start = blk_store32 ?hb 0 0" by (simp add: commit_writes_def Let_def blk_write_apply)
    have "?D d c = writes ?H D d c" if "(d, c) \<noteq> (dev, start)" for d c
      using writes_point [of "blk_write D dev start ?hb" d c D ?H] that by (auto simp: commit_writes_def Let_def blk_write_apply)
    then show ?thesis
      using recover_disk [OF rD _ _ l0, of "\<lambda>_. 0"] h 3 by (simp add: blk_load32_store32 home_writes_def)
  qed
qed

text \<open>
  C2: Commits are atomic with respect to crashes. \<^verbatim>\<open>commit_trans\<close> on a transaction of \<open>n\<close> blocks whose
  logged copies are on disk performs exactly the sector writes \<open>commit_writes\<close>, in that order: the
  header, the home sectors, the cleared header. If the machine stops after any number \<open>k\<close> of them
  and reboots with that disk, \<^verbatim>\<open>recover_from_log\<close> runs to completion and leaves the log empty and
  every other sector as it was before the commit if no write had reached the disk, and as after the complete
  commit otherwise; no mixture of the two is possible.
\<close>

theorem log_crash_atomic:
  fixes s :: "'a fs_log_scheme"
  defines "dev \<equiv> log_dev s" and "start \<equiv> log_start s" and "n \<equiv> lh_n s" and "sec \<equiv> lh_sector s"
  defines "W \<equiv> commit_writes dev start n sec (content s)"
  assumes s: "quiet s" "roomy (bufs s)" "lock_free (log_lk s)" and n: "0 < n" and l: "log_layout dev start n sec"
    and logged: "\<forall>i<n. content s dev (start + i + 1) = disk s dev (start + i + 1)"
    and clear: "blk_load32 (disk s dev start) 0 = 0"
  shows "\<exists>t. commit_trans s = Inr ((), t) \<and> disk_hist t = disk_hist s @ W \<and> disk t = writes W (disk s) \<and> lh_n t = 0 \<and> \<not> log_busy t \<and>
     (\<forall>k r. rebooted dev start (writes (take k W) (disk s)) (r :: 'b fs_log_scheme) \<longrightarrow>
       (\<exists>u. recover_from_log r = Inr ((), u) \<and> blk_load32 (disk u dev start) 0 = 0 \<and>
          (\<forall>d c. (d, c) \<noteq> (dev, start) \<longrightarrow> disk u d c = (if k = 0 then disk s d c else disk t d c))))"
proof -
  obtain t where t: "commit_trans s = Inr ((), t)" "lstep W s t" "lh_n t = 0" "\<not> log_busy t"
    using commit_trans_wp [OF s] n l unfolding W_def dev_def start_def n_def sec_def by (auto elim!: kwpE)
  let ?H = "home_writes dev start sec (content s) (unat n)" and ?hb = "head_block (content s dev start) n sec (unat n)"
  have e: "writes W (disk s) d c = writes ?H (disk s) d c" if "(d, c) \<noteq> (dev, start)" for d c
    using writes_point [of "blk_write (disk s) dev start ?hb" d c "disk s" ?H] that by (auto simp: W_def commit_writes_def Let_def blk_write_apply)
  have "\<exists>u. recover_from_log r = Inr ((), u) \<and> blk_load32 (disk u dev start) 0 = 0 \<and>
          (\<forall>d c. (d, c) \<noteq> (dev, start) \<longrightarrow> disk u d c = (if k = 0 then disk s d c else disk t d c))"
    if r: "rebooted dev start (writes (take k W) (disk s)) r" for k and r :: "'b fs_log_scheme"
    using crash_recovers [OF l logged clear r [unfolded W_def]] t(2) e by (auto simp: lstep_def)
  then show ?thesis using t by (auto simp: lstep_def)
qed

text \<open>One block logged for sector 50, with the log at sector 100 of the root drive.\<close>

definition log_demo :: fs_log where
  "log_demo = fs_buf.extend (cache_demo\<lparr>disk := (\<lambda>dev sec i. if sec = 101 then 7 else 0)\<rparr>)
     \<lparr>log_lk = spinlock_init, log_start = 100, log_size = 11, log_busy = True, log_dev = 1, lh_n = 1, lh_sector = (\<lambda>_. 50)\<rparr>"

lemma log_demo_ok: "quiet (log_demo\<lparr>disk := D\<rparr>)" "roomy (bufs (log_demo\<lparr>disk := D\<rparr>))" "content (log_demo\<lparr>disk := D\<rparr>) = D"
proof -
  have l: "linked (bufs cache_demo) 10" by (simp add: linked_def cache_demo_def upt_rec)
  have d: "drive_ok (log_demo\<lparr>disk := D\<rparr>)" using fs_demo_drive(1)
    by (simp add: log_demo_def fs_buf.defs cache_demo_def drive_ok_def calm_def)
  have e: "(log_demo\<lparr>disk := D\<rparr>)\<lparr>bcache_lk := spinlock_init, bufs := bufs cache_demo\<rparr> = log_demo\<lparr>disk := D\<rparr>"
    by (simp add: log_demo_def fs_buf.defs cache_demo_def fs_demo_def thread.defs)
  have b: "bufs (log_demo\<lparr>disk := D\<rparr>) = bufs cache_demo" by (simp add: log_demo_def fs_buf.defs)
  show "quiet (log_demo\<lparr>disk := D\<rparr>)" "roomy (bufs (log_demo\<lparr>disk := D\<rparr>))" "content (log_demo\<lparr>disk := D\<rparr>) = D"
    using linked_quiet [OF d l] unfolding e b by simp_all
qed

theorem log_crash_atomic_witness:
  "\<exists>t u. commit_trans log_demo = Inr ((), t) \<and> disk t 1 50 = (\<lambda>_. 7) \<and>
     recover_from_log (log_demo\<lparr>disk := writes (take 1 (commit_writes 1 100 1 (\<lambda>_. 50) (content log_demo))) (disk log_demo)\<rparr>) = Inr ((), u) \<and>
     disk u 1 50 = (\<lambda>_. 7) \<and> disk u 1 51 = (\<lambda>_. 0)"
proof -
  let ?W = "commit_writes 1 100 1 (\<lambda>_. 50) (content log_demo)"
  have f: "log_dev log_demo = 1" "log_start log_demo = 100" "lh_n log_demo = 1" "lh_sector log_demo = (\<lambda>_. 50)" "lock_free (log_lk log_demo)"
      "disk log_demo = (\<lambda>dev sec i. if sec = 101 then 7 else 0)"
    by (simp_all add: log_demo_def fs_buf.defs cache_demo_def fs_demo_def thread.defs)
  have c: "content log_demo = disk log_demo" using log_demo_ok(3) [of "disk log_demo"] by simp
  have q: "quiet log_demo" "roomy (bufs log_demo)" using log_demo_ok(1,2) [of "disk log_demo"] by simp_all
  have l: "log_layout 1 100 1 (\<lambda>_. 50)" "blk_load32 (disk log_demo 1 100) 0 = 0"
    by (simp_all add: log_layout_def f blk_load32_def)
  obtain t where t: "commit_trans log_demo = Inr ((), t)" "disk t = writes ?W (disk log_demo)"
      "\<forall>k r. rebooted 1 100 (writes (take k ?W) (disk log_demo)) (r :: fs_log) \<longrightarrow>
       (\<exists>u. recover_from_log r = Inr ((), u) \<and> blk_load32 (disk u 1 100) 0 = 0 \<and>
          (\<forall>d c. (d, c) \<noteq> (1, 100) \<longrightarrow> disk u d c = (if k = 0 then disk log_demo d c else disk t d c)))"
    using log_crash_atomic [of log_demo] q l c unfolding f(1-5) by auto
  let ?D = "writes (take 1 ?W) (disk log_demo)"
  have "rebooted 1 100 ?D (log_demo\<lparr>disk := ?D\<rparr>)" using log_demo_ok [of ?D] f by (simp add: rebooted_def)
  then obtain u where u: "recover_from_log (log_demo\<lparr>disk := ?D\<rparr>) = Inr ((), u)"
      "\<forall>d c. (d, c) \<noteq> (1, 100) \<longrightarrow> disk u d c = (if (1::nat) = 0 then disk log_demo d c else disk t d c)"
    using t(3) by blast
  have "disk t 1 50 = (\<lambda>_. 7)" "disk t 1 51 = (\<lambda>_. 0)"
    by (simp_all add: t(2) commit_writes_def home_writes_def Let_def blk_write_apply c f)
  then show ?thesis using t(1) u by simp
qed

section \<open>Logging a block\<close>

lemma mark_dirty_seq:
  assumes ok: "bc_ok s" and h: "hold s b dev sec"
  shows "kwp (buf_upd b (\<lambda>x. x\<lparr>bflags := bflags x OR B_DIRTY\<rparr>)) (\<lambda>_ t. bop b s t \<and> hold t b dev sec \<and> content t = content s \<and>
     disk t = disk s \<and> disk_hist t = disk_hist s \<and> dirty (bufs t b)) s"
proof -
  let ?y = "(bufs s b)\<lparr>bflags := bflags (bufs s b) OR B_DIRTY\<rparr>"
  define t where "t = s\<lparr>bufs := (bufs s)(b := ?y)\<rparr>"
  have b: "b < NBUF" "busy (bufs s b)" and nd: "bdev (bufs s b) \<noteq> no_dev" using h by (auto simp: hold_def)
  have c: "cache_ok (bufs s) (disk s)" using ok by (simp add: bc_ok_def)
  have "cache_ok ((bufs s)(b := ?y)) (disk s)"
  proof (rule cache_ok_upd [OF c])
    fix c assume "c < NBUF" "c \<noteq> b"
    then show "\<not> (bdev (bufs s c) = bdev ?y \<and> bsector (bufs s c) = bsector ?y)"
      using cache_okD(4) [OF c b(1) nd, of c] by auto
  qed (use cache_okD(1,2) [OF c b(1) nd] b(2) in \<open>simp_all add: disk_sector_def flag_sets'\<close>)
  then have "cache_ok (bufs t) (disk t)" by (simp add: t_def)
  moreover have "lru (bufs t) xs = lru (bufs s) xs" for xs by (rule lru_cong) (simp_all add: t_def)
  ultimately have okt: "bc_ok t" using ok by (simp add: bc_ok_def drive_ok_def t_def)
  have "content t = content s" by (rule content_same [OF ok okt]) (simp_all add: t_def)
  then show ?thesis
    using okt b h frame_bufs [of s "bufs t"] by (auto simp: wp t_def bop_def hold_def less_imp_le flag_sets')
qed

definition entry_for :: "u32 \<Rightarrow> (u32 \<Rightarrow> u32) \<Rightarrow> u32 \<Rightarrow> u32 \<Rightarrow> bool" where
  "entry_for n sec c i \<longleftrightarrow> (i < n \<and> sec i = c) \<or> (i = n \<and> (\<forall>j<n. sec j \<noteq> c))"

lemma log_slot_wp:
  fixes s :: "'a fs_log_scheme"
  assumes "lh_n s \<le> 10"
  shows "kwp (log_slot c) (\<lambda>i t. t = s \<and> entry_for (lh_n s) (lh_sector s) c i) s"
proof -
  let ?body = "\<lambda>i. kbind (lh_get i) (\<lambda>x. kreturn (if x = c then Some i else None)) :: ('a fs_log_scheme, u32 option) kprog"
  have "kwp (kfor_ret 0 (lh_n s) ?body) (\<lambda>r t. t = s \<and> entry_for (lh_n s) (lh_sector s) c (case r of Some i \<Rightarrow> i | None \<Rightarrow> lh_n s)) s"
  proof (rule kwp_kfor_ret [where I = "\<lambda>j t. t = s \<and> (\<forall>i<j. lh_sector s i \<noteq> c)"])
    fix j :: u32 and t
    assume j: "j < lh_n s" "t = s \<and> (\<forall>i<j. lh_sector s i \<noteq> c)"
    have "j < 10" using j(1) assms by (rule order_less_le_trans)
    moreover have "i < j + 1 \<longleftrightarrow> i < j \<or> i = j" for i using unat_inc [OF j(1)] by (auto simp: word_less_nat_alt word_unat_eq_iff)
    ultimately show "kwp (?body j) (\<lambda>r t'. case r of None \<Rightarrow> t' = s \<and> (\<forall>i<j + 1. lh_sector s i \<noteq> c)
        | Some i \<Rightarrow> t' = s \<and> entry_for (lh_n s) (lh_sector s) c (case Some i of Some i \<Rightarrow> i | None \<Rightarrow> lh_n s)) t"
      using j by (auto simp: wp entry_for_def)
  qed (simp_all add: entry_for_def)
  then show ?thesis unfolding log_slot_def
    by (simp add: kwp_kbind kwp_kgets kwp_kreturn signed_bound_small [OF assms] cong: option.case_cong)
qed

text \<open>The copy of a held buffer \<open>b\<close> into block \<open>a\<close>, by a second buffer.\<close>

definition log_copy :: "u32 \<Rightarrow> u32 \<Rightarrow> u32 \<Rightarrow> ('a fs_log_scheme, unit) kprog" where
  "log_copy dev a b =
     kbind (bufcache_read dev a) (\<lambda>lbuf.
     kbind (buf_get b) (\<lambda>x.
     kthen (buf_upd lbuf (\<lambda>y. y\<lparr>bdata := bdata x\<rparr>))
     (kthen (bufcache_write lbuf)
            (bufcache_release lbuf))))"

lemma log_copy_wp:
  assumes s: "bc_ok s" "hold s b dev c" and a: "dev < 2" "a < 0x10000000" "available (bufs s) dev a"
  shows "kwp (log_copy dev a b) (\<lambda>_ t. frame s t \<and> bc_ok t \<and> hold t b dev c \<and> content t = blk_write (content s) dev a (content s dev c) \<and>
     disk t = blk_write (disk s) dev a (content s dev c) \<and> disk_hist t = disk_hist s @ [(dev, a, content s dev c)]) s"
    (is "kwp _ ?Q s")
  unfolding log_copy_def
proof (rule kwp_kbindI [OF read_seq [OF s(1) a]])
  let ?d = "content s dev c"
  fix l t
  assume t: "bop l s t \<and> hold t l dev a \<and> content t = content s \<and> disk t = disk s \<and> disk_hist t = disk_hist s \<and>
    \<not> busy (bufs s l) \<and> (dirty (bufs t l) \<longrightarrow> dirty (bufs s l)) \<and> (dirty (bufs t l) \<or> content s dev a = disk s dev a)"
  have okt: "bc_ok t" using t bopD(2) by blast
  have lb: "b \<noteq> l" using t s(2) by (auto simp: hold_def)
  then have hb: "hold t b dev c" using t s(2) bopD(7) [of l s t b] by auto
  have d: "bdata (bufs t b) = ?d" using content_hold [OF okt hb] t by simp
  have "kwp (kthen (buf_upd l (\<lambda>y. y\<lparr>bdata := ?d\<rparr>)) (kthen (bufcache_write l) (bufcache_release l))) ?Q t"
  proof (rule kwp_kthenI [OF upd_seq [OF okt, of l dev a]])
    show "hold t l dev a" using t by blast
    fix x u
    assume u: "bop l t u \<and> hold u l dev a \<and> content u = blk_write (content t) dev a ?d \<and> disk u = disk t \<and> disk_hist u = disk_hist t \<and>
      bflags (bufs u l) = bflags (bufs t l)"
    have oku: "bc_ok u" using u bopD(2) by blast
    show "kwp (kthen (bufcache_write l) (bufcache_release l)) ?Q u"
    proof (rule kwp_kthenI [OF write_seq [OF oku, of l dev a]])
      show "hold u l dev a" using u by blast
      fix y v
      assume v: "bop l u v \<and> hold v l dev a \<and> content v = content u \<and> disk v = blk_write (disk u) dev a (content u dev a) \<and>
        disk_hist v = disk_hist u @ [(dev, a, content u dev a)] \<and> \<not> dirty (bufs v l)"
      have okv: "bc_ok v" using v bopD(2) by blast
      show "kwp (bufcache_release l) ?Q v"
      proof (rule kwp_mono [OF release_seq [OF okv, of l dev a]])
        show "hold v l dev a" "dirty (bufs v l) \<or> content v dev a = disk v dev a" using v by (auto simp: blk_write_apply)
        fix z w
        assume w: "bop l v w \<and> content w = content v \<and> disk w = disk v \<and> disk_hist w = disk_hist v \<and> \<not> busy (bufs w l) \<and>
          dirty (bufs w l) = dirty (bufs v l) \<and> bdev (bufs w l) = dev \<and> bsector (bufs w l) = a"
        have "bop l s w" using t u v w bop_trans by blast
        then show "?Q z w" using t u v w s(2) bopD(1,2) [of l s w] bopD(7) [of l s w b dev c] lb by (simp add: blk_write_apply)
      qed
    qed
  qed
  moreover have "b \<le> NBUF" using s(2) by (simp add: hold_def less_imp_le)
  ultimately show "kwp (kbind (buf_get b) (\<lambda>x. kthen (buf_upd l (\<lambda>y. y\<lparr>bdata := bdata x\<rparr>)) (kthen (bufcache_write l) (bufcache_release l)))) ?Q t"
    by (simp add: kwp_kbind kwp_buf_get d)
qed

lemma log_write_eq:
  "log_write b =
     kbind (kgets lh_n) (\<lambda>n.
     kbind (kgets log_size) (\<lambda>sz.
     kbind (kgets log_busy) (\<lambda>busy.
     kthen (kassert (\<not> (LOGSIZE \<le>s n \<or> sz - 1 \<le>s n)) (Panic ''too big a transaction''))
     (kthen (kassert busy (Panic ''write outside of trans''))
     (kbind (buf_get b) (\<lambda>x.
     kbind (log_slot (bsector x)) (\<lambda>i.
     kthen (lh_set i (bsector x))
     (kbind (kgets log_start) (\<lambda>start.
     kthen (log_copy (bdev x) (start + i + 1) b)
     (kthen (kwhen (i = n) (kmodify (\<lambda>s. s\<lparr>lh_n := lh_n s + 1\<rparr>)))
            (buf_upd b (\<lambda>y. y\<lparr>bflags := bflags y OR B_DIRTY\<rparr>))))))))))))"
  unfolding log_write_def log_copy_def by (simp only: kthen_def kbind_assoc)

text \<open>
  A transaction in progress: the header names distinct sectors outside the log, and the log block of
  each of them except possibly \<open>c\<close> is on disk and is the present content of the sector.
\<close>

definition tx_ok :: "(u32 \<Rightarrow> bool) \<Rightarrow> 'a fs_log_scheme \<Rightarrow> bool" where
  "tx_ok P s \<longleftrightarrow> log_layout (log_dev s) (log_start s) (lh_n s) (lh_sector s) \<and>
     (\<forall>i<lh_n s. \<forall>j<lh_n s. lh_sector s i = lh_sector s j \<longrightarrow> i = j) \<and>
     (\<forall>i<lh_n s. P (lh_sector s i) \<longrightarrow>
        content s (log_dev s) (log_start s + i + 1) = content s (log_dev s) (lh_sector s i) \<and>
        disk s (log_dev s) (log_start s + i + 1) = content s (log_dev s) (lh_sector s i))"

lemma log_write_wp:
  fixes s :: "'a fs_log_scheme"
  defines "dev \<equiv> log_dev s" and "start \<equiv> log_start s" and "n \<equiv> lh_n s"
  assumes ok: "bc_ok s" and h: "hold s b dev c" and act: "log_busy s" and l: "dev < 2" "start < 0xFFFFF00" "n < 10" "n + 1 < log_size s" "log_size s \<le> 11"
    and av: "\<forall>i<10. available (bufs s) dev (start + i + 1)"
  shows "kwp (log_write b) (\<lambda>_ t. \<exists>i. entry_for n (lh_sector s) c i \<and> lh_sector t = (lh_sector s)(i := c) \<and> lh_n t = (if i = n then n + 1 else n) \<and>
     log_dev t = dev \<and> log_start t = start \<and> bc_ok t \<and> hold t b dev c \<and> dirty (bufs t b) \<and>
     content t = blk_write (content s) dev (start + i + 1) (content s dev c) \<and>
     disk t = blk_write (disk s) dev (start + i + 1) (content s dev c)) s"
proof -
  have b: "b \<le> NBUF" "bsector (bufs s b) = c" "bdev (bufs s b) = dev" using h by (auto simp: hold_def less_imp_le)
  have un: "unat n < 10" "unat (log_size s) \<le> 11" "unat n + 1 < unat (log_size s)"
    using l(3-5) unat_inc [OF l(3)] by (simp_all add: word_less_nat_alt word_le_nat_alt)
  then have "unat (log_size s - 1) = unat (log_size s) - 1" by (simp add: unat_sub word_le_nat_alt)
  moreover have "uint n < 10" using l(3) by (simp add: word_less_def)
  moreover have "uint n + 1 < uint (log_size s)"
  proof -
    have "int (unat n + 1) < int (unat (log_size s))" unfolding of_nat_less_iff by (rule un(3))
    then show ?thesis by simp
  qed
  ultimately have guard: "\<not> (LOGSIZE \<le>s n \<or> log_size s - 1 \<le>s n)"
    using un sint_small [of n] sint_small [of "log_size s - 1"] by (simp add: word_sle_eq flip: uint_nat)
  let ?R = "\<lambda>i t. lh_sector t = (lh_sector s)(i := c) \<and> lh_n t = (if i = n then n + 1 else n) \<and>
     log_dev t = dev \<and> log_start t = start \<and> bc_ok t \<and> hold t b dev c \<and> dirty (bufs t b) \<and>
     content t = blk_write (content s) dev (start + i + 1) (content s dev c) \<and>
     disk t = blk_write (disk s) dev (start + i + 1) (content s dev c)"
  have fin: "kwp (kthen (log_copy dev (start + i + 1) b) (kthen (kwhen (i = n) (kmodify (\<lambda>s. s\<lparr>lh_n := lh_n s + 1\<rparr>)))
            (buf_upd b (\<lambda>y. y\<lparr>bflags := bflags y OR B_DIRTY\<rparr>)))) (\<lambda>_ t. ?R i t) (s\<lparr>lh_sector := (lh_sector s)(i := c)\<rparr>)"
    if i: "i < 10" for i
  proof (rule kwp_kthenI [OF log_copy_wp])
    let ?s = "s\<lparr>lh_sector := (lh_sector s)(i := c)\<rparr>"
    have "i \<le> 9" using i by (simp add: word_less_nat_alt word_le_nat_alt)
    then have "unat (start + i + 1) = unat start + unat i + 1" using unat_log_block l(2) by blast
    then show "start + i + 1 < 0x10000000" using l(2) i by (simp add: word_less_nat_alt)
    show "bc_ok ?s" "hold ?s b dev c" "dev < 2" "available (bufs ?s) dev (start + i + 1)" using ok h l(1) av i by (simp_all add: hold_def)
    fix x t
    assume t: "frame ?s t \<and> bc_ok t \<and> hold t b dev c \<and> content t = blk_write (content ?s) dev (start + i + 1) (content ?s dev c) \<and>
      disk t = blk_write (disk ?s) dev (start + i + 1) (content ?s dev c) \<and> disk_hist t = disk_hist ?s @ [(dev, start + i + 1, content ?s dev c)]"
    let ?t = "t\<lparr>lh_n := (if i = n then n + 1 else n)\<rparr>"
    have f: "lh_n t = n" "lh_sector t = (lh_sector s)(i := c)" "log_dev t = dev" "log_start t = start"
      using t frame_log [of ?s t] by (simp_all add: n_def dev_def start_def)
    have "kwp (buf_upd b (\<lambda>y. y\<lparr>bflags := bflags y OR B_DIRTY\<rparr>)) (\<lambda>_ t. ?R i t) ?t"
    proof (rule kwp_mono [OF mark_dirty_seq [of ?t b dev c]])
      show "bc_ok ?t" "hold ?t b dev c" using t by (simp_all add: hold_def)
      fix y u
      assume u: "bop b ?t u \<and> hold u b dev c \<and> content u = content ?t \<and> disk u = disk ?t \<and> disk_hist u = disk_hist ?t \<and> dirty (bufs u b)"
      show "?R i u" using u t f bopD(1,2) [of b ?t u] frame_log [of ?t u] by auto
    qed
    moreover have "(if i = n then t\<lparr>lh_n := lh_n t + 1\<rparr> else t) = ?t" using f(1) by auto
    ultimately show "kwp (kthen (kwhen (i = n) (kmodify (\<lambda>s. s\<lparr>lh_n := lh_n s + 1\<rparr>)))
            (buf_upd b (\<lambda>y. y\<lparr>bflags := bflags y OR B_DIRTY\<rparr>))) (\<lambda>_ t. ?R i t) t"
      by (cases "i = n") (simp_all add: kwp_kthen kwhen_def kwp_kmodify kwp_kreturn)
  qed
  have "kwp (kbind (log_slot c) (\<lambda>i. kthen (lh_set i c) (kbind (kgets log_start) (\<lambda>start. kthen (log_copy dev (start + i + 1) b)
     (kthen (kwhen (i = n) (kmodify (\<lambda>s. s\<lparr>lh_n := lh_n s + 1\<rparr>))) (buf_upd b (\<lambda>y. y\<lparr>bflags := bflags y OR B_DIRTY\<rparr>)))))))
     (\<lambda>_ t. \<exists>i. entry_for n (lh_sector s) c i \<and> ?R i t) s"
  proof (rule kwp_kbindI [OF log_slot_wp])
    show "lh_n s \<le> 10" using l(3) by (simp add: n_def less_imp_le)
    fix i t
    assume t: "t = s \<and> entry_for (lh_n s) (lh_sector s) c i"
    have "i \<le> n" using t by (auto simp: entry_for_def n_def)
    then have i: "i < 10" using l(3) by (rule order_le_less_trans)
    have g: "kwp (kthen (log_copy dev (start + i + 1) b) (kthen (kwhen (i = n) (kmodify (\<lambda>s. s\<lparr>lh_n := lh_n s + 1\<rparr>)))
       (buf_upd b (\<lambda>y. y\<lparr>bflags := bflags y OR B_DIRTY\<rparr>)))) (\<lambda>_ t. \<exists>i. entry_for n (lh_sector s) c i \<and> ?R i t) (s\<lparr>lh_sector := (lh_sector s)(i := c)\<rparr>)"
      by (rule kwp_mono [OF fin [OF i]]) (use t in \<open>auto simp: n_def\<close>)
    show "kwp (kthen (lh_set i c) (kbind (kgets log_start) (\<lambda>start. kthen (log_copy dev (start + i + 1) b)
     (kthen (kwhen (i = n) (kmodify (\<lambda>s. s\<lparr>lh_n := lh_n s + 1\<rparr>))) (buf_upd b (\<lambda>y. y\<lparr>bflags := bflags y OR B_DIRTY\<rparr>))))))
     (\<lambda>_ t. \<exists>i. entry_for n (lh_sector s) c i \<and> ?R i t) t"
      using g t i
      by (simp add: kwp_kthen [of "lh_set a b" for a b] kwp_lh_set kwp_kbind [of "kgets f" for f] kwp_kgets flip: start_def n_def)
  qed
  then show ?thesis unfolding log_write_eq using guard act b
    by (simp add: kwp_kbind [of "kgets f" for f] kwp_kgets kwp_kthen [of "kassert x y" for x y] kwp_kassert kwp_kbind [of "buf_get b"] kwp_buf_get flip: n_def)
qed

lemma entry_step:
  assumes n: "n < (10 :: u32)" and sl: "entry_for n sec c i"
    and inj: "\<forall>i<n. \<forall>j<n. sec i = sec j \<longrightarrow> i = j"
  defines "m \<equiv> (if i = n then n + 1 else n)"
  shows "i < m" "m \<le> 10" "\<And>j. j < m \<Longrightarrow> j \<noteq> i \<Longrightarrow> j < n \<and> sec j \<noteq> c" "\<And>j. j < n \<Longrightarrow> j < m"
proof -
  have un: "unat (n + 1) = unat n + 1" by (simp add: unat_inc [OF n])
  show "i < m" "m \<le> 10" "\<And>j. j < n \<Longrightarrow> j < m"
    using sl n un by (auto simp: entry_for_def m_def word_less_nat_alt word_le_nat_alt)
  have "j < n" if "j < m" "j \<noteq> i" for j
    using that sl un by (auto simp: m_def word_less_nat_alt word_unat_eq_iff split: if_splits)
  then show "j < n \<and> sec j \<noteq> c" if "j < m" "j \<noteq> i" for j
    using that sl inj by (auto simp: entry_for_def)
qed

text \<open>
  C11: \<^verbatim>\<open>log_write\<close> within a transaction records the held buffer: afterwards its sector is in the header,
  once, the log block of every recorded sector is on disk with the sector's present content, and the buffer is
  still held and is dirty, so that it is not recycled before the commit. Nothing outside the
  log's own blocks has been written to the disk.
\<close>

theorem log_write_records:
  fixes s :: "'a fs_log_scheme"
  defines "dev \<equiv> log_dev s" and "start \<equiv> log_start s"
  assumes ok: "bc_ok s" and h: "hold s b dev c" and act: "log_busy s" and tx: "tx_ok (\<lambda>x. x \<noteq> c) s"
    and n: "lh_n s < 10" "lh_n s + 1 < log_size s" "log_size s \<le> 11"
    and c: "c < 0x10000000" "\<not> (start \<le> c \<and> c \<le> start + 10)" and av: "\<forall>i<10. available (bufs s) dev (start + i + 1)"
  shows "\<exists>t. log_write b s = Inr ((), t) \<and> tx_ok (\<lambda>_. True) t \<and>
     lh_sector t ` {i. i < lh_n t} = insert c (lh_sector s ` {i. i < lh_n s}) \<and> hold t b dev c \<and> dirty (bufs t b) \<and>
     (\<forall>d x. \<not> (d = dev \<and> start < x \<and> x \<le> start + 10) \<longrightarrow> content t d x = content s d x \<and> disk t d x = disk s d x)"
proof -
  let ?n = "lh_n s" and ?sec = "lh_sector s" and ?d = "content s dev c"
  have l: "log_layout dev start ?n ?sec" and inj: "\<forall>i<?n. \<forall>j<?n. ?sec i = ?sec j \<longrightarrow> i = j"
    and cp: "\<And>i. i < ?n \<Longrightarrow> ?sec i \<noteq> c \<Longrightarrow> content s dev (start + i + 1) = content s dev (?sec i) \<and> disk s dev (start + i + 1) = content s dev (?sec i)"
    using tx by (auto simp: tx_ok_def dev_def start_def)
  have st: "dev < 2" "start < 0xFFFFF00" using l by (auto simp: log_layout_def)
  obtain t i where t: "log_write b s = Inr ((), t)" and sl: "entry_for ?n ?sec c i" and ts: "lh_sector t = ?sec(i := c)" "lh_n t = (if i = ?n then ?n + 1 else ?n)"
     "log_dev t = dev" "log_start t = start" "hold t b dev c" "dirty (bufs t b)"
    and tc: "content t = blk_write (content s) dev (start + i + 1) ?d" "disk t = blk_write (disk s) dev (start + i + 1) ?d"
    using log_write_wp [OF ok, of b c] h act st n av unfolding dev_def start_def by (auto elim!: kwpE)
  note sp = entry_step [OF n(1) sl inj, folded ts(2)]
  have sec: "lh_sector t j = (if j = i then c else ?sec j)" for j using ts(1) by simp
  have lt: "log_layout dev start (lh_n t) (lh_sector t)"
    using l sp(2) sp(3) c by (auto simp: log_layout_def sec)
  note ld = log_layoutD [OF lt]
  have u: "unat (start + j + 1) = unat start + unat j + 1" "unat (start + 10) = unat start + 10" if "j < lh_n t" for j
    using unat_log_block [OF st(2), of j] that sp(2) by (simp_all add: word_less_nat_alt word_le_nat_alt)
  have ne: "start + j + 1 \<noteq> start + i + 1" if "j \<noteq> i" for j using that by simp
  have cont: "content t dev (lh_sector t j) = content s dev (lh_sector t j)" if "j < lh_n t" for j
    using ld(6) [OF that sp(1)] by (simp add: tc blk_write_apply)
  have "content t dev (start + j + 1) = content t dev (lh_sector t j) \<and> disk t dev (start + j + 1) = content t dev (lh_sector t j)"
    if "j < lh_n t" for j
    using cont [OF that] cp [of j] sp(3) [OF that] ne [of j] by (cases "j = i") (simp_all add: tc blk_write_apply sec)
  moreover have "j = k" if "j < lh_n t" "k < lh_n t" "lh_sector t j = lh_sector t k" for j k
    using that(3) sp(3) [OF that(1)] sp(3) [OF that(2)] inj [rule_format, of j k]
    by (cases "j = i"; cases "k = i") (simp_all add: sec)
  ultimately have "tx_ok (\<lambda>_. True) t" using lt unfolding tx_ok_def ts(3,4) by blast
  moreover have "lh_sector t ` {i. i < lh_n t} = insert c (?sec ` {i. i < ?n})"
  proof
    show "lh_sector t ` {i. i < lh_n t} \<subseteq> insert c (?sec ` {i. i < ?n})" using sp(3) by (auto simp: sec)
    show "insert c (?sec ` {i. i < ?n}) \<subseteq> lh_sector t ` {i. i < lh_n t}"
    proof (intro insert_subsetI image_subsetI)
      show "c \<in> lh_sector t ` {i. i < lh_n t}" using sp(1) by (intro image_eqI [of _ _ i]) (simp_all add: sec)
      fix j assume "j \<in> {i. i < ?n}"
      then show "?sec j \<in> lh_sector t ` {i. i < lh_n t}" using sp(4) [of j] sl by (intro image_eqI [of _ _ j]) (auto simp: sec entry_for_def)
    qed
  qed
  moreover have "start < start + i + 1 \<and> start + i + 1 \<le> start + 10"
    using u [OF sp(1)] sp(1,2) by (simp add: word_less_nat_alt word_le_nat_alt)
  then have "\<forall>d x. \<not> (d = dev \<and> start < x \<and> x \<le> start + 10) \<longrightarrow> content t d x = content s d x \<and> disk t d x = disk s d x"
    by (auto simp: tc blk_write_apply)
  ultimately show ?thesis using t ts(5,6) by blast
qed

theorem log_write_records_witness:
  "\<exists>b s t. bufcache_read 1 50 (log_demo\<lparr>lh_n := 0\<rparr>) = Inr (b, s) \<and> log_write b s = Inr ((), t) \<and> tx_ok (\<lambda>_. True) t \<and> dirty (bufs t b)"
proof -
  let ?s = "log_demo\<lparr>lh_n := 0\<rparr>"
  have f: "log_dev ?s = 1" "log_start ?s = 100" "lh_n ?s = 0" "log_busy ?s" "log_size ?s = 11"
    by (simp_all add: log_demo_def fs_buf.defs)
  have q: "quiet ?s" "roomy (bufs ?s)" "bc_ok ?s" using log_demo_ok(1,2) [of "disk log_demo"] by (simp_all add: quiet_def)
  obtain b s where s: "bufcache_read 1 50 ?s = Inr (b, s)" "bop b ?s s" "hold s b 1 50" "dirty (bufs s b) \<longrightarrow> dirty (bufs ?s b)"
    by (rule kwpE [OF read_seq [OF q(3) _ _ quiet_available [OF q(1,2)], of 1 50]]) auto
  have g: "log_dev s = 1" "log_start s = 100" "lh_n s = 0" "log_busy s" "log_size s = 11"
    using frame_log [OF bopD(1) [OF s(2)]] f by simp_all
  have av: "\<forall>i<10. available (bufs s) 1 (100 + i + 1)"
  proof (intro allI impI)
    fix i :: u32 assume "i < 10"
    then have "unat (100 + i + 1) = 101 + unat i" by (simp add: word_less_nat_alt unat_plus_if')
    then have "unat (100 + i + 1) \<noteq> unat (50 :: u32)" by simp
    then have "100 + i + 1 \<noteq> 50" by metis
    then show "available (bufs s) 1 (100 + i + 1)" using second_available [OF q(1,2) s(2,3,4)] by simp
  qed
  have "tx_ok (\<lambda>x. x \<noteq> 50) s" by (simp add: tx_ok_def log_layout_def g)
  then obtain t where "log_write b s = Inr ((), t)" "tx_ok (\<lambda>_. True) t" "dirty (bufs t b)"
    using log_write_records [OF bopD(2) [OF s(2)], of b 50, unfolded g] s(3) av g(4) by auto
  then show ?thesis using s(1) by blast
qed

section \<open>Waiting for the log\<close>



end
