(* ===== verification/Inode_Spec.thy ===== *)
theory Inode_Spec
  imports Inode Log_Spec
begin

text \<open>
  Lemmas about the inode cache of \<^verbatim>\<open>inode.c\<close>: its invariant, the scan of \<^verbatim>\<open>inode_get\<close>, and that an inode is
  cached in one entry only.
\<close>

unbundle bit_operations_syntax

text \<open>Reference counts are not about to overflow, and an inode is cached at most once.\<close>

definition is_cached :: "(u32 \<Rightarrow> inode) \<Rightarrow> u32 \<Rightarrow> u32 \<Rightarrow> u32 \<Rightarrow> bool" where
  "is_cached I dev i ip \<longleftrightarrow> ip < NINODE \<and> iref (I ip) \<noteq> 0 \<and> idev (I ip) = dev \<and> inum (I ip) = i"

definition icache_ok :: "(u32 \<Rightarrow> inode) \<Rightarrow> bool" where
  "icache_ok I \<longleftrightarrow> (\<forall>ip<NINODE. iref (I ip) \<le> 0x7fffffff) \<and>
     (\<forall>dev i ip jp. is_cached I dev i ip \<longrightarrow> is_cached I dev i jp \<longrightarrow> ip = jp)"

lemma positive_ref: "icache_ok I \<Longrightarrow> ip < NINODE \<Longrightarrow> (0 <s iref (I ip)) = (iref (I ip) \<noteq> 0)"
  using sint_small [of "iref (I ip)"] by (auto simp: icache_ok_def word_sless_alt word_le_nat_alt word_neq_0_conv word_less_def)

definition scan_result :: "(u32 \<Rightarrow> inode) \<Rightarrow> u32 \<Rightarrow> u32 \<Rightarrow> u32 \<Rightarrow> u32 option \<times> u32 option \<Rightarrow> bool" where
  "scan_result I dev i j r \<longleftrightarrow> (case fst r of Some ip \<Rightarrow> is_cached I dev i ip
     | None \<Rightarrow> (\<forall>k<j. \<not> is_cached I dev i k) \<and>
         (case snd r of Some k \<Rightarrow> k < NINODE \<and> iref (I k) = 0 | None \<Rightarrow> \<forall>k<j. iref (I k) \<noteq> 0))"

lemma inode_scan_wp:
  assumes ok: "icache_ok (inodes s)"
  shows "kwp (inode_scan dev i) (\<lambda>r t. t = s \<and> scan_result (inodes s) dev i NINODE r) s"
  unfolding inode_scan_def
proof (rule kwp_kfold [where I = "\<lambda>j r t. t = s \<and> scan_result (inodes s) dev i j r"])
  fix j :: u32 and r and t
  assume j: "j < NINODE" and t: "t = s \<and> scan_result (inodes s) dev i j r"
  have lt: "k < j + 1 \<longleftrightarrow> k < j \<or> k = j" for k using unat_inc [OF j] by (auto simp: word_less_nat_alt word_unat_eq_iff)
  obtain f e where r: "r = (f, e)" by (cases r)
  show "kwp ((\<lambda>(found, empty). if found \<noteq> None then kreturn (found, empty)
     else kbind (ino_get j) (\<lambda>x.
       if 0 <s iref x \<and> idev x = dev \<and> inum x = i then kreturn (Some j, empty)
       else if empty = None \<and> iref x = 0 then kreturn (None, Some j)
       else kreturn (None, empty))) r) (\<lambda>r' t'. t' = s \<and> scan_result (inodes s) dev i (j + 1) r') t"
    using t j positive_ref [OF ok j]
    by (cases f; cases e) (auto simp: r wp scan_result_def is_cached_def lt)
qed (simp_all add: scan_result_def)

lemma icache_ok_upd:
  assumes ok: "icache_ok I" and ip: "ip < NINODE" and x: "iref x \<le> 0x7fffffff"
    and new: "\<And>jp. jp \<noteq> ip \<Longrightarrow> iref x \<noteq> 0 \<Longrightarrow> \<not> is_cached I (idev x) (inum x) jp"
  shows "icache_ok (I(ip := x))"
proof -
  have "is_cached (I(ip := x)) dev i a = (if a = ip then iref x \<noteq> 0 \<and> idev x = dev \<and> inum x = i else is_cached I dev i a)" for dev i a
    using ip by (simp add: is_cached_def)
  then show ?thesis using ok x new unfolding icache_ok_def by (auto split: if_splits)
qed

text \<open>
  C16: \<^verbatim>\<open>inode_get\<close> keeps every inode cached at most once. If the inode is in the cache, the entry it
  has there is returned with one more reference and otherwise unchanged, so that all holders share it;
  if not, an unused entry is set up for it with one reference and marked as not read yet. No other entry
  changes. When every entry is in use by other inodes the kernel panics.
\<close>

theorem inode_get_unique:
  assumes ok: "icache_ok (inodes s)" and ref: "\<forall>ip<NINODE. iref (inodes s ip) < 0x7fffffff"
    and lk: "lock_free (icache_lk s)" "ks_magic s = KSTACK_MAGIC"
  shows "if (\<exists>ip. is_cached (inodes s) dev i ip) \<or> (\<exists>ip<NINODE. iref (inodes s ip) = 0)
    then \<exists>ip x. inode_get dev i s = Inr (ip, s\<lparr>inodes := (inodes s)(ip := x)\<rparr>) \<and>
       icache_ok ((inodes s)(ip := x)) \<and> is_cached ((inodes s)(ip := x)) dev i ip \<and>
       (if \<exists>jp. is_cached (inodes s) dev i jp then is_cached (inodes s) dev i ip \<and> x = (inodes s ip)\<lparr>iref := iref (inodes s ip) + 1\<rparr>
        else iref (inodes s ip) = 0 \<and> x = (inodes s ip)\<lparr>idev := dev, inum := i, iref := 1, iflags := 0\<rparr>)
    else inode_get dev i s = Inl (Panic ''inode_get: no inodes'')"
proof -
  let ?s = "s\<lparr>icache_lk := lock_by (ks_cpu_idx s)\<rparr>"
  have re: "s\<lparr>icache_lk := spinlock_init, inodes := J\<rparr> = s\<lparr>inodes := J\<rparr>" for J using lk(1) by simp
  obtain f e where sc: "inode_scan dev i ?s = Inr ((f, e), ?s)" "scan_result (inodes s) dev i NINODE (f, e)"
    using inode_scan_wp [of ?s dev i] ok by (auto elim!: kwpE)
  have scan: "kwp (inode_scan dev i) Q ?s = Q (f, e) ?s" for Q
    using kwp_Inr [where m = "inode_scan dev i" and s = ?s] sc(1) by blast
  have acq: "icache_acquire s = Inr ((), ?s)"
    using kwp_icache_acquire [of "\<lambda>_ t. t = ?s" s] lk by (auto elim!: kwpE)
  show ?thesis
  proof (cases f)
    case (Some ip)
    let ?x = "(inodes s ip)\<lparr>iref := iref (inodes s ip) + 1\<rparr>"
    have c: "is_cached (inodes s) dev i ip" using sc(2) Some by (simp add: scan_result_def)
    then have ip: "ip < NINODE" by (simp add: is_cached_def)
    have u: "unat (iref (inodes s ip) + 1) = unat (iref (inodes s ip)) + 1" "unat (iref (inodes s ip)) < 0x7fffffff"
      using ref ip unat_inc [of "iref (inodes s ip)" "0x7fffffff"] by (simp_all add: word_less_nat_alt)
    then have x: "iref ?x \<le> 0x7fffffff" "iref ?x \<noteq> 0" by (simp_all add: word_le_nat_alt word_unat_eq_iff)
    have "kwp (inode_get dev i) (\<lambda>r t. r = ip \<and> t = s\<lparr>inodes := (inodes s)(ip := ?x)\<rparr>) s"
      unfolding inode_get_def using lk Some ip by (simp add: wp scan re)
    then have run: "inode_get dev i s = Inr (ip, s\<lparr>inodes := (inodes s)(ip := ?x)\<rparr>)" by (rule kwpE) simp
    have "icache_ok ((inodes s)(ip := ?x))"
    proof (rule icache_ok_upd [OF ok ip x(1)])
      fix jp assume jp: "jp \<noteq> ip"
      have e: "idev ?x = dev" "inum ?x = i" using c by (simp_all add: is_cached_def)
      show "\<not> is_cached (inodes s) (idev ?x) (inum ?x) jp"
        unfolding e using jp c ok unfolding icache_ok_def by blast
    qed
    moreover have "is_cached ((inodes s)(ip := ?x)) dev i ip" using c x(2) by (simp add: is_cached_def)
    ultimately show ?thesis using run c by auto
  next
    case None
    have nc: "\<not> is_cached (inodes s) dev i k" for k using sc(2) None by (auto simp: scan_result_def is_cached_def)
    show ?thesis
    proof (cases e)
      case (Some ip)
      let ?x = "(inodes s ip)\<lparr>idev := dev, inum := i, iref := 1, iflags := 0\<rparr>"
      have ip: "ip < NINODE" "iref (inodes s ip) = 0" using sc(2) None Some by (auto simp: scan_result_def)
      have "kwp (inode_get dev i) (\<lambda>r t. r = ip \<and> t = s\<lparr>inodes := (inodes s)(ip := ?x)\<rparr>) s"
        unfolding inode_get_def using lk None Some ip by (simp add: wp scan re)
      then have run: "inode_get dev i s = Inr (ip, s\<lparr>inodes := (inodes s)(ip := ?x)\<rparr>)" by (rule kwpE) simp
      have "icache_ok ((inodes s)(ip := ?x))" using nc by (intro icache_ok_upd [OF ok ip(1)]) simp_all
      moreover have "is_cached ((inodes s)(ip := ?x)) dev i ip" using ip by (simp add: is_cached_def)
      ultimately show ?thesis using run nc ip by auto
    next
      case e: None
      then have "\<forall>k<NINODE. iref (inodes s k) \<noteq> 0" using sc(2) None by (simp add: scan_result_def)
      moreover have "inode_get dev i s = Inl (Panic ''inode_get: no inodes'')"
        unfolding inode_get_def using acq sc(1) None e by (simp add: krun kthen_def kfail_def)
      ultimately show ?thesis using nc by auto
    qed
  qed
qed

text \<open>Inode 7 of the root drive is cached in entry 3, with two references.\<close>

definition ino_demo :: fs_ino where
  "ino_demo = fs_log.extend log_demo
     \<lparr>icache_lk = spinlock_init,
      inodes = (\<lambda>ip. \<lparr>idev = 1, inum = 7, iref = (if ip = 3 then 2 else 0), iflags = 2, itype = 2, imajor = 0, iminor = 0,
         inlink = 1, isize = 600, iaddrs = (\<lambda>k. 60 + k)\<rparr>)\<rparr>"

theorem inode_get_unique_witness:
  "\<exists>x. inode_get 1 7 ino_demo = Inr (3, ino_demo\<lparr>inodes := (inodes ino_demo)(3 := x)\<rparr>) \<and> iref x = 3"
proof -
  have n: "iref (inodes ino_demo ip) = (if ip = 3 then 2 else 0)" "idev (inodes ino_demo ip) = 1" "inum (inodes ino_demo ip) = 7" for ip
    by (simp_all add: ino_demo_def fs_log.defs)
  have c: "is_cached (inodes ino_demo) dev i ip \<longleftrightarrow> ip = 3 \<and> dev = 1 \<and> i = 7" for dev i ip
    by (auto simp: is_cached_def n)
  have lk: "lock_free (icache_lk ino_demo)" "ks_magic ino_demo = KSTACK_MAGIC"
    using calmD [of log_demo] log_demo_ok(1) [of "disk log_demo"]
    by (simp_all add: ino_demo_def fs_log.defs quiet_def bc_ok_def drive_ok_def)
  have "icache_ok (inodes ino_demo)" "\<forall>ip<NINODE. iref (inodes ino_demo ip) < 0x7fffffff" by (simp_all add: icache_ok_def c n)
  note get = inode_get_unique [OF this lk, of 1 7]
  have ex: "\<exists>jp. is_cached (inodes ino_demo) 1 7 jp" using c by blast
  obtain ip x where x: "inode_get 1 7 ino_demo = Inr (ip, ino_demo\<lparr>inodes := (inodes ino_demo)(ip := x)\<rparr>)"
      "is_cached (inodes ino_demo) 1 7 ip" "x = (inodes ino_demo ip)\<lparr>iref := iref (inodes ino_demo ip) + 1\<rparr>"
    using get unfolding if_P [OF ex] if_P [OF disjI1 [OF ex]] by blast
  then have "ip = 3" using c by blast
  then show ?thesis using x(1) x(3) n(1) [of 3] by (intro exI [of _ x]) simp
qed


end
