(* ===== verification/Console.thy ===== *)
theory Console
  imports SpinLock
begin

text \<open>
  The console (kern/dev/console.c) with its devices: the text display (kern/dev/video.c), the serial
  line (kern/dev/serial.c) and the keyboard (kern/dev/keyboard.c).

  The display memory is an array of 16-bit cells, and a store outside the screen is a fault. Bytes
  written to ports are appended to \<open>port_out\<close>. What a device still has to deliver is a list: the
  scan codes waiting in the keyboard controller and the bytes waiting in the serial line. Polling
  loops that only read a status port change nothing and are left out, as is the memory probe that
  tells a colour from a monochrome adapter.
\<close>

unbundle bit_operations_syntax

abbreviation (input) CRT_COLS :: u16 where "CRT_COLS \<equiv> 80"
abbreviation (input) CRT_SIZE :: u16 where "CRT_SIZE \<equiv> 2000"
abbreviation (input) CONSOLE_BUFFER_SIZE :: u32 where "CONSOLE_BUFFER_SIZE \<equiv> 512"
abbreviation (input) COM1 :: u32 where "COM1 \<equiv> 0x3F8"

record con_state = cpu_state +
  crt_buf :: "u16 \<Rightarrow> u16"
  crt_pos :: u16
  addr_6845 :: u32
  con_port :: "(u32 \<times> u8) list"
  serial_exists :: bool
  com_in :: "u8 list"
  kbd_in :: "u8 list"
  kbd_shift :: u32
  cons_lk :: spinlock_t
  cons_buf :: "u32 \<Rightarrow> u8"
  rpos :: u32
  wpos :: u32

definition con_outb :: "u32 \<Rightarrow> u8 \<Rightarrow> ('a con_state_scheme, unit) kprog" where
  "con_outb p v = kmodify (\<lambda>s. s\<lparr>con_port := con_port s @ [(p, v)]\<rparr>)"

section \<open>video.c\<close>

definition crt_store :: "u16 \<Rightarrow> u16 \<Rightarrow> ('a con_state_scheme, unit) kprog" where
  "crt_store i v = kthen (kassert (i < CRT_SIZE) (Fault ''crt_buf''))
     (kmodify (\<lambda>s. s\<lparr>crt_buf := (crt_buf s)(i := v)\<rparr>))"

text \<open>The switch of \<^verbatim>\<open>video_putc\<close> for a character that has an attribute and is not a tabulator.\<close>

definition video_char :: "u16 \<Rightarrow> ('a con_state_scheme, unit) kprog" where
  "video_char c =
     kbind (kgets crt_pos) (\<lambda>p.
     if c AND 0xff = 8 then
       kwhen (0 < p) (kthen (kmodify (\<lambda>s. s\<lparr>crt_pos := p - 1\<rparr>)) (crt_store (p - 1) ((c AND NOT 0xff) OR 0x20)))
     else if c AND 0xff = 10 then
       kmodify (\<lambda>s. s\<lparr>crt_pos := (p + CRT_COLS) - (p + CRT_COLS) mod CRT_COLS\<rparr>)
     else if c AND 0xff = 13 then
       kmodify (\<lambda>s. s\<lparr>crt_pos := p - p mod CRT_COLS\<rparr>)
     else kthen (crt_store p c) (kmodify (\<lambda>s. s\<lparr>crt_pos := p + 1\<rparr>)))"

text \<open>The end of \<^verbatim>\<open>video_putc\<close>: scroll when the cursor has left the screen, and move the cursor.\<close>

definition video_scroll :: "('a con_state_scheme, unit) kprog" where
  "video_scroll =
     kbind (kgets crt_pos) (\<lambda>p.
     kwhen (CRT_SIZE \<le> p)
       (kmodify (\<lambda>s. s\<lparr>crt_buf := (\<lambda>i. if i < CRT_SIZE - CRT_COLS then crt_buf s (i + CRT_COLS)
                                     else if i < CRT_SIZE then 0x0720 else crt_buf s i),
          crt_pos := p - CRT_COLS\<rparr>)))"

definition video_cursor :: "('a con_state_scheme, unit) kprog" where
  "video_cursor =
     kbind (kgets addr_6845) (\<lambda>a.
     kbind (kgets crt_pos) (\<lambda>p.
     kthen (con_outb a 14)
     (kthen (con_outb (a + 1) (ucast (drop_bit 8 p)))
     (kthen (con_outb a 15)
            (con_outb (a + 1) (ucast p))))))"

definition video_put1 :: "u16 \<Rightarrow> ('a con_state_scheme, unit) kprog" where
  "video_put1 c = kthen (video_char c) (kthen video_scroll video_cursor)"

definition video_putc :: "u16 \<Rightarrow> ('a con_state_scheme, unit) kprog" where
  "video_putc c0 =
     (let c = (if c0 AND NOT 0xff = 0 then c0 OR 0x0700 else c0) in
      if c AND 0xff = 9
      then kthen (krepeat 5 (video_put1 0x0720)) (kthen video_scroll video_cursor)
      else video_put1 c)"

text \<open>
  \<open>cga\<close> tells whether the word written to the colour buffer was read back, \<open>monobuf\<close> is the content of the
  monochrome buffer, \<open>hi\<close> and \<open>lo\<close> are the cursor registers.
\<close>

definition video_init :: "bool \<Rightarrow> (u16 \<Rightarrow> u16) \<Rightarrow> u8 \<Rightarrow> u8 \<Rightarrow> ('a con_state_scheme, unit) kprog" where
  "video_init cga monobuf hi lo =
     (let a = (if cga then 0x3D4 else 0x3B4) in
      kthen (kmodify (\<lambda>s. s\<lparr>addr_6845 := a\<rparr>))
      (kthen (con_outb a 14)
      (kthen (con_outb a 15)
      (kmodify (\<lambda>s. s\<lparr>crt_buf := (if cga then crt_buf s else monobuf), crt_pos := push_bit 8 (ucast hi) OR ucast lo\<rparr>)))))"

definition video_set_cursor :: "u16 \<Rightarrow> u16 \<Rightarrow> ('a con_state_scheme, unit) kprog" where
  "video_set_cursor x y = kmodify (\<lambda>s. s\<lparr>crt_pos := x * CRT_COLS + y\<rparr>)"

definition video_clear_screen :: "('a con_state_scheme, unit) kprog" where
  "video_clear_screen = kmodify (\<lambda>s. s\<lparr>crt_buf := (\<lambda>i. if i < CRT_SIZE then 0x20 else crt_buf s i)\<rparr>)"

section \<open>serial.c\<close>

definition serial_proc_data :: "u8 \<Rightarrow> ('a con_state_scheme, u8) kprog" where
  "serial_proc_data d = kreturn d"

definition serial_reformatnewline :: "u8 \<Rightarrow> u32 \<Rightarrow> ('a con_state_scheme, bool) kprog" where
  "serial_reformatnewline c p =
     (if c = 10 then kthen (con_outb p 13) (kthen (con_outb p 10) (kreturn True)) else kreturn False)"

definition serial_putc :: "u8 \<Rightarrow> ('a con_state_scheme, unit) kprog" where
  "serial_putc c =
     kbind (kgets serial_exists) (\<lambda>e.
     kwhen e (kbind (serial_reformatnewline c COM1) (\<lambda>r. kwhen (\<not> r) (con_outb COM1 c))))"

text \<open>\<open>lsr\<close> is what the line status register returns.\<close>

definition serial_init :: "u8 \<Rightarrow> ('a con_state_scheme, unit) kprog" where
  "serial_init lsr =
     kthen (con_outb (COM1 + 1) 0)
     (kthen (con_outb (COM1 + 3) 0x80)
     (kthen (con_outb COM1 1)
     (kthen (con_outb (COM1 + 1) 0)
     (kthen (con_outb (COM1 + 3) 3)
     (kthen (con_outb (COM1 + 2) 0xc7)
     (kthen (con_outb (COM1 + 4) 0x0b)
            (kmodify (\<lambda>s. s\<lparr>serial_exists := (lsr \<noteq> 0xFF)\<rparr>))))))))"

section \<open>console.c\<close>

definition cons_init :: "u8 \<Rightarrow> ('a con_state_scheme, unit) kprog \<Rightarrow> ('a con_state_scheme, unit) kprog" where
  "cons_init lsr video =
     kthen (kmodify (\<lambda>s. s\<lparr>cons_buf := (\<lambda>i. if i < CONSOLE_BUFFER_SIZE then 0 else cons_buf s i), rpos := 0, wpos := 0\<rparr>))
     (kthen (serial_init lsr)
     (kthen video
            (kmodify (\<lambda>s. s\<lparr>cons_lk := spinlock_init\<rparr>))))"

definition cons_acquire :: "('a con_state_scheme, unit) kprog" where
  "cons_acquire = spinlock_acquire cons_lk cons_lk_update"

definition cons_release :: "('a con_state_scheme, unit) kprog" where
  "cons_release = spinlock_release cons_lk cons_lk_update"

definition cons_store :: "u8 \<Rightarrow> ('a con_state_scheme, unit) kprog" where
  "cons_store c =
     kbind (kgets wpos) (\<lambda>w.
     kthen (kassert (w < CONSOLE_BUFFER_SIZE) (Fault ''cons.buf''))
     (kthen (kmodify (\<lambda>s. s\<lparr>cons_buf := (cons_buf s)(w := c), wpos := w + 1\<rparr>))
            (kwhen (w + 1 = CONSOLE_BUFFER_SIZE) (kmodify (\<lambda>s. s\<lparr>wpos := 0\<rparr>)))))"

text \<open>The loop runs \<^verbatim>\<open>proc\<close> on everything the device has; a result of zero is no character.\<close>

fun cons_loop :: "(u8 \<Rightarrow> ('a con_state_scheme, u8) kprog) \<Rightarrow> u8 list \<Rightarrow> ('a con_state_scheme, unit) kprog" where
  "cons_loop proc [] = kreturn ()"
| "cons_loop proc (d # ds) =
     kbind (proc d) (\<lambda>c. kthen (kwhen (c \<noteq> 0) (cons_store c)) (cons_loop proc ds))"

definition cons_intr :: "(u8 \<Rightarrow> ('a con_state_scheme, u8) kprog) \<Rightarrow> u8 list \<Rightarrow> ('a con_state_scheme, unit) kprog" where
  "cons_intr proc input = kthen cons_acquire (kthen (cons_loop proc input) cons_release)"

definition serial_intr :: "('a con_state_scheme, unit) kprog" where
  "serial_intr =
     kbind (kgets serial_exists) (\<lambda>e.
     kwhen e (kbind (kgets com_in) (\<lambda>ds.
       kthen (kmodify (\<lambda>s. s\<lparr>com_in := []\<rparr>)) (cons_intr serial_proc_data ds))))"

definition serial_intenable :: "('a con_state_scheme, unit) kprog" where
  "serial_intenable =
     kbind (kgets serial_exists) (\<lambda>e. kwhen e (kthen (con_outb (COM1 + 1) 1) serial_intr))"

definition cons_putc :: "u8 \<Rightarrow> ('a con_state_scheme, unit) kprog" where
  "cons_putc c = kthen (serial_putc c) (video_putc (scast c))"

section \<open>keyboard.c\<close>

definition str :: "string \<Rightarrow> u8 list" where
  "str w = map (\<lambda>c. of_nat (of_char c)) w"

definition ctl :: "string \<Rightarrow> u8 list" where
  "ctl w = map (\<lambda>c. of_nat (of_char c) - 64) w"

text \<open>An initialised table: the listed entries from 0 on, then the designated ones; the rest is zero.\<close>

definition tab :: "u8 list \<Rightarrow> (u8 \<times> u8) list \<Rightarrow> u8 \<Rightarrow> u8" where
  "tab xs ds d = (case map_of ds d of Some v \<Rightarrow> v | None \<Rightarrow> if unat d < length xs then xs ! unat d else 0)"

definition shiftcode :: "u8 \<Rightarrow> u8" where
  "shiftcode = tab [] [(0x1D, 2), (0x2A, 1), (0x36, 1), (0x38, 4), (0x9D, 2), (0xB8, 4)]"

definition togglecode :: "u8 \<Rightarrow> u8" where
  "togglecode = tab [] [(0x3A, 8), (0x45, 16), (0x46, 32)]"

definition keypad :: "u8 list" where
  "keypad = str ''789-456+1230.''"

definition normalmap :: "u8 \<Rightarrow> u8" where
  "normalmap = tab
     ([0, 0x1B] @ str ''1234567890-='' @ [8, 9] @ str ''qwertyuiop[]'' @ [10, 0] @ str ''asdfghjkl;'' @ [39, 96, 0, 92]
      @ str ''zxcvbnm,./'' @ [0, 42, 0, 32] @ replicate 13 0 @ keypad)
     [(0xC7, 0xE0), (0x9C, 10), (0xB5, 47), (0xC8, 0xE2), (0xC9, 0xE6), (0xCB, 0xE4), (0xCD, 0xE5), (0xCF, 0xE1),
      (0xD0, 0xE3), (0xD1, 0xE7), (0xD2, 0xE8), (0xD3, 0xE9)]"

definition shiftmap :: "u8 \<Rightarrow> u8" where
  "shiftmap = tab
     ([0, 0x1B] @ str ''!@#$%^&*()_+'' @ [8, 9] @ str ''QWERTYUIOP{}'' @ [10, 0] @ str ''ASDFGHJKL:'' @ [34, 126, 0, 124]
      @ str ''ZXCVBNM<>?'' @ [0, 42, 0, 32] @ replicate 13 0 @ keypad)
     [(0xC7, 0xE0), (0x9C, 10), (0xB5, 47), (0xC8, 0xE2), (0xC9, 0xE6), (0xCB, 0xE4), (0xCD, 0xE5), (0xCF, 0xE1),
      (0xD0, 0xE3), (0xD1, 0xE7), (0xD2, 0xE8), (0xD3, 0xE9)]"

definition ctlmap :: "u8 \<Rightarrow> u8" where
  "ctlmap = tab
     (replicate 16 0 @ ctl ''QWERTYUIOP'' @ [0, 0, 13, 0] @ ctl ''ASDFGHJKL'' @ [0, 0, 0, 0, 28] @ ctl ''ZXCVBNM'' @ [0, 0, 239])
     [(0x97, 0xE0), (0xB5, 239), (0xC8, 0xE2), (0xC9, 0xE6), (0xCB, 0xE4), (0xCD, 0xE5), (0xCF, 0xE1),
      (0xD0, 0xE3), (0xD1, 0xE7), (0xD2, 0xE8), (0xD3, 0xE9)]"

definition charcode :: "u32 \<Rightarrow> u8 \<Rightarrow> u8" where
  "charcode k = (if k = 0 then normalmap else if k = 1 then shiftmap else ctlmap)"

definition capitalise :: "u8 \<Rightarrow> u8" where
  "capitalise c = (if 0x61 \<le> c \<and> c \<le> 0x7a then c - 32 else if 0x41 \<le> c \<and> c \<le> 0x5a then c + 32 else c)"

text \<open>One scan code. Ctrl-Alt-Del writes the reset port; \<^verbatim>\<open>SHIFT\<close>, \<^verbatim>\<open>CTL\<close>, \<^verbatim>\<open>ALT\<close>, \<^verbatim>\<open>CAPSLOCK\<close> and \<^verbatim>\<open>E0ESC\<close> are bits 0, 1, 2, 3 and 6.\<close>

definition kbd_proc_data :: "u8 \<Rightarrow> ('a con_state_scheme, u8) kprog" where
  "kbd_proc_data data =
     kbind (kgets kbd_shift) (\<lambda>shift.
     if data = 0xE0 then kthen (kmodify (\<lambda>s. s\<lparr>kbd_shift := shift OR 0x40\<rparr>)) (kreturn 0)
     else if data AND 0x80 \<noteq> 0 then
       let data = (if shift AND 0x40 \<noteq> 0 then data else data AND 0x7F)
       in kthen (kmodify (\<lambda>s. s\<lparr>kbd_shift := shift AND NOT (ucast (shiftcode data) OR 0x40)\<rparr>)) (kreturn 0)
     else
       let data = (if shift AND 0x40 \<noteq> 0 then data OR 0x80 else data);
           shift = (if shift AND 0x40 \<noteq> 0 then shift AND NOT 0x40 else shift);
           shift = (shift OR ucast (shiftcode data)) XOR ucast (togglecode data);
           c = charcode (shift AND 3) data;
           c = (if shift AND 8 \<noteq> 0 then capitalise c else c)
       in kthen (kmodify (\<lambda>s. s\<lparr>kbd_shift := shift\<rparr>))
          (kthen (kwhen (NOT shift AND 6 = 0 \<and> c = 0xE9) (con_outb 0x92 3)) (kreturn c)))"

definition keyboard_intr :: "('a con_state_scheme, unit) kprog" where
  "keyboard_intr = kbind (kgets kbd_in) (\<lambda>ds.
     kthen (kmodify (\<lambda>s. s\<lparr>kbd_in := []\<rparr>)) (cons_intr kbd_proc_data ds))"

section \<open>Reading\<close>

definition cons_getc :: "('a con_state_scheme, u8) kprog" where
  "cons_getc =
     kthen serial_intr
     (kthen keyboard_intr
     (kthen cons_acquire
     (kbind (kgets rpos) (\<lambda>r.
     kbind (kgets wpos) (\<lambda>w.
     if r \<noteq> w then
       kthen (kassert (r < CONSOLE_BUFFER_SIZE) (Fault ''cons.buf''))
       (kbind (kgets (\<lambda>s. cons_buf s r)) (\<lambda>c.
        kthen (kmodify (\<lambda>s. s\<lparr>rpos := r + 1\<rparr>))
        (kthen (kwhen (r + 1 = CONSOLE_BUFFER_SIZE) (kmodify (\<lambda>s. s\<lparr>rpos := 0\<rparr>)))
        (kthen cons_release (kreturn c)))))
     else kthen cons_release (kreturn 0))))))"

text \<open>
  \<^verbatim>\<open>readline\<close> on the characters \<^verbatim>\<open>getchar\<close> returns, in order. The result is the line, or \<open>None\<close> for a null
  pointer, with the characters not read yet; running out of characters leaves it waiting.
\<close>

fun readline_loop :: "u8 list \<Rightarrow> u8 list \<Rightarrow> ('a con_state_scheme, u8 list option \<times> u8 list) kprog" where
  "readline_loop line [] = kfail (Asleep ''getchar'')"
| "readline_loop line (c # cs) =
     (if c <s 0 then kreturn (None, cs)
      else if (c = 8 \<or> c = 0x7f) \<and> line \<noteq> [] then kthen (cons_putc 8) (readline_loop (butlast line) cs)
      else if \<not> c <s 0x20 \<and> length line < 1023 then kthen (cons_putc c) (readline_loop (line @ [c]) cs)
      else if c = 10 \<or> c = 13 then kthen (cons_putc 10) (kreturn (Some line, cs))
      else readline_loop line cs)"

section \<open>The cursor stays on the screen\<close>

lemma kwp_con_outb [wp]: "kwp (con_outb p v) Q s = Q () (s\<lparr>con_port := con_port s @ [(p, v)]\<rparr>)"
  by (simp add: con_outb_def wp)

lemma kwp_crt_store [wp]: "kwp (crt_store i v) Q s = (i < CRT_SIZE \<and> Q () (s\<lparr>crt_buf := (crt_buf s)(i := v)\<rparr>))"
  by (simp add: crt_store_def wp)

lemma line_start: "unat p < 2080 \<Longrightarrow> unat (p - p mod CRT_COLS) = unat p - unat p mod 80" for p :: u16
  by (simp add: unat_sub word_le_nat_alt unat_mod)

lemma video_char_wp:
  assumes "crt_pos s < CRT_SIZE"
  shows "kwp (video_char c) (\<lambda>_ t. unat (crt_pos t) < 2080) s"
proof -
  have p: "unat (crt_pos s) < 2000" using assms by (simp add: word_less_nat_alt)
  have n: "unat (crt_pos s + CRT_COLS) = unat (crt_pos s) + 80" "unat (crt_pos s + 1) = unat (crt_pos s) + 1"
    using p by (simp_all add: unat_plus_if')
  have l: "unat (crt_pos s + CRT_COLS - (crt_pos s + CRT_COLS) mod CRT_COLS) < 2080"
    using line_start [of "crt_pos s + CRT_COLS"] n p by simp
  have m: "unat (crt_pos s - crt_pos s mod CRT_COLS) < 2080" using line_start [of "crt_pos s"] p by simp
  have b: "crt_pos s - 1 < CRT_SIZE \<and> unat (crt_pos s - 1) < 2080" if "0 < crt_pos s"
    using that p unat_sub [of 1 "crt_pos s"] by (auto simp: word_less_nat_alt word_le_nat_alt)
  show ?thesis unfolding video_char_def using p n l m b assms by (simp add: wp kwhen_def)
qed

lemma video_put1_wp:
  assumes "crt_pos s < CRT_SIZE"
  shows "kwp (video_put1 c) (\<lambda>_ t. crt_pos t < CRT_SIZE) s"
proof -
  have "kwp (kthen video_scroll video_cursor) (\<lambda>_ t. crt_pos t < CRT_SIZE) u" if "unat (crt_pos u) < 2080" for u :: "'a con_state_scheme"
    using that by (auto simp: video_scroll_def video_cursor_def wp kwhen_def word_less_nat_alt word_le_nat_alt unat_sub)
  then show ?thesis unfolding video_put1_def by (intro kwp_kthenI [OF video_char_wp [OF assms]])
qed

lemma krepeat_inv: "(\<And>s. P s \<Longrightarrow> kwp m (\<lambda>_ t. P t) s) \<Longrightarrow> P s \<Longrightarrow> kwp (krepeat n m) (\<lambda>_ t. P t) s"
proof (induction n arbitrary: s)
  case (Suc n)
  have "kwp (kbind (krepeat n m) (\<lambda>rs. kreturn (r # rs))) (\<lambda>_ t. P t) t" if "P t" for r t
    by (rule kwp_kbindI [OF Suc.IH [OF Suc.prems(1) that]]) (simp_all add: kwp_kreturn)
  then show ?case unfolding krepeat.simps by (rule kwp_kbindI [OF Suc.prems(1) [OF Suc.prems(2)]])
qed (simp add: kwp_kreturn)


definition console_demo :: con_state where
  "console_demo = cpu_state.extend (cpu_demo 0)
     \<lparr>crt_buf = (\<lambda>_. 0x720), crt_pos = 1999, addr_6845 = 0x3D4, con_port = [], serial_exists = True, com_in = [], kbd_in = [],
      kbd_shift = 0, cons_lk = spinlock_init, cons_buf = (\<lambda>_. 0), rpos = 0, wpos = 0\<rparr>"


end
