(* ===== verification/Intr.thy ===== *)
theory Intr
  imports Sysfile
begin

text \<open>
  The interrupt controllers and the interrupt descriptor table: kern/dev/pic.c, kern/dev/ioapic.c,
  kern/dev/lapic.c, kern/dev/intr.c, kern/dev/timer.c, the drivers kern/dev/disk/picirq.c and
  kern/dev/disk/ioapic.c of the disk, and \<^verbatim>\<open>ide_init\<close> of kern/dev/disk/ide.c.

  Bytes written to ports are appended to \<open>port_out\<close> and words written to the local APIC to
  \<open>lapic_out\<close>, in order. The registers of an IOAPIC hold what is written to them. What the hardware
  decides (the version of the local APIC, the outcome of the timer calibration, the ids of the
  CPUs) are fields of the state or arguments. The addresses of the assembly entry points of
  kern/dev/idt.S are given by the function \<open>entry\<close>.
\<close>

unbundle bit_operations_syntax

abbreviation (input) T_IRQ0 :: u32 where "T_IRQ0 \<equiv> 32"
abbreviation (input) IRQ_TIMER :: u32 where "IRQ_TIMER \<equiv> 0"
abbreviation (input) IRQ_KBD :: u32 where "IRQ_KBD \<equiv> 1"
abbreviation (input) IRQ_SLAVE :: nat where "IRQ_SLAVE \<equiv> 2"
abbreviation (input) IRQ_SERIAL13 :: u32 where "IRQ_SERIAL13 \<equiv> 4"
abbreviation (input) IRQ_SPURIOUS :: u32 where "IRQ_SPURIOUS \<equiv> 7"
abbreviation (input) IRQ_IDE1 :: u32 where "IRQ_IDE1 \<equiv> 14"
abbreviation (input) IRQ_IDE2 :: u32 where "IRQ_IDE2 \<equiv> 15"
abbreviation (input) MAX_IOAPIC :: u32 where "MAX_IOAPIC \<equiv> 16"
abbreviation (input) IOAPIC_ID :: u32 where "IOAPIC_ID \<equiv> 0"
abbreviation (input) IOAPIC_VER :: u32 where "IOAPIC_VER \<equiv> 1"
abbreviation (input) IOAPIC_TABLE :: u32 where "IOAPIC_TABLE \<equiv> 0x10"
abbreviation (input) IOAPIC_INT_DISABLED :: u32 where "IOAPIC_INT_DISABLED \<equiv> 0x10000"

record gatedesc =
  gd_off_15_0 :: u16
  gd_ss :: u16
  gd_args :: "5 word"
  gd_rsv1 :: "3 word"
  gd_type :: "4 word"
  gd_s :: bool
  gd_dpl :: "2 word"
  gd_p :: bool
  gd_off_31_16 :: u16

record hw = fs_sys +
  port_out :: "(u32 \<times> u8) list"
  pic_inited :: bool
  irqmask :: u16
  disk_irqmask :: u16
  ioapic_num :: u32
  ioapics :: "u32 \<Rightarrow> u32"
  ioapicid :: "u32 \<Rightarrow> u8"
  gsi :: "u32 \<Rightarrow> u32"
  ioapic_reg :: "u32 \<Rightarrow> u32 \<Rightarrow> u32"
  disk_ioapic :: u32
  lapic :: bool
  lapic_in :: "u32 \<Rightarrow> u32"
  lapic_out :: "(u32 \<times> u32) list"
  using_apic :: bool
  intr_inited :: bool
  ncpu :: u32
  lapicid :: "u32 \<Rightarrow> u8"
  onboot :: bool
  intr_flag :: bool
  idt :: "u32 \<Rightarrow> gatedesc"
  idt_loaded :: bool

section \<open>pic.c and timer.c\<close>

definition port_outb :: "u32 \<Rightarrow> u8 \<Rightarrow> ('a hw_scheme, unit) kprog" where
  "port_outb p v = kmodify (\<lambda>s. s\<lparr>port_out := port_out s @ [(p, v)]\<rparr>)"

definition port_outs :: "(u32 \<times> u8) list \<Rightarrow> ('a hw_scheme, unit) kprog" where
  "port_outs ps = fold (\<lambda>(p, v) m. kthen m (port_outb p v)) ps (kreturn ())"

text \<open>The command words, in the order of the code: the two controllers are at 0x20 and 0xA0.\<close>

definition pic_init :: "('a hw_scheme, unit) kprog" where
  "pic_init =
     kbind (kgets pic_inited) (\<lambda>i.
     kwhen (\<not> i)
       (kthen (kmodify (\<lambda>s. s\<lparr>pic_inited := True\<rparr>))
       (port_outs
         [(0x21, 0xff), (0xA1, 0xff),
          (0x20, 0x11), (0x21, 32), (0x21, 4), (0x21, 1),
          (0xA0, 0x11), (0xA1, 40), (0xA1, 2), (0xA1, 1),
          (0x20, 0x68), (0x20, 0x0a), (0xA0, 0x68), (0xA0, 0x0a),
          (0x21, 0xff), (0xA1, 0xff)])))"

definition pic_setmask :: "u16 \<Rightarrow> ('a hw_scheme, unit) kprog" where
  "pic_setmask m =
     kthen (kmodify (\<lambda>s. s\<lparr>irqmask := m\<rparr>))
     (kthen (port_outb 0x21 (ucast m)) (port_outb 0xA1 (ucast (drop_bit 8 m))))"

definition pic_enable :: "nat \<Rightarrow> ('a hw_scheme, unit) kprog" where
  "pic_enable irq = kbind (kgets irqmask) (\<lambda>m. pic_setmask (m AND NOT (push_bit irq 1)))"

definition pic_eoi :: "('a hw_scheme, unit) kprog" where
  "pic_eoi = kthen (port_outb 0x20 0x20) (port_outb 0xA0 0x20)"

definition pic_reset :: "('a hw_scheme, unit) kprog" where
  "pic_reset = port_outs
     [(0x21, 0), (0xA1, 0),
      (0x20, 0x11), (0x21, 32), (0x21, 4), (0x21, 3),
      (0xA0, 0x11), (0xA1, 40), (0xA1, 2), (0xA1, 1),
      (0x20, 0x68), (0x20, 0x0a), (0xA0, 0x68), (0xA0, 0x0a)]"

text \<open>\<^verbatim>\<open>LATCH\<close> is \<open>(1193182 + 50) div 100\<close>, which is 0x2e9c.\<close>

definition timer_hw_init :: "('a hw_scheme, unit) kprog" where
  "timer_hw_init = port_outs [(0x43, 0x34), (0x40, 0x9c), (0x40, 0x2e)]"

section \<open>ioapic.c\<close>

definition ioapic_read :: "u32 \<Rightarrow> u32 \<Rightarrow> ('a hw_scheme, u32) kprog" where
  "ioapic_read base reg = kgets (\<lambda>s. ioapic_reg s base reg)"

definition ioapic_write :: "u32 \<Rightarrow> u32 \<Rightarrow> u32 \<Rightarrow> ('a hw_scheme, unit) kprog" where
  "ioapic_write base reg data =
     kmodify (\<lambda>s. s\<lparr>ioapic_reg := (ioapic_reg s)(base := (ioapic_reg s base)(reg := data))\<rparr>)"

definition ioapic_register :: "u32 \<Rightarrow> u8 \<Rightarrow> u32 \<Rightarrow> ('a hw_scheme, unit) kprog" where
  "ioapic_register addr i g =
     kbind (kgets ioapic_num) (\<lambda>n.
     kwhen (\<not> MAX_IOAPIC \<le>s n)
       (kmodify (\<lambda>s. s\<lparr>ioapics := (ioapics s)(n := addr), ioapicid := (ioapicid s)(n := i), gsi := (gsi s)(n := g),
          ioapic_num := n + 1\<rparr>)))"

definition ioapic_maxintr :: "u32 \<Rightarrow> ('a hw_scheme, u32) kprog" where
  "ioapic_maxintr base = kbind (ioapic_read base IOAPIC_VER) (\<lambda>v. kreturn (drop_bit 16 v AND 0xFF))"

definition ioapic_init :: "('a hw_scheme, unit) kprog" where
  "ioapic_init =
     kbind (kgets ioapic_num) (\<lambda>n.
     kfor 0 n (\<lambda>i.
       kbind (kgets (\<lambda>s. ioapics s i)) (\<lambda>base.
       kbind (kgets (\<lambda>s. ioapicid s i)) (\<lambda>myid.
       kthen (kassert (base \<noteq> 0) (Panic ''ioapic''))
       (kbind (ioapic_read base IOAPIC_ID) (\<lambda>r.
       kthen (kwhen ((ucast (drop_bit 24 r) :: u8) = 0) (ioapic_write base IOAPIC_ID (push_bit 24 (ucast myid))))
       (kbind (ioapic_maxintr base) (\<lambda>maxintr.
       kfor 0 (maxintr + 1) (\<lambda>j.
         kthen (ioapic_write base (IOAPIC_TABLE + 2 * j) (IOAPIC_INT_DISABLED OR (T_IRQ0 + j)))
               (ioapic_write base (IOAPIC_TABLE + 2 * j + 1) 0))))))))))"

definition ioapic_enable :: "u8 \<Rightarrow> u8 \<Rightarrow> bool \<Rightarrow> bool \<Rightarrow> ('a hw_scheme, unit) kprog" where
  "ioapic_enable irq apicid trigger_mode polarity =
     kbind (kgets ioapic_num) (\<lambda>n.
     kbind (kfor_ret 0 n (\<lambda>i.
       kbind (kgets (\<lambda>s. ioapics s i)) (\<lambda>base.
       kbind (kgets (\<lambda>s. gsi s i)) (\<lambda>g.
       kbind (ioapic_maxintr base) (\<lambda>maxintr.
       if g \<le>s ucast irq \<and> ucast irq \<le>s g + maxintr
       then kthen (ioapic_write base (IOAPIC_TABLE + 2 * (ucast irq - g))
                    (push_bit 15 (of_bool trigger_mode) OR push_bit 13 (of_bool polarity) OR (T_IRQ0 + ucast irq)))
            (kthen (ioapic_write base (IOAPIC_TABLE + 2 * (ucast irq - g) + 1) (push_bit 24 (ucast apicid)))
                   (kreturn (Some ())))
       else kreturn None))))) (\<lambda>r.
     kassert (r \<noteq> None) (Panic ''Cannot enable IRQ on IOAPIC'')))"

definition ioapic_number :: "('a hw_scheme, u32) kprog" where
  "ioapic_number = kgets ioapic_num"

definition ioapic_get :: "u32 \<Rightarrow> ('a hw_scheme, u32) kprog" where
  "ioapic_get idx = kgets (\<lambda>s. if ioapic_num s \<le> idx then 0 else ioapics s idx)"

section \<open>lapic.c\<close>

definition lapic_read :: "u32 \<Rightarrow> ('a hw_scheme, u32) kprog" where
  "lapic_read i = kgets (\<lambda>s. lapic_in s i)"

definition lapic_write :: "u32 \<Rightarrow> u32 \<Rightarrow> ('a hw_scheme, unit) kprog" where
  "lapic_write i v = kmodify (\<lambda>s. s\<lparr>lapic_out := lapic_out s @ [(i, v)]\<rparr>)"

definition lapic_writes :: "(u32 \<times> u32) list \<Rightarrow> ('a hw_scheme, unit) kprog" where
  "lapic_writes ws = fold (\<lambda>(i, v) m. kthen m (lapic_write i v)) ws (kreturn ())"

definition lapic_register :: "u32 \<Rightarrow> ('a hw_scheme, unit) kprog" where
  "lapic_register addr = kmodify (\<lambda>s. s\<lparr>lapic := (addr \<noteq> 0)\<rparr>)"

text \<open>
  One calibration: \<open>gate\<close> is what port 0x61 returns, \<open>t0\<close> the first reading of the timer and \<open>ts\<close> the
  readings until the other timer has run down.
\<close>

definition calibrate_step :: "u32 \<Rightarrow> u32 \<times> u32 \<times> u32 \<Rightarrow> u32 \<times> u32 \<times> u32" where
  "calibrate_step t2 acc = (case acc of (timer, timermin, timermax) \<Rightarrow>
     let delta = timer - t2
     in (t2, if delta < timermin then delta else timermin, if delta > timermax then delta else timermax))"

definition lapic_calibrate_timer ::
    "u32 \<Rightarrow> u32 \<Rightarrow> nat \<Rightarrow> u8 \<Rightarrow> u32 \<Rightarrow> u32 list \<Rightarrow> ('a hw_scheme, u32) kprog" where
  "lapic_calibrate_timer latch ms loopmin gate t0 ts =
     kthen (lapic_write 0xE0 0xffffffff)
     (kthen (port_outs [(0x61, (gate AND NOT 2) OR 1), (0x43, 0xb0), (0x42, ucast (latch AND 0xff)), (0x42, ucast (drop_bit 8 latch))])
     (case fold calibrate_step ts (t0, 0xffffffff, 0) of (timer2, timermin, timermax) \<Rightarrow>
        kreturn (if length ts < loopmin \<or> timermax > 10 * timermin then 0xffffffff else (t0 - timer2) div ms)))"

text \<open>The retry loop; \<open>cal i\<close> is what the hardware shows in attempt \<open>i\<close>. The last result counts.\<close>

definition lapic_calibrate :: "(u32 \<Rightarrow> u8 \<times> u32 \<times> u32 list) \<Rightarrow> ('a hw_scheme, u32) kprog" where
  "lapic_calibrate cal =
     kbind (kfor_ret 0 5 (\<lambda>i. case cal i of (gate, t0, ts) \<Rightarrow>
       kbind (lapic_calibrate_timer 11931 10 1000 gate t0 ts) (\<lambda>r.
       kreturn (if r \<noteq> 0xffffffff then Some r else None)))) (\<lambda>r.
     kreturn (case r of Some v \<Rightarrow> v | None \<Rightarrow> 500000))"

definition lapic_init :: "(u32 \<Rightarrow> u8 \<times> u32 \<times> u32 list) \<Rightarrow> ('a hw_scheme, unit) kprog" where
  "lapic_init cal =
     kbind (kgets lapic) (\<lambda>present.
     kthen (kassert present (Panic ''NO LAPIC''))
     (kthen (lapic_writes [(0x3C, 0x100 OR (T_IRQ0 + IRQ_SPURIOUS)), (0xF8, 0xB), (0xC8, 0x20000 OR (T_IRQ0 + IRQ_TIMER))])
     (kbind (lapic_calibrate cal) (\<lambda>ticks.
     kthen (lapic_writes [(0xE0, ticks * 1000 div 1000), (0xD4, 0x10000), (0xD8, 0x10000)])
     (kbind (lapic_read 0xC) (\<lambda>ver.
     kthen (kwhen (4 \<le> drop_bit 16 ver AND 0xFF) (lapic_write 0xD0 0x10000))
     (kthen (lapic_writes [(0x38, 0xF0000000), (0x34, 0), (0xDC, 50), (0xA0, 0), (0xA0, 0), (0x2C, 0), (0xC4, 0), (0xC0, 0x88500)])
     (kbind (lapic_read 0xC0) (\<lambda>icr.
     kthen (kassert (icr AND 0x1000 = 0) Deadlock)
           (lapic_write 0x20 0))))))))))"

definition lapic_eoi :: "('a hw_scheme, unit) kprog" where
  "lapic_eoi = kbind (kgets lapic) (\<lambda>p. kwhen p (lapic_write 0x2C 0))"

definition lapic_startcpu :: "u8 \<Rightarrow> u32 \<Rightarrow> ('a hw_scheme, unit) kprog" where
  "lapic_startcpu apicid addr =
     kthen (port_outs [(0x70, 0xF), (0x71, 0x0A)])
     (kthen (kmodify (\<lambda>s. s\<lparr>phys_mem := (phys_mem s)(0x467 := 0, 0x468 := 0,
         0x469 := ucast (drop_bit 4 addr), 0x46A := ucast (drop_bit 12 addr))\<rparr>))
     (lapic_writes
        [(0xC4, push_bit 24 (ucast apicid)), (0xC0, 0xC500), (0xC0, 0x8500),
         (0xC4, push_bit 24 (ucast apicid)), (0xC0, 0x600 OR drop_bit 12 addr),
         (0xC4, push_bit 24 (ucast apicid)), (0xC0, 0x600 OR drop_bit 12 addr)]))"

definition lapic_send_ipi :: "u8 \<Rightarrow> u8 \<Rightarrow> u32 \<Rightarrow> u32 \<Rightarrow> ('a hw_scheme, unit) kprog" where
  "lapic_send_ipi apicid vector deliver_mode shorthand_mode =
     kthen (kassert (deliver_mode \<noteq> 0x500 \<and> deliver_mode \<noteq> 0x600) (Panic ''lapic_send_ipi''))
     (kthen (kassert (63 \<le> vector) (Panic ''lapic_send_ipi''))
     (kbind (lapic_read 0xC0) (\<lambda>icr.
     kthen (kassert (icr AND 0x1000 = 0) Deadlock)
     (kthen (kwhen (shorthand_mode = 0) (lapic_write 0xC4 (push_bit 24 (ucast apicid) AND 0xFF000000)))
            (lapic_write 0xC0 (shorthand_mode OR deliver_mode OR ucast vector))))))"

section \<open>intr.c\<close>

datatype xentry = Xdivide | Xdebug | Xnmi | Xbrkpt | Xoflow | Xbound | Xillop | Xdevice | Xdblflt | Xtss | Xsegnp | Xstack
  | Xgpflt | Xpgflt | Xfperr | Xalign | Xmchk | Xirq_timer | Xirq_kbd | Xirq_slave | Xirq_serial2 | Xirq_serial1 | Xirq_lpt
  | Xirq_floppy | Xirq_spurious | Xirq_rtc | Xirq9 | Xirq10 | Xirq11 | Xirq_mouse | Xirq_coproc | Xirq_ide1 | Xirq_ide2
  | Xsyscall | Xdefault

definition SETGATE :: "bool \<Rightarrow> u16 \<Rightarrow> u32 \<Rightarrow> 2 word \<Rightarrow> gatedesc" where
  "SETGATE istrap sel off dpl =
     \<lparr>gd_off_15_0 = ucast off, gd_ss = sel, gd_args = 0, gd_rsv1 = 0, gd_type = (if istrap then 0xF else 0xE),
      gd_s = False, gd_dpl = dpl, gd_p = True, gd_off_31_16 = ucast (drop_bit 16 off)\<rparr>"

abbreviation (input) CPU_GDT_KCODE :: u16 where "CPU_GDT_KCODE \<equiv> 8"

text \<open>The gates with their entry points and privilege levels, in the order of the code.\<close>

definition idt_gates :: "(u32 \<times> xentry \<times> 2 word) list" where
  "idt_gates =
     [(0, Xdivide, 0), (1, Xdebug, 0), (2, Xnmi, 0), (3, Xbrkpt, 3), (4, Xoflow, 3), (5, Xbound, 0), (6, Xillop, 0),
      (7, Xdevice, 0), (8, Xdblflt, 0), (10, Xtss, 0), (11, Xsegnp, 0), (12, Xstack, 0), (13, Xgpflt, 0), (14, Xpgflt, 0),
      (16, Xfperr, 0), (17, Xalign, 0), (18, Xmchk, 0),
      (32, Xirq_timer, 0), (33, Xirq_kbd, 0), (34, Xirq_slave, 0), (35, Xirq_serial2, 0), (36, Xirq_serial1, 0),
      (37, Xirq_lpt, 0), (38, Xirq_floppy, 0), (39, Xirq_spurious, 0), (40, Xirq_rtc, 0), (41, Xirq9, 0), (42, Xirq10, 0),
      (43, Xirq11, 0), (44, Xirq_mouse, 0), (45, Xirq_coproc, 0), (46, Xirq_ide1, 0), (47, Xirq_ide2, 0),
      (48, Xsyscall, 3), (254, Xdefault, 0)]"

definition idt_set :: "u32 \<Rightarrow> gatedesc \<Rightarrow> ('a hw_scheme, unit) kprog" where
  "idt_set i g = kmodify (\<lambda>s. s\<lparr>idt := (idt s)(i := g)\<rparr>)"

definition intr_init_idt :: "(xentry \<Rightarrow> u32) \<Rightarrow> ('a hw_scheme, unit) kprog" where
  "intr_init_idt entry =
     kthen (kfor 0 256 (\<lambda>i. idt_set i (SETGATE False CPU_GDT_KCODE (entry Xdefault) 0)))
     (kthen (fold (\<lambda>(i, x, dpl) m. kthen m (idt_set i (SETGATE False CPU_GDT_KCODE (entry x) dpl))) idt_gates (kreturn ()))
            (kmodify (\<lambda>s. s\<lparr>idt_loaded := True\<rparr>)))"

text \<open>\<open>feat\<close> is what \<^verbatim>\<open>cpuid\<close> returns; bit 9 announces the local APIC.\<close>

definition intr_init :: "u32 \<Rightarrow> (u32 \<Rightarrow> u8 \<times> u32 \<times> u32 list) \<Rightarrow> (xentry \<Rightarrow> u32) \<Rightarrow> ('a hw_scheme, unit) kprog" where
  "intr_init feat cal entry =
     kthen pic_init
     (kthen (kmodify (\<lambda>s. s\<lparr>using_apic := bit feat 9\<rparr>))
     (kthen (kassert (bit feat 9) (Panic ''using_apic''))
     (kbind (kgets onboot) (\<lambda>b.
     kthen (kwhen b ioapic_init)
     (kthen (lapic_init cal)
     (kthen (intr_init_idt entry)
            (kmodify (\<lambda>s. s\<lparr>intr_inited := True\<rparr>))))))))"

definition pcpu_ncpu :: "('a hw_scheme, u32) kprog" where
  "pcpu_ncpu = kgets ncpu"

definition pcpu_cpu_lapicid :: "u32 \<Rightarrow> ('a hw_scheme, u8) kprog" where
  "pcpu_cpu_lapicid i =
     kbind (kgets ncpu) (\<lambda>n.
     kthen (kassert (\<not> i <s 0 \<and> i < n) (Panic ''pcpu_cpu_lapicid'')) (kgets (\<lambda>s. lapicid s i)))"

definition irq_route :: "u8 \<Rightarrow> ('a hw_scheme, u8) kprog \<Rightarrow> ('a hw_scheme, unit) kprog" where
  "irq_route irq dest =
     kbind (kgets using_apic) (\<lambda>a.
     if a then kbind dest (\<lambda>d. ioapic_enable irq d False False)
     else kthen (kassert (irq < 16) (Panic ''irq'')) (pic_enable (unat irq)))"

definition intr_enable :: "u8 \<Rightarrow> u32 \<Rightarrow> ('a hw_scheme, unit) kprog" where
  "intr_enable irq cpunum =
     kbind pcpu_ncpu (\<lambda>n.
     kthen (kassert (cpunum = 0xff \<or> \<not> cpunum <s 0 \<and> cpunum < n) (Panic ''intr_enable''))
     (kwhen (irq < 24) (irq_route irq (if cpunum = 0xff then kreturn 0xff else pcpu_cpu_lapicid cpunum))))"

definition intr_enable_lapicid :: "u8 \<Rightarrow> u32 \<Rightarrow> ('a hw_scheme, unit) kprog" where
  "intr_enable_lapicid irq i = kwhen (irq \<le> 24) (irq_route irq (kreturn (if i = 0xff then 0xff else ucast i)))"

definition intr_eoi :: "('a hw_scheme, unit) kprog" where
  "intr_eoi = kbind (kgets using_apic) (\<lambda>a. if a then lapic_eoi else pic_eoi)"

definition intr_local_enable :: "('a hw_scheme, unit) kprog" where
  "intr_local_enable = kmodify (\<lambda>s. s\<lparr>intr_flag := True\<rparr>)"

definition intr_local_disable :: "('a hw_scheme, unit) kprog" where
  "intr_local_disable = kmodify (\<lambda>s. s\<lparr>intr_flag := False\<rparr>)"

section \<open>The disk's own interrupt code\<close>

definition picsetmask :: "u16 \<Rightarrow> ('a hw_scheme, unit) kprog" where
  "picsetmask m =
     kthen (kmodify (\<lambda>s. s\<lparr>disk_irqmask := m\<rparr>))
     (kthen (port_outb 0x21 (ucast m)) (port_outb 0xA1 (ucast (drop_bit 8 m))))"

definition picenable :: "nat \<Rightarrow> ('a hw_scheme, unit) kprog" where
  "picenable irq = kbind (kgets disk_irqmask) (\<lambda>m. picsetmask (m AND NOT (push_bit irq 1)))"

definition picinit :: "('a hw_scheme, unit) kprog" where
  "picinit =
     kthen (port_outs
       [(0x21, 0xff), (0xA1, 0xff),
        (0x20, 0x11), (0x21, 32), (0x21, 4), (0x21, 3),
        (0xA0, 0x11), (0xA1, 40), (0xA1, 2), (0xA1, 3),
        (0x20, 0x68), (0x20, 0x0a), (0xA0, 0x68), (0xA0, 0x0a)])
     (kbind (kgets disk_irqmask) (\<lambda>m. kwhen (m \<noteq> 0xFFFF) (picsetmask m)))"

text \<open>Through a null pointer \<^verbatim>\<open>ioapic\<close> the register number and the data go to memory, at 0 and 16.\<close>

definition ioapicread :: "u32 \<Rightarrow> ('a hw_scheme, u32) kprog" where
  "ioapicread reg = kbind (kgets disk_ioapic) (\<lambda>base.
     if base = 0 then kthen (kmodify (\<lambda>s. s\<lparr>phys_mem := store32 0 reg (phys_mem s)\<rparr>)) (kgets (\<lambda>s. load32 (phys_mem s) 16))
     else ioapic_read base reg)"

definition ioapicwrite :: "u32 \<Rightarrow> u32 \<Rightarrow> ('a hw_scheme, unit) kprog" where
  "ioapicwrite reg data = kbind (kgets disk_ioapic) (\<lambda>base.
     if base = 0 then kmodify (\<lambda>s. s\<lparr>phys_mem := store32 16 data (store32 0 reg (phys_mem s))\<rparr>)
     else ioapic_write base reg data)"

definition ioapicinit :: "('a hw_scheme, unit) kprog" where
  "ioapicinit =
     kthen (kmodify (\<lambda>s. s\<lparr>disk_ioapic := 0xFEC00000\<rparr>))
     (kbind (ioapicread IOAPIC_VER) (\<lambda>v.
     kbind (ioapicread IOAPIC_ID) (\<lambda>_.
     kfor 0 ((drop_bit 16 v AND 0xFF) + 1) (\<lambda>i.
       kthen (ioapicwrite (IOAPIC_TABLE + 2 * i) (IOAPIC_INT_DISABLED OR (T_IRQ0 + i)))
             (ioapicwrite (IOAPIC_TABLE + 2 * i + 1) 0)))))"

definition ioapicenable :: "u32 \<Rightarrow> u32 \<Rightarrow> ('a hw_scheme, unit) kprog" where
  "ioapicenable irq cpunum =
     kthen (ioapicwrite (IOAPIC_TABLE + 2 * irq) (T_IRQ0 + irq))
           (ioapicwrite (IOAPIC_TABLE + 2 * irq + 1) (push_bit 24 cpunum))"

definition ide_init :: "('a hw_scheme, unit) kprog" where
  "ide_init =
     kthen (kmodify (\<lambda>s. s\<lparr>ide_lk := spinlock_init\<rparr>))
     (kthen (picenable (unat IRQ_IDE1))
     (kbind pcpu_ncpu (\<lambda>n.
     kthen (ioapicenable IRQ_IDE1 (n - 1))
     (kthen (kbind (ide_wait False) (\<lambda>_. kreturn ()))
     (kthen (outb 0x1f6 0xf0)
     (kbind (kgets ide_status) (\<lambda>st.
     kthen (kwhen (st \<noteq> 0) (kmodify (\<lambda>s. s\<lparr>havedisk1 := True\<rparr>)))
           (outb 0x1f6 0xe0))))))))"

section \<open>Gates\<close>

definition gate_addr :: "gatedesc \<Rightarrow> u32" where
  "gate_addr g = ucast (gd_off_15_0 g) OR push_bit 16 (ucast (gd_off_31_16 g))"

lemma gate_addr_SETGATE: "gate_addr (SETGATE t sel off dpl) = off"
  by (rule bit_word_eqI)
     (auto simp: gate_addr_def SETGATE_def bit_or_iff bit_push_bit_iff bit_ucast_iff bit_drop_bit_eq)

lemma kwp_idt_set [wp]: "kwp (idt_set i g) Q s = Q () (s\<lparr>idt := (idt s)(i := g)\<rparr>)"
  by (simp add: idt_set_def wp)

definition gate_of :: "(xentry \<Rightarrow> u32) \<Rightarrow> (u32 \<times> xentry \<times> 2 word) list \<Rightarrow> u32 \<Rightarrow> gatedesc" where
  "gate_of entry gs i = (case map_of (rev gs) i of Some (x, dpl) \<Rightarrow> SETGATE False CPU_GDT_KCODE (entry x) dpl
     | None \<Rightarrow> SETGATE False CPU_GDT_KCODE (entry Xdefault) 0)"

lemma idt_fold_wp:
  fixes s :: "'a hw_scheme"
  shows "(\<forall>i<256. idt s i = gate_of entry [] i) \<Longrightarrow>
   kwp (fold (\<lambda>(i, x, dpl) m. kthen m (idt_set i (SETGATE False CPU_GDT_KCODE (entry x) dpl))) gs (kreturn ()))
     (\<lambda>_ t. \<exists>f. t = s\<lparr>idt := f\<rparr> \<and> (\<forall>i<256. f i = gate_of entry gs i)) s"
proof (induction gs rule: rev_induct)
  case Nil
  then show ?case by (auto simp: kwp_kreturn intro!: exI [of _ "idt s"])
next
  case (snoc g gs)
  obtain j x dpl where g: "g = (j, x, dpl)" by (cases g)
  have "kwp (kthen (fold (\<lambda>(i, x, dpl) m. kthen m (idt_set i (SETGATE False CPU_GDT_KCODE (entry x) dpl))) gs (kreturn ()))
     (idt_set j (SETGATE False CPU_GDT_KCODE (entry x) dpl)))
     (\<lambda>_ t. \<exists>f. t = s\<lparr>idt := f\<rparr> \<and> (\<forall>i<256. f i = gate_of entry (gs @ [g]) i)) s"
  proof (rule kwp_kthenI [OF snoc.IH [OF snoc.prems]])
    fix u t
    assume "\<exists>f. t = s\<lparr>idt := f\<rparr> \<and> (\<forall>i<256. f i = gate_of entry gs i)"
    then obtain f where "t = s\<lparr>idt := f\<rparr>" "\<forall>i<256. f i = gate_of entry gs i" by blast
    then show "kwp (idt_set j (SETGATE False CPU_GDT_KCODE (entry x) dpl))
       (\<lambda>_ t. \<exists>f. t = s\<lparr>idt := f\<rparr> \<and> (\<forall>i<256. f i = gate_of entry (gs @ [g]) i)) t"
      by (auto simp: wp g gate_of_def intro!: exI [of _ "f(j := SETGATE False CPU_GDT_KCODE (entry x) dpl)"])
  qed
  then show ?case by (simp add: g)
qed

lemma intr_init_idt_wp:
  fixes s :: "'a hw_scheme"
  shows "kwp (intr_init_idt entry) (\<lambda>_ t. idt_loaded t \<and> (\<forall>i<256. idt t i = gate_of entry idt_gates i)) s"
proof -
  let ?G = "SETGATE False CPU_GDT_KCODE (entry Xdefault) 0"
  have "kwp (kfor 0 256 (\<lambda>i. idt_set i ?G)) (\<lambda>_ t. \<forall>i<256. idt t i = gate_of entry [] i) s"
  proof (rule kwp_kfor [where I = "\<lambda>j t. \<forall>i<j. idt t i = ?G"])
    fix j :: u32 and t :: "'a hw_scheme"
    assume j: "j < 256" "\<forall>i<j. idt t i = ?G"
    have "i < j + 1 \<longleftrightarrow> i < j \<or> i = j" for i using unat_inc [OF j(1)] by (auto simp: word_less_nat_alt word_unat_eq_iff)
    then show "kwp (idt_set j ?G) (\<lambda>_ t. \<forall>i<j + 1. idt t i = ?G) t" using j(2) by (simp add: wp)
  qed (simp_all add: gate_of_def)
  then show ?thesis unfolding intr_init_idt_def
    by (rule kwp_kthenI) (rule kwp_kthenI [OF idt_fold_wp], auto simp: wp)
qed

text \<open>
  C22: The descriptor table lets user code enter the kernel only where it is meant to. After
  \<^verbatim>\<open>intr_init_idt\<close> every one of the 256 gates is present, is an interrupt gate into the kernel's code segment
  and leads to a handler of the kernel; the gates that code in ring 3 may invoke are exactly the breakpoint, the overflow
  and the system call gate, and the system call gate leads to \<^verbatim>\<open>Xsyscall\<close>.
\<close>

theorem idt_user_gates:
  "\<exists>t. intr_init_idt entry s = Inr ((), t) \<and> idt_loaded t \<and> {i. i < 256 \<and> gd_dpl (idt t i) = 3} = {3, 4, 48} \<and>
     gate_addr (idt t 48) = entry Xsyscall \<and>
     (\<forall>i. i < 256 \<longrightarrow> gd_p (idt t i) \<and> gd_ss (idt t i) = CPU_GDT_KCODE \<and> gd_type (idt t i) = 0xE \<and> gate_addr (idt t i) \<in> range entry)"
proof -
  obtain t where t: "intr_init_idt entry s = Inr ((), t)" "idt_loaded t" "\<forall>i<256. idt t i = gate_of entry idt_gates i"
    using intr_init_idt_wp [of entry s] by (auto elim!: kwpE)
  have "gd_dpl (gate_of entry idt_gates i) = 3 \<longleftrightarrow> i = 3 \<or> i = 4 \<or> i = 48" for i
    by (simp add: gate_of_def idt_gates_def SETGATE_def)
  then have "{i. i < 256 \<and> gd_dpl (idt t i) = 3} = {3, 4, 48}" using t(3) by auto
  moreover have "gate_addr (idt t 48) = entry Xsyscall" using t(3) by (simp add: gate_of_def idt_gates_def gate_addr_SETGATE)
  moreover have "gd_p (gate_of entry gs i) \<and> gd_ss (gate_of entry gs i) = CPU_GDT_KCODE \<and> gd_type (gate_of entry gs i) = 0xE \<and>
      gate_addr (gate_of entry gs i) \<in> range entry" for gs i
    by (auto simp: gate_of_def gate_addr_SETGATE split: option.splits) (auto simp: SETGATE_def)
  ultimately show ?thesis using t by auto
qed

theorem idt_user_gates_witness:
  "\<forall>s :: hw. \<exists>t. intr_init_idt (\<lambda>x. if x = Xsyscall then 0x100800 else 0x100000) s = Inr ((), t) \<and>
     {i. i < 256 \<and> gd_dpl (idt t i) = 3} = {3, 4, 48} \<and> gate_addr (idt t 48) = 0x100800"
proof
  fix s :: hw
  show "\<exists>t. intr_init_idt (\<lambda>x. if x = Xsyscall then 0x100800 else 0x100000) s = Inr ((), t) \<and>
     {i. i < 256 \<and> gd_dpl (idt t i) = 3} = {3, 4, 48} \<and> gate_addr (idt t 48) = 0x100800"
    using idt_user_gates [of "\<lambda>x. if x = Xsyscall then 0x100800 else 0x100000" s] by auto
qed

end
