(* ===== verification/Trap.thy ===== *)
theory Trap
  imports Intr
begin

text \<open>
  Segments and kernel stacks (kern/lib/seg.c), system calls (kern/trap/TSyscall), their dispatch
  (kern/trap/TDispatch), the trap handlers (kern/trap/TTrapHandler) and their table
  (kern/trap/TTrapInit), processes (kern/proc/PProc) and the kernel's main function (kern/init/init.c).

  A kernel stack structure is stored under its address; the fields of the one the code runs on are
  mirrored in \<open>ks_magic\<close> and \<open>ks_cpu_idx\<close>. Of the task state only the fields the code sets are
  there. The current thread's code after a switch runs when the thread is switched back to: when its
  handler has given the CPU to another thread, \<open>trap\<close> returns \<open>Inl\<close> with the arguments of the
  \<open>trap_resume\<close> that is still to run. Messages to the debug console are
  not modelled, except the text \<^verbatim>\<open>sys_puts\<close> prints. The addresses the linker gives to buffers, entry
  points and program images are the record \<open>places\<close>.
\<close>

unbundle bit_operations_syntax

section \<open>seg.h and kstack.h\<close>

record segdesc =
  sd_lim_15_0 :: u16
  sd_base_15_0 :: u16
  sd_base_23_16 :: u8
  sd_type :: "4 word"
  sd_s :: bool
  sd_dpl :: "2 word"
  sd_p :: bool
  sd_lim_19_16 :: "4 word"
  sd_avl :: bool
  sd_rsv1 :: bool
  sd_db :: bool
  sd_g :: bool
  sd_base_31_24 :: u8

definition SEGDESC_NULL :: segdesc where
  "SEGDESC_NULL = \<lparr>sd_lim_15_0 = 0, sd_base_15_0 = 0, sd_base_23_16 = 0, sd_type = 0, sd_s = False, sd_dpl = 0, sd_p = False,
     sd_lim_19_16 = 0, sd_avl = False, sd_rsv1 = False, sd_db = False, sd_g = False, sd_base_31_24 = 0\<rparr>"

definition SEGDESC32 :: "4 word \<Rightarrow> u32 \<Rightarrow> u32 \<Rightarrow> 2 word \<Rightarrow> segdesc" where
  "SEGDESC32 type base lim dpl =
     \<lparr>sd_lim_15_0 = ucast (drop_bit 12 lim), sd_base_15_0 = ucast base, sd_base_23_16 = ucast (drop_bit 16 base), sd_type = type,
      sd_s = True, sd_dpl = dpl, sd_p = True, sd_lim_19_16 = ucast (drop_bit 28 lim), sd_avl = False, sd_rsv1 = False, sd_db = True,
      sd_g = True, sd_base_31_24 = ucast (drop_bit 24 base)\<rparr>"

definition SEGDESC16 :: "4 word \<Rightarrow> u32 \<Rightarrow> u32 \<Rightarrow> 2 word \<Rightarrow> segdesc" where
  "SEGDESC16 type base lim dpl =
     \<lparr>sd_lim_15_0 = ucast lim, sd_base_15_0 = ucast base, sd_base_23_16 = ucast (drop_bit 16 base), sd_type = type,
      sd_s = True, sd_dpl = dpl, sd_p = True, sd_lim_19_16 = ucast (drop_bit 16 lim), sd_avl = False, sd_rsv1 = False, sd_db = True,
      sd_g = False, sd_base_31_24 = ucast (drop_bit 24 base)\<rparr>"

record tss_t =
  ts_esp0 :: u32
  ts_ss0 :: u16
  ts_iomb :: u16
  ts_iopm :: "u32 \<Rightarrow> u8"

record kstack_t =
  gdt :: "u32 \<Rightarrow> segdesc"
  tss :: tss_t
  kst_cpu_idx :: u32
  kst_magic :: u32

datatype trap_cb = Exception_handler | Syscall_dispatch | Interrupt_handler

record trap_state = hw +
  kstacks :: "u32 \<Rightarrow> kstack_t"
  bsp_kstack :: u32
  gdtr :: "u32 \<times> u16"
  seg_code :: u16
  seg_data :: u16
  ldtr :: u16
  tr :: u16
  uctx_pool :: "u32 \<Rightarrow> tf_t"
  TRAP_HANDLER :: "u32 \<Rightarrow> u32 \<Rightarrow> trap_cb option"
  trap_inited :: bool
  cr2 :: u32
  console_out :: "u8 list"

abbreviation (input) CPU_GDT_KDATA :: u16 where "CPU_GDT_KDATA \<equiv> 0x10"
abbreviation (input) CPU_GDT_UCODE :: u16 where "CPU_GDT_UCODE \<equiv> 0x18"
abbreviation (input) CPU_GDT_UDATA :: u16 where "CPU_GDT_UDATA \<equiv> 0x20"
abbreviation (input) CPU_GDT_TSS :: u16 where "CPU_GDT_TSS \<equiv> 0x28"

abbreviation (input) T_PGFLT :: u32 where "T_PGFLT \<equiv> 14"
abbreviation (input) PFE_PR :: u32 where "PFE_PR \<equiv> 1"

section \<open>seg.c\<close>

definition kstack_upd :: "u32 \<Rightarrow> (kstack_t \<Rightarrow> kstack_t) \<Rightarrow> ('a trap_state_scheme, unit) kprog" where
  "kstack_upd a f = kmodify (\<lambda>s. let k = f (kstacks s a) in
     s\<lparr>kstacks := (kstacks s)(a := k),
       ks_magic := (if ks_addr s = a then kst_magic k else ks_magic s),
       ks_cpu_idx := (if ks_addr s = a then kst_cpu_idx k else ks_cpu_idx s)\<rparr>)"

definition proc_kstack :: "u32 \<Rightarrow> ('a trap_state_scheme, u32) kprog" where
  "proc_kstack pid = kthen (kassert (pid < NUM_IDS) (Fault ''proc_kstack'')) (kgets (\<lambda>s. proc_kstack_addr s + pid * KSTACK_SIZE))"

text \<open>The task state is 48 bytes into the structure and has 236 bytes; the stack ends 4096 bytes into it.\<close>

definition tss_desc :: "u32 \<Rightarrow> segdesc" where
  "tss_desc a = (SEGDESC16 9 (a + 48) 235 0)\<lparr>sd_s := False\<rparr>"

definition gdt_segments :: "kstack_t \<Rightarrow> kstack_t" where
  "gdt_segments k = k\<lparr>gdt := (gdt k)(0 := SEGDESC_NULL, 1 := SEGDESC32 0xA 0 0xffffffff 0, 2 := SEGDESC32 2 0 0xffffffff 0,
     3 := SEGDESC32 0xA 0 0xffffffff 3, 4 := SEGDESC32 2 0 0xffffffff 3)\<rparr>"

definition ltr :: "u16 \<Rightarrow> ('a trap_state_scheme, unit) kprog" where
  "ltr sel = kmodify (\<lambda>s. s\<lparr>tr := sel\<rparr>)"

definition kstack_switch :: "u32 \<Rightarrow> ('a trap_state_scheme, unit) kprog" where
  "kstack_switch pid =
     kbind get_pcpu_idx (\<lambda>c.
     kbind (get_pcpu_kstack_pointer c) (\<lambda>ks.
     kbind (proc_kstack pid) (\<lambda>a.
     kthen (kstack_upd ks (\<lambda>k. k\<lparr>tss := (tss k)\<lparr>ts_esp0 := a + KSTACK_SIZE\<rparr>\<rparr>))
     (kthen (kstack_upd ks (\<lambda>k. k\<lparr>tss := (tss k)\<lparr>ts_ss0 := CPU_GDT_KDATA\<rparr>\<rparr>))
     (kthen (kstack_upd ks (\<lambda>k. k\<lparr>gdt := (gdt k)(5 := tss_desc a)\<rparr>))
            (ltr CPU_GDT_TSS))))))"

definition seg_init_proc :: "u32 \<Rightarrow> u32 \<Rightarrow> ('a trap_state_scheme, unit) kprog" where
  "seg_init_proc cpu pid =
     kbind (proc_kstack pid) (\<lambda>a.
     kthen (kstack_upd a gdt_segments)
     (kthen (kstack_upd a (\<lambda>k. k\<lparr>tss := (tss k)\<lparr>ts_esp0 := a + KSTACK_SIZE, ts_ss0 := CPU_GDT_KDATA, ts_iomb := 104,
         ts_iopm := (\<lambda>i. if i < 128 then 0 else if i = 128 then 0xff else ts_iopm (tss k) i)\<rparr>\<rparr>))
     (kthen (kstack_upd a (\<lambda>k. k\<lparr>gdt := (gdt k)(5 := tss_desc a)\<rparr>))
     (kthen (kstack_upd a (\<lambda>k. k\<lparr>kst_magic := KSTACK_MAGIC\<rparr>))
            (kstack_upd a (\<lambda>k. k\<lparr>kst_cpu_idx := cpu\<rparr>))))))"

definition kstack_zero :: kstack_t where
  "kstack_zero = \<lparr>gdt = (\<lambda>_. SEGDESC_NULL), tss = \<lparr>ts_esp0 = 0, ts_ss0 = 0, ts_iomb = 0, ts_iopm = (\<lambda>_. 0)\<rparr>, kst_cpu_idx = 0, kst_magic = 0\<rparr>"

text \<open>What the two \<^verbatim>\<open>memzero\<close> calls on the data between the linker's \<^verbatim>\<open>edata\<close> and \<^verbatim>\<open>end\<close> clear is given by \<open>clear_bss\<close>.\<close>

definition seg_init :: "('a trap_state_scheme \<Rightarrow> 'a trap_state_scheme) \<Rightarrow> u32 \<Rightarrow> ('a trap_state_scheme, unit) kprog" where
  "seg_init clear_bss cpu =
     kthen (kassert (cpu < NUM_CPUS) (Fault ''bsp_kstack''))
     (kthen (kwhen (cpu = 0) (kmodify clear_bss))
     (kbind (kgets (\<lambda>s. bsp_kstack s + cpu * KSTACK_SIZE)) (\<lambda>a.
     kthen (kstack_upd a gdt_segments)
     (kthen (kstack_upd a (\<lambda>k. k\<lparr>tss := (tss k)\<lparr>ts_esp0 := a + KSTACK_SIZE, ts_ss0 := CPU_GDT_KDATA\<rparr>\<rparr>))
     (kthen (kstack_upd a (\<lambda>k. k\<lparr>gdt := (gdt k)(5 := tss_desc a)\<rparr>))
     (kthen (kstack_upd a (\<lambda>k. k\<lparr>kst_magic := KSTACK_MAGIC\<rparr>))
     (kthen (kmodify (\<lambda>s. s\<lparr>gdtr := (a, 47), seg_data := CPU_GDT_KDATA, seg_code := CPU_GDT_KCODE, ldtr := 0\<rparr>))
     (kthen (ltr CPU_GDT_TSS)
     (kthen (kmodify (\<lambda>s. s\<lparr>idt_loaded := True\<rparr>))
     (kwhen (cpu = 0)
       (kthen (kfor 1 8 (\<lambda>i. kbind (kgets (\<lambda>s. bsp_kstack s + i * KSTACK_SIZE)) (\<lambda>b. kstack_upd b (\<lambda>_. kstack_zero))))
              (kfor 0 NUM_IDS (\<lambda>p. kbind (proc_kstack p) (\<lambda>b. kstack_upd b (\<lambda>_. kstack_zero)))))))))))))))"

section \<open>PProc.c\<close>

record places =
  a_fbuf :: u32
  a_path :: u32
  a_old :: u32
  a_new :: u32
  a_st :: u32
  a_sys_buf :: u32
  a_proc_start_user :: u32
  a_elf :: "u32 \<Rightarrow> u32"
  a_idle :: u32

definition uctx_upd :: "u32 \<Rightarrow> (tf_t \<Rightarrow> tf_t) \<Rightarrow> ('a trap_state_scheme, unit) kprog" where
  "uctx_upd pid f = kthen (kassert (pid < NUM_IDS) (Fault ''uctx_pool''))
     (kmodify (\<lambda>s. s\<lparr>uctx_pool := (uctx_pool s)(pid := f (uctx_pool s pid))\<rparr>))"

text \<open>The frame with which \<^verbatim>\<open>trap_return\<close> enters user mode.\<close>

definition proc_start_user :: "('a trap_state_scheme, tf_t) kprog" where
  "proc_start_user =
     kbind get_curid (\<lambda>cur.
     kthen (kstack_switch cur)
     (kthen (set_pdir_base cur)
     (kthen (kassert (cur < NUM_IDS) (Fault ''uctx_pool'')) (kgets (\<lambda>s. uctx_pool s cur)))))"

definition proc_create :: "places \<Rightarrow> u32 \<Rightarrow> u32 \<Rightarrow> ('a trap_state_scheme, u32) kprog" where
  "proc_create pl elf_addr quota' =
     kbind get_curid (\<lambda>i.
     kbind (thread_spawn (a_proc_start_user pl) i quota') (\<lambda>pid.
     kthen (elf_load elf_addr pid)
     (kthen (uctx_upd pid (\<lambda>u. u\<lparr>tf_es := CPU_GDT_UDATA OR 3, tf_ds := CPU_GDT_UDATA OR 3, tf_cs := CPU_GDT_UCODE OR 3,
         tf_ss := CPU_GDT_UDATA OR 3, tf_esp := VM_USERHI, tf_eflags := 0x200\<rparr>))
     (kbind (elf_entry elf_addr) (\<lambda>e.
     kthen (uctx_upd pid (\<lambda>u. u\<lparr>tf_eip := e\<rparr>))
     (kbind get_pcpu_idx (\<lambda>c.
     kthen (seg_init_proc c pid)
           (kreturn pid))))))))"

section \<open>TSyscall.c\<close>

definition puts_part :: "u32 \<Rightarrow> u32" where
  "puts_part remain = (if remain < PAGESIZE - 1 then remain else PAGESIZE - 1)"

lemma puts_part_decreases: "remain \<noteq> 0 \<Longrightarrow> unat (remain - puts_part remain) < unat remain"
proof -
  assume r: "remain \<noteq> 0"
  then have "puts_part remain \<le> remain" "0 < puts_part remain" by (auto simp: puts_part_def word_neq_0_conv not_less)
  then show ?thesis by (simp add: unat_sub word_less_nat_alt word_le_nat_alt)
qed

text \<open>One round copies a part of the string into the buffer of the process, terminates it and prints it.\<close>

definition puts_round :: "u32 \<Rightarrow> u32 \<Rightarrow> u32 \<Rightarrow> u32 \<Rightarrow> ('a trap_state_scheme, bool) kprog" where
  "puts_round pid buf pos n =
     kbind (pt_copyin pid pos buf n) (\<lambda>r.
     if r \<noteq> n then kreturn False
     else kthen (kmodify (\<lambda>s. s\<lparr>phys_mem := (phys_mem s)(buf + n := 0)\<rparr>))
       (kthen (kmodify (\<lambda>s. s\<lparr>console_out := console_out s @
            takeWhile (\<lambda>c. c \<noteq> 0) (map (\<lambda>i. phys_mem s (buf + of_nat i)) [0..<unat n + 1])\<rparr>))
              (kreturn True)))"

function puts_loop :: "u32 \<Rightarrow> u32 \<Rightarrow> u32 \<Rightarrow> u32 \<Rightarrow> ('a trap_state_scheme, bool) kprog" where
  "puts_loop pid buf remain pos s =
     (if remain = 0 then Inr (True, s)
      else let n = puts_part remain in
        kbind (puts_round pid buf pos n) (\<lambda>ok t. if ok then puts_loop pid buf (remain - n) (pos + n) t else Inr (False, t)) s)"
  by pat_completeness auto
termination
  by (relation "measure (\<lambda>(_, _, remain, _, _). unat remain)") (simp_all add: puts_part_decreases)

declare puts_loop.simps [simp del]

definition sys_puts :: "places \<Rightarrow> tf_t \<Rightarrow> ('a trap_state_scheme, tf_t) kprog" where
  "sys_puts pl tf =
     kbind get_curid (\<lambda>cur.
     let uva = syscall_get_arg2 tf; len = syscall_get_arg3 tf in
     if \<not> (VM_USERLO \<le> uva \<and> uva + len \<le> VM_USERHI) then kreturn (set_err E_INVAL_ADDR tf)
     else kbind (puts_loop cur (a_sys_buf pl + cur * PAGESIZE) len uva) (\<lambda>ok.
       kreturn (set_err (if ok then E_SUCC else E_MEM) tf)))"

text \<open>The variable \<^verbatim>\<open>curid\<close> is read before it is set; \<open>junk\<close> is what it happens to hold.\<close>

definition sys_spawn :: "places \<Rightarrow> u32 \<Rightarrow> tf_t \<Rightarrow> ('a trap_state_scheme, tf_t) kprog" where
  "sys_spawn pl junk tf =
     (let elf_id = syscall_get_arg2 tf; q = syscall_get_arg3 tf;
          bad = (\<lambda>e. kreturn (syscall_set_retval1 NUM_IDS (set_err e tf))) in
      kbind (container_can_consume junk q) (\<lambda>qok.
      kbind (container_get_nchildren junk) (\<lambda>nc.
      kbind get_curid (\<lambda>cur.
      if qok = 0 then bad E_EXCEEDS_QUOTA
      else if NUM_IDS < cur * MAX_CHILDREN + 1 + MAX_CHILDREN then bad E_MAX_NUM_CHILDEN_REACHED
      else if nc = MAX_CHILDREN then bad E_INVAL_CHILD_ID
      else if \<not> (1 \<le> elf_id \<and> elf_id \<le> 4) then bad E_INVAL_PID
      else kbind (proc_create pl (a_elf pl elf_id) q) (\<lambda>new_pid.
        if new_pid = NUM_IDS then bad E_INVAL_PID
        else kreturn (syscall_set_retval1 new_pid (set_err E_SUCC tf)))))))"

definition sys_yield :: "tf_t \<Rightarrow> ('a trap_state_scheme, tf_t) kprog" where
  "sys_yield tf = kthen thread_yield (kreturn (set_err E_SUCC tf))"

text \<open>The two calls differ in the message they print, with interrupts off.\<close>

definition sys_produce :: "tf_t \<Rightarrow> ('a trap_state_scheme, tf_t) kprog" where
  "sys_produce tf = kthen (kfor 0 5 (\<lambda>i. kthen intr_local_disable intr_local_enable)) (kreturn (set_err E_SUCC tf))"

definition sys_consume :: "tf_t \<Rightarrow> ('a trap_state_scheme, tf_t) kprog" where
  "sys_consume tf = kthen (kfor 0 5 (\<lambda>i. kthen intr_local_disable intr_local_enable)) (kreturn (set_err E_SUCC tf))"

section \<open>TDispatch.c\<close>

text \<open>The default case calls \<^verbatim>\<open>syscall_set_errno\<close> without the frame, so the error number is used as a pointer.\<close>

definition syscall_dispatch :: "places \<Rightarrow> u32 \<Rightarrow> tf_t \<Rightarrow> ('a trap_state_scheme, tf_t) kprog" where
  "syscall_dispatch pl junk tf =
     (let nr = syscall_get_arg1 tf in
      if nr = 0 then sys_puts pl tf
      else if nr = 1 then sys_spawn pl junk tf
      else if nr = 2 then sys_yield tf
      else if nr = 3 then kthen intr_local_enable (kbind (sys_produce tf) (\<lambda>r. kthen intr_local_disable (kreturn r)))
      else if nr = 4 then kthen intr_local_enable (kbind (sys_consume tf) (\<lambda>r. kthen intr_local_disable (kreturn r)))
      else if nr = 5 then sys_open (a_path pl) tf
      else if nr = 6 then sys_close tf
      else if nr = 7 then sys_read (a_fbuf pl) tf
      else if nr = 8 then sys_write (a_fbuf pl) tf
      else if nr = 9 then sys_mkdir (a_path pl) tf
      else if nr = 10 then sys_chdir (a_path pl) tf
      else if nr = 11 then sys_link (a_old pl) (a_new pl) tf
      else if nr = 12 then sys_unlink (a_path pl) tf
      else if nr = 13 then sys_fstat (a_st pl) tf
      else kfail (Fault ''syscall_set_errno''))"

section \<open>TTrapHandler.c\<close>

definition default_exception_handler :: "tf_t \<Rightarrow> ('a trap_state_scheme, tf_t) kprog" where
  "default_exception_handler tf = kthen get_curid (kfail (Panic ''Trap''))"

definition pgflt_handler :: "tf_t \<Rightarrow> ('a trap_state_scheme, tf_t) kprog" where
  "pgflt_handler tf =
     kbind get_curid (\<lambda>cur.
     kbind (kgets cr2) (\<lambda>fault_va.
     if tf_err tf AND PFE_PR \<noteq> 0 then kfail (Panic ''Permission denied'')
     else kbind (alloc_page cur fault_va (PTE_W OR PTE_U OR PTE_P)) (\<lambda>r.
       if r = MagicNumber then kfail (Panic ''Page allocation failed'') else kreturn tf)))"

definition exception_handler :: "tf_t \<Rightarrow> ('a trap_state_scheme, tf_t) kprog" where
  "exception_handler tf =
     kthen get_curid (if trapno tf = T_PGFLT then pgflt_handler tf else default_exception_handler tf)"

definition timer_intr_handler :: "('a trap_state_scheme, unit) kprog" where
  "timer_intr_handler = kthen intr_eoi sched_update"

definition default_intr_handler :: "('a trap_state_scheme, unit) kprog" where
  "default_intr_handler = intr_eoi"

definition interrupt_handler :: "tf_t \<Rightarrow> ('a trap_state_scheme, tf_t) kprog" where
  "interrupt_handler tf =
     kthen get_curid
     (kthen
       (let t = trapno tf in
        if t = T_IRQ0 + 7 then kreturn ()
        else if t = T_IRQ0 + 0 then timer_intr_handler
        else if t = T_IRQ0 + 14 then kthen ide_intr intr_eoi
        else if t = T_IRQ0 + 15 then kreturn ()
        else default_intr_handler)
       (kreturn tf))"

text \<open>
  What is left of a trap once the handler has returned in the thread \<open>cur_pid\<close> that took it: the
  frame given to \<^verbatim>\<open>trap_return\<close>.
\<close>

definition trap_resume :: "u32 \<Rightarrow> tf_t \<Rightarrow> ('a trap_state_scheme, tf_t) kprog" where
  "trap_resume cur_pid tf = kthen (kstack_switch cur_pid) (kthen (set_pdir_base cur_pid) (kreturn tf))"

definition call_handler :: "places \<Rightarrow> u32 \<Rightarrow> trap_cb \<Rightarrow> tf_t \<Rightarrow> ('a trap_state_scheme, tf_t) kprog" where
  "call_handler pl junk f tf =
     (case f of Exception_handler \<Rightarrow> exception_handler tf
      | Syscall_dispatch \<Rightarrow> syscall_dispatch pl junk tf
      | Interrupt_handler \<Rightarrow> interrupt_handler tf)"

definition trap :: "places \<Rightarrow> u32 \<Rightarrow> tf_t \<Rightarrow> ('a trap_state_scheme, (u32 \<times> tf_t) + tf_t) kprog" where
  "trap pl junk tf =
     kbind get_curid (\<lambda>cur_pid.
     kthen (set_pdir_base 0)
     (kbind get_pcpu_idx (\<lambda>c.
     kthen (kassert (c < 8 \<and> trapno tf < 256) (Fault ''TRAP_HANDLER''))
     (kbind (kgets (\<lambda>s. TRAP_HANDLER s c (trapno tf))) (\<lambda>f.
     kbind (case f of Some cb \<Rightarrow> call_handler pl junk cb tf | None \<Rightarrow> kreturn tf) (\<lambda>tf'.
     kbind get_curid (\<lambda>now.
     if now \<noteq> cur_pid then kreturn (Inl (cur_pid, tf'))
     else kbind (trap_resume cur_pid tf') (\<lambda>r. kreturn (Inr r)))))))))"

section \<open>TTrapInit.c\<close>

definition trap_init_array :: "('a trap_state_scheme, unit) kprog" where
  "trap_init_array =
     kbind (kgets trap_inited) (\<lambda>i.
     kthen (kassert (\<not> i) (Panic ''trap_init_array''))
     (kmodify (\<lambda>s. s\<lparr>TRAP_HANDLER := (\<lambda>c t. if c < 8 \<and> t < 256 then None else TRAP_HANDLER s c t), trap_inited := True\<rparr>)))"

definition trap_handler_register :: "u32 \<Rightarrow> u32 \<Rightarrow> trap_cb \<Rightarrow> ('a trap_state_scheme, unit) kprog" where
  "trap_handler_register cpu t cb =
     kthen (kassert (0 \<le> sint cpu \<and> sint cpu < 8) (Panic ''cpu_idx''))
     (kthen (kassert (0 \<le> sint t \<and> sint t < 256) (Panic ''trapno''))
     (kmodify (\<lambda>s. s\<lparr>TRAP_HANDLER := (TRAP_HANDLER s)(cpu := (TRAP_HANDLER s cpu)(t := Some cb))\<rparr>)))"

text \<open>The registrations in the order of the code: GPFLT, PGFLT, SYSCALL, the other exceptions, and the interrupts.\<close>

definition trap_handlers :: "(u32 \<times> trap_cb) list" where
  "trap_handlers =
     [(13, Exception_handler), (14, Exception_handler), (48, Syscall_dispatch)] @
     map (\<lambda>t. (t, Exception_handler)) [0, 1, 2, 3, 4, 5, 6, 7, 8, 9, 10, 11, 12, 15, 16, 17, 18, 19, 30] @
     map (\<lambda>irq. (T_IRQ0 + irq, Interrupt_handler)) [7, 0, 1, 4, 14]"

fun trap_registers :: "u32 \<Rightarrow> (u32 \<times> trap_cb) list \<Rightarrow> ('a trap_state_scheme, unit) kprog" where
  "trap_registers cpu [] = kreturn ()"
| "trap_registers cpu ((t, cb) # l) = kthen (trap_handler_register cpu t cb) (trap_registers cpu l)"

definition trap_init :: "u32 \<Rightarrow> ('a trap_state_scheme, unit) kprog" where
  "trap_init cpu =
     kthen (kwhen (cpu = 0) trap_init_array)
     (kthen (trap_registers cpu trap_handlers)
     (kthen (intr_enable 0 cpu)
     (kthen (intr_enable 1 cpu)
     (kthen (intr_enable 4 cpu)
            (intr_enable 14 cpu)))))"

section \<open>init.c\<close>

text \<open>Up to the switch to the idle process, from which the code does not come back.\<close>

definition kern_main :: "places \<Rightarrow> ('a trap_state_scheme, unit) kprog" where
  "kern_main pl =
     kthen pcpu_ncpu
     (kthen get_pcpu_idx
     (kbind (proc_create pl (a_idle pl) 1000) (\<lambda>pid.
     kthen (tqueue_remove NUM_IDS pid)
     (kthen (tcb_set_state pid TSTATE_RUN)
     (kthen (set_curid pid)
            (kctx_switch 0 pid))))))"

section \<open>What a program leaves alone\<close>

named_theorems keeps

definition kkeeps :: "('s \<Rightarrow> 'b) \<Rightarrow> ('s, 'a) kprog \<Rightarrow> bool" where
  "kkeeps f m \<longleftrightarrow> (\<forall>s r t. m s = Inr (r, t) \<longrightarrow> f t = f s)"

lemma kkeeps_prims [keeps]:
  "kkeeps f (kreturn x)" "kkeeps f (kgets g)" "kkeeps f (kassert b e)" "kkeeps f (kfail e)"
  by (auto simp: kkeeps_def kreturn_def kgets_def kassert_def kfail_def split: if_splits)

lemma kkeeps_kmodify [keeps]: "(\<And>s. f (g s) = f s) \<Longrightarrow> kkeeps f (kmodify g)"
  by (auto simp: kkeeps_def kmodify_def)

lemma kkeeps_kbind [keeps]: "kkeeps f m \<Longrightarrow> (\<And>x. kkeeps f (n x)) \<Longrightarrow> kkeeps f (kbind m n)"
  by (fastforce simp: kkeeps_def kbind_def split: sum.splits)

lemma kkeeps_kthen [keeps]: "kkeeps f m \<Longrightarrow> kkeeps f n \<Longrightarrow> kkeeps f (kthen m n)"
  by (simp add: kthen_def kkeeps_kbind)

lemma kkeeps_kwhen [keeps]: "kkeeps f m \<Longrightarrow> kkeeps f (kwhen b m)"
  by (simp add: kwhen_def kkeeps_prims)

lemma kkeeps_if [keeps]: "(b \<Longrightarrow> kkeeps f m) \<Longrightarrow> (\<not> b \<Longrightarrow> kkeeps f n) \<Longrightarrow> kkeeps f (if b then m else n)"
  by simp

lemma kkeeps_kfor [keeps]:
  assumes "\<And>i. kkeeps f (act i)"
  shows "kkeeps f (kfor i n act)"
proof -
  have "kfor i n act s = Inr (r, t) \<Longrightarrow> f t = f s" for s r t
    using assms
  proof (induction i n act s rule: kfor.induct)
    case (1 i n act s)
    then show ?case
      by (cases "i < n") (auto simp: kfor.simps [of i] kthen_def kbind_def kkeeps_def split: sum.splits)
  qed
  then show ?thesis by (simp add: kkeeps_def)
qed

lemma kkeeps_kfor_ret [keeps]:
  assumes "\<And>i. kkeeps f (act i)"
  shows "kkeeps f (kfor_ret i n act)"
proof -
  have "kfor_ret i n act s = Inr (r, t) \<Longrightarrow> f t = f s" for s r t
    using assms
  proof (induction i n act s rule: kfor_ret.induct)
    case (1 i n act s)
    then show ?case
      by (cases "i < n") (auto simp: kfor_ret.simps [of i] kbind_def kkeeps_def split: sum.splits option.splits)
  qed
  then show ?thesis by (simp add: kkeeps_def)
qed

lemma kwp_keeps: "kkeeps f m \<Longrightarrow> kwp m Q s \<Longrightarrow> kwp m (\<lambda>r t. Q r t \<and> f t = f s) s"
  by (auto simp: kkeeps_def kwp_def split: sum.splits prod.splits)

lemmas alloc_page_defs = alloc_page_def map_page_def alloc_ptbl_def container_alloc_def palloc_def palloc_scan_def
  con_get_def con_upd_def at_is_norm_def at_is_allocated_def at_set_allocated_def at_get_def at_upd_def get_nps_def
  mem_lock_def mem_unlock_def pt_spinlock_acquire_def pt_spinlock_release_def spinlock_acquire_def spinlock_release_def
  get_pdir_entry_by_va_def set_ptbl_entry_by_va_def set_pdir_entry_by_va_def get_pdir_entry_def set_ptbl_entry_def set_pdir_entry_def pdir_store_def
  rmv_ptbl_entry_def mem_store32_def xchg_def Let_def

lemma alloc_page_keeps:
  "kkeeps (\<lambda>s. (ks_addr s, ks_cpu_idx s, ks_magic s, pcpu s, PDirPool_addr s, cr3 s, mpt.more s)) (alloc_page p v prm)"
  unfolding alloc_page_defs prod.case by (intro keeps) simp_all

section \<open>Page faults\<close>

definition mirrored :: "'a trap_state_scheme \<Rightarrow> bool" where
  "mirrored s \<longleftrightarrow> kst_magic (kstacks s (ks_addr s)) = ks_magic s \<and> kst_cpu_idx (kstacks s (ks_addr s)) = ks_cpu_idx s"

text \<open>
  What holds on entry to the kernel from process \<open>p\<close>: the CPU and the page structures are set up and
  the stack structure the CPU points to carries the values mirrored in the state.
\<close>

definition from_user :: "u32 \<Rightarrow> 'a trap_state_scheme \<Rightarrow> bool" where
  "from_user p s \<longleftrightarrow> cpu_ok s \<and> vm_ok s \<and> CURID s (ks_cpu_idx s) = p \<and> p < NUM_IDS \<and> p \<noteq> 0 \<and> mirrored s"

text \<open>The CPU is set up for \<open>p\<close>: its page directory, and the task state in its kernel stack under the loaded selector.\<close>

definition runs_as :: "u32 \<Rightarrow> 'a trap_state_scheme \<Rightarrow> bool" where
  "runs_as p s \<longleftrightarrow> cr3 s = PDirPool_addr s + p * PAGESIZE \<and>
     gdt (kstacks s (kstack (pcpu s (ks_cpu_idx s)))) 5 = tss_desc (proc_kstack_addr s + p * KSTACK_SIZE) \<and> tr s = CPU_GDT_TSS"

lemma trap_fields_vm [simp]:
  "vm_ok (s\<lparr>cr3 := x\<rparr>) = vm_ok s" "page_mapped p v q r (s\<lparr>cr3 := x\<rparr>) t = page_mapped p v q r s t"
  "page_mapped p v q r s (t\<lparr>cr3 := x\<rparr>) = page_mapped p v q r s t"
  "vm_ok (t'\<lparr>kstacks := k, tr := y\<rparr>) = vm_ok t'"
  "page_mapped p v q r s' (t'\<lparr>kstacks := k, tr := y\<rparr>) = page_mapped p v q r s' t'"
  by (simp_all add: vm_ok_def mat_ok_def perms_ok_def owned_pages_def page_mapped_def room_def free_page_def keeps_slots_def)

text \<open>Changes of a stack structure that leave its magic number and CPU alone.\<close>

lemma kstack_same [simp]:
  "ks_magic s = x \<Longrightarrow> s\<lparr>ks_magic := x\<rparr> = s" "ks_cpu_idx s = c \<Longrightarrow> s\<lparr>ks_cpu_idx := c\<rparr> = s"
  by auto

lemma kstack_upd_wp:
  assumes "mirrored s" and "kst_magic (f (kstacks s a)) = kst_magic (kstacks s a)"
    and "kst_cpu_idx (f (kstacks s a)) = kst_cpu_idx (kstacks s a)"
    and "mirrored (s\<lparr>kstacks := (kstacks s)(a := f (kstacks s a))\<rparr>) \<Longrightarrow> Q () (s\<lparr>kstacks := (kstacks s)(a := f (kstacks s a))\<rparr>)"
  shows "kwp (kstack_upd a f) Q s"
  using assms by (auto simp: kstack_upd_def wp Let_def mirrored_def)

lemma trap_resume_wp:
  assumes "mirrored s" and "cpu_ok s" and "p < NUM_IDS"
    and "\<And>k. gdt (k (kstack (pcpu s (ks_cpu_idx s)))) 5 = tss_desc (proc_kstack_addr s + p * KSTACK_SIZE) \<Longrightarrow>
      Q tf (s\<lparr>kstacks := k, tr := CPU_GDT_TSS, cr3 := PDirPool_addr s + p * PAGESIZE\<rparr>)"
  shows "kwp (trap_resume p tf) Q s"
  using assms
  by (auto simp: trap_resume_def kstack_switch_def wp get_pcpu_kstack_pointer_def proc_kstack_def ltr_def set_pdir_base_def
      set_cr3_def cpu_ok_def intro!: kstack_upd_wp)

lemma more_trap:
  fixes s t :: "'a trap_state_scheme"
  assumes "mpt.more t = mpt.more s"
  shows "CURID t = CURID s" "kstacks t = kstacks s" "proc_kstack_addr t = proc_kstack_addr s"
  using assms by (cases s, cases t, simp)+

lemma alloc_page_from_user:
  assumes s: "from_user p s" and v: "user_va v" and "room p 2 s" and prm: "prm < 4096"
  shows "kwp (alloc_page p v prm) (\<lambda>r t. from_user p t \<and> PDirPool_addr t = PDirPool_addr s \<and>
     r \<noteq> MagicNumber \<and> page_mapped p v prm r s t) s"
proof -
  have dir: "user_dir p (pde_of v)" and ok: "vm_ok s" using s v by (auto simp: from_user_def intro: user_va_dir)
  note wp = kwp_keeps [OF alloc_page_keeps alloc_page_wp [OF ok dir prm]]
  show ?thesis
  proof (rule kwp_mono [OF wp])
    fix r t
    assume t: "(vm_ok t \<and> page_mapped p v prm r s t) \<and>
      (ks_addr t, ks_cpu_idx t, ks_magic t, pcpu t, PDirPool_addr t, cr3 t, mpt.more t) =
      (ks_addr s, ks_cpu_idx s, ks_magic s, pcpu s, PDirPool_addr s, cr3 s, mpt.more s)"
    then have "from_user p t" using s by (simp add: from_user_def cpu_ok_def mirrored_def more_trap [of t s])
    moreover have "r \<noteq> MagicNumber" using t assms(3) unfolding page_mapped_def by blast
    ultimately show "from_user p t \<and> PDirPool_addr t = PDirPool_addr s \<and> r \<noteq> MagicNumber \<and> page_mapped p v prm r s t"
      using t by simp
  qed
qed

lemma back_to_user:
  assumes t: "from_user p t" and "page_mapped p v q pg s t"
  shows "kwp (trap_resume p tf) (\<lambda>r u. r = tf \<and> vm_ok u \<and> runs_as p u \<and> page_mapped p v q pg s u) t"
proof (rule trap_resume_wp)
  show "mirrored t" "cpu_ok t" "p < NUM_IDS" using t by (simp_all add: from_user_def)
qed (use assms in \<open>simp add: from_user_def runs_as_def\<close>)

text \<open>
  C6: A page fault of a process at one of its user addresses, not caused by a protection violation and
  with two pages of quota and memory left, is repaired: trap returns the unchanged frame to the process
  that took it, so that the instruction is executed again; the address is mapped to a page that nobody
  owned before, no slot of any other address or process changes, the isolation invariant holds, CR3 is
  the page directory of the process and the loaded task state is the one in its kernel stack.
\<close>

theorem page_fault_repaired:
  assumes s: "from_user p s" and "TRAP_HANDLER s (ks_cpu_idx s) T_PGFLT = Some Exception_handler" and "trapno tf = T_PGFLT"
    and "tf_err tf AND PFE_PR = 0" and v: "user_va (cr2 s)" and "room p 2 s"
  shows "kwp (trap pl junk tf) (\<lambda>r t. r = Inr tf \<and> vm_ok t \<and> runs_as p t \<and>
     (\<exists>pg. pg \<noteq> MagicNumber \<and> page_mapped p (cr2 s) (PTE_W OR PTE_U OR PTE_P) pg s t)) s"
proof -
  let ?s = "s\<lparr>cr3 := PDirPool_addr s\<rparr>" and ?q = "PTE_W OR PTE_U OR PTE_P :: u32"
  have s': "from_user p ?s" "user_va (cr2 ?s)" "room p 2 ?s"
    using assms by (simp_all add: from_user_def cpu_ok_def mirrored_def room_def free_page_def)
  have "kwp (alloc_page p (cr2 s) ?q) (\<lambda>r t. from_user p t \<and> PDirPool_addr t = PDirPool_addr s \<and>
     r \<noteq> MagicNumber \<and> page_mapped p (cr2 s) ?q r s t) ?s"
    using alloc_page_from_user [OF s'(1) v s'(3), of ?q] by simp
  then have "kwp (pgflt_handler tf) (\<lambda>r t. r = tf \<and> from_user p t \<and>
     (\<exists>pg. pg \<noteq> MagicNumber \<and> page_mapped p (cr2 s) ?q pg s t)) ?s"
    using s assms(4) by (simp add: pgflt_handler_def wp from_user_def cpu_ok_def) (erule kwp_mono, auto)
  moreover have "kwp (kbind get_curid (\<lambda>now. if now \<noteq> p then kreturn (Inl (p, tf)) else kbind (trap_resume p tf) (\<lambda>r. kreturn (Inr r))))
      (\<lambda>r t. r = Inr tf \<and> vm_ok t \<and> runs_as p t \<and> (\<exists>pg. pg \<noteq> MagicNumber \<and> page_mapped p (cr2 s) ?q pg s t)) t"
    if "from_user p t" "pg \<noteq> MagicNumber" "page_mapped p (cr2 s) ?q pg s t" for t pg
  proof -
    have "kwp (trap_resume p tf) (\<lambda>r u. r = tf \<and> vm_ok u \<and> runs_as p u \<and>
        (\<exists>pg. pg \<noteq> MagicNumber \<and> page_mapped p (cr2 s) ?q pg s u)) t"
      by (rule kwp_mono [OF back_to_user [OF that(1,3)]]) (use that(2) in blast)
    then show ?thesis using that(1) by (simp add: wp from_user_def cpu_ok_def)
  qed
  ultimately show ?thesis
    using s assms(2,3)
    by (simp add: trap_def wp from_user_def cpu_ok_def set_pdir_base_def set_cr3_def call_handler_def exception_handler_def)
       (erule kwp_mono, auto)
qed

text \<open>A state whose page structures are those of \<open>vm_demo\<close>, in which process 1 runs on CPU 0.\<close>

definition user_demo :: "trap_state \<Rightarrow> trap_state" where
  "user_demo s = s\<lparr>ks_addr := 0x300000, ks_cpu_idx := 0, ks_magic := KSTACK_MAGIC,
     pcpu := (\<lambda>i. \<lparr>inited = True, booted = True, kstack = 0x300000, vendor = UNKNOWN_CPU, cpu_idx = i\<rparr>),
     mem_lk := spinlock_init, NUM_PAGES := NUM_PAGES vm_demo, AT := AT vm_demo, last_palloc_index := last_palloc_index vm_demo,
     CONTAINER := CONTAINER vm_demo, pt_lk := spinlock_init, PDirPool := PDirPool vm_demo, phys_mem := phys_mem vm_demo,
     IDPTbl_addr := IDPTbl_addr vm_demo, CURID := (\<lambda>_. 1), kstacks := (\<lambda>_. kstack_zero\<lparr>kst_magic := KSTACK_MAGIC\<rparr>),
     TRAP_HANDLER := (\<lambda>_ _. Some Exception_handler), cr2 := 0x40001234\<rparr>"

definition fault_demo :: tf_t where
  "fault_demo = \<lparr>tf_t.regs = \<lparr>edi = 0, esi = 0, ebp = 0, oesp = 0, ebx = 0, edx = 0, ecx = 0, eax = 0\<rparr>, tf_es = 0x23, tf_ds = 0x23,
     trapno = 14, tf_err = 4, tf_eip = 0x40000000, tf_cs = 0x1b, tf_eflags = 0x200, tf_esp = 0xF0000000, tf_ss = 0x23\<rparr>"

definition places_demo :: places where
  "places_demo = \<lparr>a_fbuf = 0x400000, a_path = 0x403000, a_old = 0x404000, a_new = 0x405000, a_st = 0x406000, a_sys_buf = 0x410000,
     a_proc_start_user = 0x101000, a_elf = (\<lambda>i. 0x500000 + i * 0x10000), a_idle = 0x600000\<rparr>"

lemma user_demo_room: "room 1 2 (user_demo s)"
proof -
  let ?A = "{i. last_palloc_index vm_demo < i \<and> free_page vm_demo i}"
  have "{0x40006, 0x40007} \<subseteq> ?A" by (simp add: vm_demo_def demo_defs free_page_def)
  then have "card {0x40006, 0x40007 :: u32} \<le> card ?A" by (intro card_mono) simp_all
  then have "2 \<le> card ?A" by simp
  moreover have "unat (usage (CONTAINER vm_demo 1)) + 2 \<le> unat (quota (CONTAINER vm_demo 1))"
    by (simp add: vm_demo_def demo_defs)
  ultimately show ?thesis by (simp add: room_def user_demo_def free_page_def)
qed

lemma user_demo_ok: "from_user 1 (user_demo s)"
  using vm_demo_ok
  by (simp add: from_user_def cpu_ok_def mirrored_def vm_ok_def mat_ok_def perms_ok_def owned_pages_def user_demo_def kstack_zero_def)

theorem page_fault_repaired_witness:
  "\<forall>s. kwp (trap places_demo 0 fault_demo) (\<lambda>r t. r = Inr fault_demo \<and> vm_ok t \<and> runs_as 1 t \<and>
     (\<exists>pg. pg \<noteq> MagicNumber \<and> page_mapped 1 0x40001234 (PTE_W OR PTE_U OR PTE_P) pg (user_demo s) t)) (user_demo s)"
proof
  fix s
  show "kwp (trap places_demo 0 fault_demo) (\<lambda>r t. r = Inr fault_demo \<and> vm_ok t \<and> runs_as 1 t \<and>
     (\<exists>pg. pg \<noteq> MagicNumber \<and> page_mapped 1 0x40001234 (PTE_W OR PTE_U OR PTE_P) pg (user_demo s) t)) (user_demo s)"
    using page_fault_repaired [OF user_demo_ok, of s fault_demo places_demo 0] user_demo_room
    by (simp add: user_demo_def fault_demo_def user_va_def)
qed

end
