(* ===== verification/Spec2Isabelle.thy ===== *)
theory Spec2Isabelle
  imports SpinLock MBoot MAT MContainer Memory MPT Pmap Strings Printfmt Sysfile Log_Spec Inode_Spec Console Trap
begin

text \<open>
  Verification of a small i386 kernel: memory management with quotas and paging, cooperative and
  timer-driven threads, an IDE disk with a buffer cache, a write-ahead log and a UNIX-like file system,
  reached by system calls from user processes. Sources are below src/kern and src/user.

  \<^bold>\<open>How programs are modelled.\<close> A C function that reads or changes kernel data is a program of type
  \<open>('s, 'a) kprog\<close>, a function from a state to either the reason why the kernel stops (\<open>kstop\<close>: a
  \<^verbatim>\<open>KERN_PANIC\<close>, an access outside an array or through a bad pointer as \<open>Fault\<close>, spinning on a lock that
  this CPU holds as \<open>Deadlock\<close>, waiting for an event as \<open>Asleep\<close>) or a result with the new state
  (Kernel_Prelude). Loops over an unsigned counter are \<open>kfor\<close>, \<open>kfor_ret\<close> (with an early return) and
  \<open>kfold\<close>, total functions with a termination proof. Machine integers are words of their C width, so
  overflow is in the model. \<open>kwp m Q s\<close> says that \<open>m\<close> returns from \<open>s\<close> in a state satisfying \<open>Q\<close>: it
  is total correctness, a program that stops satisfies no \<open>kwp\<close>.

  The state is one record that grows with the layers, in the order in which the kernel builds on them:
  \<open>cpu_state\<close>, \<open>mboot_state\<close>, \<open>mat\<close>, \<open>mcontainer\<close>, \<open>mpt\<close>, \<open>thread\<close>, \<open>fs_buf\<close>, \<open>fs_log\<close>, \<open>fs_ino\<close>, \<open>fs_file\<close>, \<open>fs_sys\<close>,
  \<open>hw\<close>, \<open>trap_state\<close>. An operation is polymorphic in the extension, so what a layer proves holds in
  all layers above. The console has its own extension of \<open>cpu_state\<close>.

  \<^bold>\<open>Theories and sources.\<close>

  \<^item> Kernel_Prelude: the program type, loops, weakest preconditions, word lemmas.
  \<^item> PCPU: rounding (lib/types.c), kernel stack header (lib/kstack.c), per-CPU data (pcpu/).
  \<^item> SpinLock: lib/spinlock.c, as the operations every client calls and as interleaved instructions of
    all CPUs. Mutual exclusion and the meaning of \<^verbatim>\<open>spinlock_holding\<close> are invariants of every interleaving.
  \<^item> MBoot: dev/mboot.c. The map built from the boot loader's table is sorted and represents its rows.
  \<^item> MAT: pmm/MATIntro, MATInit, MATOp. Allocatable pages are usable memory, \<^verbatim>\<open>palloc\<close> is first fit from the
    remembered index, never returns a page twice, and succeeds within two calls when a page is free.
  \<^item> MContainer: pmm/MContainer. Quotas form a tree that no split or allocation breaks; pages in use are bounded
    by the root's quota. Two deviations are proved: the wrap-around of the quota test and the charge for a
    failed allocation.
  \<^item> Memory: memset, memmove, memcpy, memcmp of lib/string.c, equal to their specification also for overlapping ranges.
  \<^item> MPT: vmm/. Page directories, page tables in physical memory and the invariant \<open>vm_ok\<close>. The MMU is the
    specification \<open>mmu_user\<close>; under the invariant no two user pages share memory, allocation keeps it and
    \<^verbatim>\<open>paging_init\<close> establishes it.
  \<^item> PTQueue, PThread: thread/. Control blocks and the doubly linked thread queues refine lists; spawn, yield, timer
    tick, sleep and wakeup act as a round-robin scheduler on them, and every ready thread gets its turn.
  \<^item> Pmap: lib/pmap.c and lib/elf.c. Copies between kernel and user memory and what happens when memory runs out.
  \<^item> Strings, Printfmt: lib/string.c, lib/printfmt.c, lib/dprintf.c and their user versions. Bounds of
    \<^verbatim>\<open>vsnprintf\<close>, and printed numbers read back by \<^verbatim>\<open>atoi\<close> and \<^verbatim>\<open>strtol\<close>.
  \<^item> Bufcache, Bufcache_Spec: dev/disk/ide.c and fs/bufcache.c. The linked list of buffers, synchronisation
    with the drive, and refinement: any sequence of accesses behaves as on one array of blocks.
  \<^item> Log, Log_Spec: fs/log.c. A crash at any point of a commit leaves, after recovery, the old or the new
    disk; \<^verbatim>\<open>log_write\<close> records each block once; a wakeup between release and sleep is not lost.
  \<^item> Inode, Inode_Spec, Dir, File: fs/block.c, inode.c, dir.c, path.c, file.c. An inode is cached at most
    once; \<^verbatim>\<open>skipelem\<close> splits a path into its names and ends.
  \<^item> TSyscallArg, Sysfile: the trap frame and every handler of fs/sysfile.c.
  \<^item> Console: dev/video.c, serial.c, keyboard.c, console.c. The cursor never leaves the screen.
  \<^item> Intr: dev/pic.c, timer.c, ioapic.c, lapic.c, intr.c, disk/picirq.c, disk/ioapic.c and \<^verbatim>\<open>ide_init\<close>. User code can call
    exactly three gates of the descriptor table.
  \<^item> Trap: lib/seg.c, proc/PProc, trap/TSyscall, TDispatch, TTrapHandler, TTrapInit and \<^verbatim>\<open>kern_main\<close>. A page fault of a
    process is repaired and the process resumed without any change to another address space.

  \<^bold>\<open>Interfaces.\<close> \<open>lock_field\<close> (a spinlock in a field of the state: \<open>mem_lk\<close>, \<open>pt_lk\<close>, \<open>sched_lk\<close>, \<open>ide_lk\<close>, \<open>bcache_lk\<close>, \<open>log_lk\<close>,
  \<open>icache_lk\<close>), \<open>page_allocator\<close> (\<^verbatim>\<open>palloc\<close>), \<open>fifo_queue\<close> (the thread queue) and \<open>sleep_lock\<close> (sleeping with a lock held: the
  disk queue, the buffer cache, the log) are locales, interpreted on the kernel's operations in the theories that provide
  them; the components above use only their laws.

  \<^bold>\<open>Parameters.\<close> The drive is a map from sectors to blocks and a history of its writes; what device
  registers return, the boot loader's table, linker addresses and uninitialised variables are arguments.

  \<^bold>\<open>Bounds.\<close> Walks of the buffer list take at most 11 steps, one more than there are buffers, so on a well-formed
  list the bound is never what ends them. Recursions over paths and formats decrease with the input. No
  theorem assumes that a bound suffices.

  \<^bold>\<open>Concurrency.\<close> Outside the interleaved view of spinlocks the kernel runs on one CPU with interrupts off, as
  the source boots only one. \<^verbatim>\<open>thread_sleep\<close> and \<^verbatim>\<open>trap\<close> are split where the thread may lose the CPU.

  \<^bold>\<open>Not modelled.\<close> The boot loader and assembly entries (real mode and register saving), ACPI and multiprocessor tables
  (firmware data; other CPUs are never started), the time-stamp counter, the sound card that nothing
  calls, monitor and debug output, the order of calls in dev/devinit.c, the image builder (a host program) and the user
  programs, whose effect on the kernel is their trap frame. The handlers of sysfile.c and the inode layer
  are modelled in full, with theorems about their parts; end-to-end file contents through a system
  call are not stated.
\<close>

end
